(* ===== verification/Prelude.thy ===== *)
theory Prelude
  imports Main "HOL-Library.Word" "HOL-Library.Sublist"
begin

text \<open>
  Shared vocabulary of the development: the type names of Rust's machine integers and
  durations, \<open>Result\<close> as a sum type with the question-mark operator, the collections of
  theorems the component theories fill, and generic lemmas on lists and options.
\<close>

section \<open>Collections of theorems\<close>

text \<open>
  \<open>config_checks\<close> holds the characterisations of the validation steps, \<open>async_simps\<close>
  the unfolding equations of the computation combinators, \<open>frame_rules\<close> the facts that an
  operation leaves a part of the state alone.
\<close>

named_theorems config_checks
named_theorems async_simps
named_theorems frame_rules

section \<open>Types\<close>

type_synonym u8 = "8 word"
type_synonym u16 = "16 word"
type_synonym u32 = "32 word"
type_synonym u64 = "64 word"

text \<open>
  A \<open>Duration\<close> is its number of nanoseconds and an \<open>Instant\<close> the number of nanoseconds
  since an arbitrary origin: both are exact in Rust, and no value of the program comes near
  the \<open>2 ^ 64\<close> seconds where \<open>Duration\<close> would panic.
\<close>

type_synonym duration = nat
type_synonym instant = nat

definition nanos_per_sec :: nat where
  "nanos_per_sec = 1000000000"

definition from_secs :: "nat \<Rightarrow> duration" where
  "from_secs n = n * nanos_per_sec"

definition as_secs :: "duration \<Rightarrow> nat" where
  "as_secs d = d div nanos_per_sec"

lemma as_secs_from_secs [simp]: "as_secs (from_secs n) = n"
  by (simp add: as_secs_def from_secs_def nanos_per_sec_def)

lemma from_secs_eq_0 [simp]: "from_secs n = 0 \<longleftrightarrow> n = 0"
  by (simp add: from_secs_def nanos_per_sec_def)

lemma from_secs_pos [simp]: "0 < from_secs n \<longleftrightarrow> 0 < n"
  by (simp add: from_secs_def nanos_per_sec_def)

lemma from_secs_mono [simp]: "from_secs m \<le> from_secs n \<longleftrightarrow> m \<le> n"
  by (simp add: from_secs_def nanos_per_sec_def)

lemma from_secs_less [simp]: "from_secs m < from_secs n \<longleftrightarrow> m < n"
  by (simp add: from_secs_def nanos_per_sec_def)

lemma from_secs_max: "max (from_secs m) (from_secs n) = from_secs (max m n)"
  by (simp add: max_def)

section \<open>Results\<close>

text \<open>
  Rust's \<open>Result<T, E>\<close> is \<open>'e + 'a\<close>, \<open>Inl\<close> the error. The operator \<open>?\<close> is
  \<open>bind_res\<close>; \<open>map_err\<close> and \<open>ensure\<close> are the shapes the source uses around it.
\<close>

type_synonym ('a, 'e) result = "'e + 'a"

definition bind_res :: "('a, 'e) result \<Rightarrow> ('a \<Rightarrow> ('b, 'e) result) \<Rightarrow> ('b, 'e) result" where
  "bind_res r f = (case r of Inl e \<Rightarrow> Inl e | Inr a \<Rightarrow> f a)"

definition map_err :: "('e \<Rightarrow> 'f) \<Rightarrow> ('a, 'e) result \<Rightarrow> ('a, 'f) result" where
  "map_err h r = (case r of Inl e \<Rightarrow> Inl (h e) | Inr a \<Rightarrow> Inr a)"

definition ensure :: "bool \<Rightarrow> 'e \<Rightarrow> (unit, 'e) result" where
  "ensure b e = (if b then Inr () else Inl e)"

lemma bind_res_simps [simp]:
  "bind_res (Inl e) f = Inl e"
  "bind_res (Inr a) f = f a"
  by (simp_all add: bind_res_def)

lemma bind_res_Inr_iff: "bind_res r f = Inr b \<longleftrightarrow> (\<exists>a. r = Inr a \<and> f a = Inr b)"
  by (cases r) simp_all

lemma bind_res_Inl_iff:
  "bind_res r f = Inl e \<longleftrightarrow> r = Inl e \<or> (\<exists>a. r = Inr a \<and> f a = Inl e)"
  by (cases r) simp_all

lemma bind_res_assoc: "bind_res (bind_res r f) g = bind_res r (\<lambda>x. bind_res (f x) g)"
  by (cases r) simp_all

lemma bind_res_cong [fundef_cong]:
  assumes "r = r'" and "\<And>a. r' = Inr a \<Longrightarrow> f a = g a"
  shows "bind_res r f = bind_res r' g"
  using assms by (cases r) auto

lemma map_err_simps [simp]:
  "map_err h (Inl e) = Inl (h e)"
  "map_err h (Inr a) = Inr a"
  by (simp_all add: map_err_def)

lemma map_err_Inr_iff [simp]: "map_err h r = Inr a \<longleftrightarrow> r = Inr a"
  by (cases r) simp_all

lemma map_err_Inl_iff: "map_err h r = Inl e \<longleftrightarrow> (\<exists>d. r = Inl d \<and> e = h d)"
  by (cases r) auto

lemma ensure_Inr_iff [simp]: "ensure b e = Inr u \<longleftrightarrow> b"
  by (simp add: ensure_def)

lemma ensure_Inl_iff [simp]: "ensure b e = Inl e' \<longleftrightarrow> \<not> b \<and> e' = e"
  by (auto simp: ensure_def)

lemma ensure_bool_simps [simp]:
  "ensure True e = Inr ()"
  "ensure False e = Inl e"
  by (simp_all add: ensure_def)

lemma unit_result_ok_cases: "(r :: (unit, 'e) result) = Inr () \<or> (\<exists>e. r = Inl e)"
  by (cases r) auto

text \<open>
  The first error of a loop \<open>for (i, x) in xs.iter().enumerate() { check(i, x)?; }\<close>.
\<close>

fun for_each :: "(nat \<Rightarrow> 'a \<Rightarrow> (unit, 'e) result) \<Rightarrow> nat \<Rightarrow> 'a list \<Rightarrow> (unit, 'e) result" where
  "for_each f i [] = Inr ()"
| "for_each f i (x # xs) = bind_res (f i x) (\<lambda>_. for_each f (Suc i) xs)"

lemma for_each_Inr_iff:
  "for_each f i xs = Inr () \<longleftrightarrow> (\<forall>k < length xs. f (i + k) (xs ! k) = Inr ())"
proof (induction xs arbitrary: i)
  case Nil
  then show ?case by simp
next
  case (Cons x xs)
  have split: "(\<forall>k < length (x # xs). f (i + k) ((x # xs) ! k) = Inr ()) \<longleftrightarrow>
      f i x = Inr () \<and> (\<forall>k < length xs. f (Suc i + k) (xs ! k) = Inr ())"
    by (auto simp: less_Suc_eq_0_disj)
  show ?case
    unfolding split by (cases "f i x") (simp_all add: Cons.IH)
qed

section \<open>Lists and options\<close>

lemma prefix_take_length: "prefix xs ys \<Longrightarrow> take (length xs) ys = xs"
  by (auto simp: prefix_def)

lemma take_length_dropWhile_append: "takeWhile P xs @ dropWhile P xs = xs"
  by (rule takeWhile_dropWhile_id)

lemma dropWhile_idem [simp]: "dropWhile P (dropWhile P xs) = dropWhile P xs"
  by (induction xs) auto

lemma hd_dropWhile_not: "dropWhile P xs \<noteq> [] \<Longrightarrow> \<not> P (hd (dropWhile P xs))"
  by (rule hd_dropWhile)

text \<open>Iterating a list from a start index, wrapping around.\<close>

definition rotated_from :: "nat \<Rightarrow> 'a list \<Rightarrow> 'a list" where
  "rotated_from start xs = map (\<lambda>k. xs ! ((start + k) mod length xs)) [0..<length xs]"

lemma rotated_from_eq_rotate: "rotated_from start xs = rotate start xs"
  by (rule nth_equalityI) (auto simp: rotated_from_def nth_rotate)

lemma set_rotated_from [simp]: "set (rotated_from start xs) = set xs"
  by (simp add: rotated_from_eq_rotate)

lemma length_rotated_from [simp]: "length (rotated_from start xs) = length xs"
  by (simp add: rotated_from_def)

end
