(* ===== verification/Rust_Str.thy ===== *)
theory Rust_Str
  imports Prelude "HOL-Library.Char_ord" "HOL-Library.List_Lexorder"
begin

text \<open>
  The part of Rust's \<open>str\<close> that the program uses. A Rust string is its UTF-8 byte
  sequence, here a list of 8-bit \<^typ>\<open>char\<close>s, so \<open>len\<close>, \<open>bytes\<close>, \<open>starts_with\<close>,
  \<open>split\<close>, \<open>replace\<close> and the ASCII case functions are exact on bytes; \<open>chars\<close> cuts the
  bytes into scalar values and carries the operations that depend on Unicode properties
  (\<open>trim\<close>, \<open>is_whitespace\<close>, \<open>is_control\<close>, \<open>len_utf8\<close>).
\<close>

section \<open>Bytes and characters\<close>

abbreviation byte :: "char \<Rightarrow> nat" where
  "byte c \<equiv> of_char c"

lemma byte_less_256: "byte c < 256"
  by (rule nat_of_char_less_256)

lemma byte_eq_iff: "byte c = byte d \<longleftrightarrow> c = d"
  by (rule of_char_eq_iff)

text \<open>The number of bytes of the scalar value that a lead byte announces.\<close>

definition utf8_width :: "char \<Rightarrow> nat" where
  "utf8_width c =
     (if byte c < 0xC0 then 1 else if byte c < 0xE0 then 2 else if byte c < 0xF0 then 3 else 4)"

lemma utf8_width_pos [simp]: "0 < utf8_width c"
  by (simp add: utf8_width_def)

text \<open>\<open>str::chars\<close>, each scalar value kept as its bytes: \<open>len_utf8\<close> is \<^const>\<open>length\<close>.\<close>

function chars :: "string \<Rightarrow> string list" where
  "chars [] = []"
| "chars (c # cs) =
     (c # take (utf8_width c - 1) cs) # chars (drop (utf8_width c - 1) cs)"
  by pat_completeness auto
termination
  by (relation "measure length") auto

lemma concat_chars [simp]: "concat (chars s) = s"
  by (induction s rule: chars.induct) simp_all

lemma chars_nonempty: "c \<in> set (chars s) \<Longrightarrow> c \<noteq> []"
  by (induction s rule: chars.induct) auto

lemma chars_eq_Nil [simp]: "chars s = [] \<longleftrightarrow> s = []"
  by (cases s) simp_all

text \<open>A byte group that is one complete scalar value.\<close>

definition whole_char :: "string \<Rightarrow> bool" where
  "whole_char c \<longleftrightarrow> c \<noteq> [] \<and> length c = utf8_width (hd c)"

lemma chars_append_whole: "whole_char c \<Longrightarrow> chars (c @ s) = c # chars s"
  by (cases c) (simp_all add: whole_char_def)

lemma chars_concat_whole: "\<forall>c \<in> set cs. whole_char c \<Longrightarrow> chars (concat cs) = cs"
  by (induction cs) (simp_all add: chars_append_whole)

text \<open>A string whose groups are all complete: every \<open>str\<close> is one, being valid UTF-8.\<close>

definition whole_str :: "string \<Rightarrow> bool" where
  "whole_str s \<longleftrightarrow> list_all whole_char (chars s)"

lemma chars_concat_chars_subset:
  "whole_str s \<Longrightarrow> set cs \<subseteq> set (chars s) \<Longrightarrow> chars (concat cs) = cs"
  by (rule chars_concat_whole) (auto simp: whole_str_def list_all_iff)

definition is_ascii :: "char \<Rightarrow> bool" where
  "is_ascii c \<longleftrightarrow> byte c < 128"

lemma utf8_width_ascii: "is_ascii c \<Longrightarrow> utf8_width c = 1"
  by (simp add: is_ascii_def utf8_width_def)

lemma chars_ascii: "list_all is_ascii s \<Longrightarrow> chars s = map (\<lambda>c. [c]) s"
  by (induction s) (simp_all add: utf8_width_ascii)

lemma whole_str_ascii: "list_all is_ascii s \<Longrightarrow> whole_str s"
  by (auto simp: whole_str_def chars_ascii list_all_iff whole_char_def utf8_width_ascii)

text \<open>
  \<open>char::is_whitespace\<close> is Unicode's \<open>White_Space\<close>, \<open>char::is_control\<close> the general
  category \<open>Cc\<close>; the groups are the UTF-8 encodings of those scalar values.
\<close>

definition is_whitespace :: "string \<Rightarrow> bool" where
  "is_whitespace c \<longleftrightarrow>
     (case c of
        [a] \<Rightarrow> byte a = 32 \<or> (9 \<le> byte a \<and> byte a \<le> 13)
      | [a, b] \<Rightarrow> byte a = 0xC2 \<and> (byte b = 0x85 \<or> byte b = 0xA0)
      | [a, b, d] \<Rightarrow>
          (byte a = 0xE1 \<and> byte b = 0x9A \<and> byte d = 0x80)
        \<or> (byte a = 0xE2 \<and> byte b = 0x80 \<and>
             ((0x80 \<le> byte d \<and> byte d \<le> 0x8A) \<or> byte d = 0xA8 \<or> byte d = 0xA9 \<or> byte d = 0xAF))
        \<or> (byte a = 0xE2 \<and> byte b = 0x81 \<and> byte d = 0x9F)
        \<or> (byte a = 0xE3 \<and> byte b = 0x80 \<and> byte d = 0x80)
      | _ \<Rightarrow> False)"

definition is_control :: "string \<Rightarrow> bool" where
  "is_control c \<longleftrightarrow>
     (case c of
        [a] \<Rightarrow> byte a < 32 \<or> byte a = 127
      | [a, b] \<Rightarrow> byte a = 0xC2 \<and> 0x80 \<le> byte b \<and> byte b \<le> 0x9F
      | _ \<Rightarrow> False)"

section \<open>Trimming and case\<close>

definition trim_chars :: "string list \<Rightarrow> string list" where
  "trim_chars cs = rev (dropWhile is_whitespace (rev (dropWhile is_whitespace cs)))"

definition trim :: "string \<Rightarrow> string" where
  "trim s = concat (trim_chars (chars s))"

lemma set_trim_chars: "set (trim_chars cs) \<subseteq> set cs"
  by (auto simp: trim_chars_def dest!: set_dropWhileD)

lemma trim_chars_ends:
  assumes "trim_chars cs \<noteq> []"
  shows "\<not> is_whitespace (hd (trim_chars cs))" and "\<not> is_whitespace (last (trim_chars cs))"
proof -
  let ?a = "dropWhile is_whitespace cs"
  let ?b = "dropWhile is_whitespace (rev ?a)"
  have b: "?b \<noteq> []"
    using assms by (simp add: trim_chars_def)
  show "\<not> is_whitespace (last (trim_chars cs))"
    using hd_dropWhile [OF b] b by (simp add: trim_chars_def last_rev)
  have "last ?b = last (rev ?a)"
    using b by (metis last_appendR takeWhile_dropWhile_id)
  moreover have a: "?a \<noteq> []"
    using b by (metis dropWhile.simps(1) rev.simps(1))
  ultimately have "hd (rev ?b) = hd ?a"
    using b by (simp add: hd_rev last_rev)
  then show "\<not> is_whitespace (hd (trim_chars cs))"
    using hd_dropWhile [OF a] by (simp add: trim_chars_def)
qed

lemma dropWhile_hd_not: "xs = [] \<or> \<not> P (hd xs) \<Longrightarrow> dropWhile P xs = xs"
  by (cases xs) auto

lemma trim_chars_idem [simp]: "trim_chars (trim_chars cs) = trim_chars cs"
proof (cases "trim_chars cs = []")
  case True
  then show ?thesis by (simp only:) (simp add: trim_chars_def)
next
  case False
  let ?t = "trim_chars cs"
  have "dropWhile is_whitespace ?t = ?t"
    using trim_chars_ends(1) [OF False] by (simp add: dropWhile_hd_not)
  moreover have "dropWhile is_whitespace (rev ?t) = rev ?t"
    using trim_chars_ends(2) [OF False] False by (simp add: dropWhile_hd_not hd_rev)
  ultimately show ?thesis
    by (simp add: trim_chars_def [of ?t])
qed

lemma chars_trim: "whole_str s \<Longrightarrow> chars (trim s) = trim_chars (chars s)"
  unfolding trim_def by (rule chars_concat_chars_subset [OF _ set_trim_chars])

lemma whole_str_trim: "whole_str s \<Longrightarrow> whole_str (trim s)"
  using set_trim_chars [of "chars s"]
  by (auto simp: whole_str_def chars_trim [unfolded whole_str_def] list_all_iff)

lemma trim_idem: "whole_str s \<Longrightarrow> trim (trim s) = trim s"
  by (simp add: trim_def [of "trim s"] chars_trim) (simp add: trim_def)

definition to_lower :: "char \<Rightarrow> char" where
  "to_lower c = (if 65 \<le> byte c \<and> byte c \<le> 90 then char_of (byte c + 32) else c)"

definition to_ascii_lowercase :: "string \<Rightarrow> string" where
  "to_ascii_lowercase = map to_lower"

definition eq_ignore_ascii_case :: "string \<Rightarrow> string \<Rightarrow> bool" where
  "eq_ignore_ascii_case s t \<longleftrightarrow> to_ascii_lowercase s = to_ascii_lowercase t"

lemma byte_to_lower: "byte (to_lower c) = (if 65 \<le> byte c \<and> byte c \<le> 90 then byte c + 32 else byte c)"
  by (simp add: to_lower_def)

lemma to_lower_idem [simp]: "to_lower (to_lower c) = to_lower c"
  by (rule byte_eq_iff [THEN iffD1]) (simp add: byte_to_lower)

lemma to_ascii_lowercase_idem [simp]:
  "to_ascii_lowercase (to_ascii_lowercase s) = to_ascii_lowercase s"
  by (simp add: to_ascii_lowercase_def)

lemma length_to_ascii_lowercase [simp]: "length (to_ascii_lowercase s) = length s"
  by (simp add: to_ascii_lowercase_def)

lemma to_ascii_lowercase_eq_Nil [simp]: "to_ascii_lowercase s = [] \<longleftrightarrow> s = []"
  by (simp add: to_ascii_lowercase_def)

lemma eq_ignore_ascii_case_refl [simp]: "eq_ignore_ascii_case s s"
  by (simp add: eq_ignore_ascii_case_def)

lemma eq_ignore_ascii_case_sym: "eq_ignore_ascii_case s t \<longleftrightarrow> eq_ignore_ascii_case t s"
  by (auto simp: eq_ignore_ascii_case_def)

lemma eq_ignore_ascii_case_trans:
  "eq_ignore_ascii_case s t \<Longrightarrow> eq_ignore_ascii_case t u \<Longrightarrow> eq_ignore_ascii_case s u"
  by (simp add: eq_ignore_ascii_case_def)

definition is_ascii_digit :: "char \<Rightarrow> bool" where
  "is_ascii_digit c \<longleftrightarrow> 48 \<le> byte c \<and> byte c \<le> 57"

definition is_ascii_lowercase :: "char \<Rightarrow> bool" where
  "is_ascii_lowercase c \<longleftrightarrow> 97 \<le> byte c \<and> byte c \<le> 122"

definition is_ascii_alphanumeric :: "char \<Rightarrow> bool" where
  "is_ascii_alphanumeric c \<longleftrightarrow>
     is_ascii_digit c \<or> (65 \<le> byte c \<and> byte c \<le> 90) \<or> is_ascii_lowercase c"

definition is_ascii_hexdigit :: "char \<Rightarrow> bool" where
  "is_ascii_hexdigit c \<longleftrightarrow>
     is_ascii_digit c \<or> (65 \<le> byte c \<and> byte c \<le> 70) \<or> (97 \<le> byte c \<and> byte c \<le> 102)"

text \<open>\<open>trim_end_matches\<close> with one ASCII character.\<close>

definition trim_end_char :: "char \<Rightarrow> string \<Rightarrow> string" where
  "trim_end_char d s = rev (dropWhile (\<lambda>c. c = d) (rev s))"

lemma trim_end_char_idem [simp]: "trim_end_char d (trim_end_char d s) = trim_end_char d s"
  by (simp add: trim_end_char_def)

lemma last_trim_end_char: "trim_end_char d s \<noteq> [] \<Longrightarrow> last (trim_end_char d s) \<noteq> d"
  unfolding trim_end_char_def by (metis (full_types) hd_dropWhile last_rev rev_is_Nil_conv)

section \<open>Searching, splitting and replacing\<close>

abbreviation starts_with :: "string \<Rightarrow> string \<Rightarrow> bool" where
  "starts_with s p \<equiv> prefix p s"

abbreviation ends_with :: "string \<Rightarrow> string \<Rightarrow> bool" where
  "ends_with s p \<equiv> suffix p s"

abbreviation str_contains :: "string \<Rightarrow> string \<Rightarrow> bool" where
  "str_contains s p \<equiv> sublist p s"

definition strip_prefix :: "string \<Rightarrow> string \<Rightarrow> string option" where
  "strip_prefix p s = (if prefix p s then Some (drop (length p) s) else None)"

fun split_char :: "char \<Rightarrow> string \<Rightarrow> string list" where
  "split_char d [] = [[]]"
| "split_char d (c # cs) =
     (case split_char d cs of
        [] \<Rightarrow> [[c]]
      | p # ps \<Rightarrow> if c = d then [] # p # ps else (c # p) # ps)"

lemma split_char_not_Nil [simp]: "split_char d s \<noteq> []"
  by (cases s) (auto split: list.splits)

lemma split_char_Cons_eq:
  "split_char d (c # cs) =
     (if c = d then [] # split_char d cs else (c # hd (split_char d cs)) # tl (split_char d cs))"
  by (cases "split_char d cs") simp_all

lemma split_char_no_sep: "p \<in> set (split_char d s) \<Longrightarrow> d \<notin> set p"
proof (induction s arbitrary: p)
  case Nil
  then show ?case by simp
next
  case (Cons c cs)
  obtain q qs where q: "split_char d cs = q # qs"
    by (cases "split_char d cs") simp_all
  have IH: "d \<notin> set q" "\<And>p. p \<in> set qs \<Longrightarrow> d \<notin> set p"
    using Cons.IH q by auto
  from Cons.prems q show ?case
    by (auto split: if_splits simp: IH)
qed

text \<open>\<open>str::split_once\<close> with one ASCII character.\<close>

definition split_once :: "char \<Rightarrow> string \<Rightarrow> (string \<times> string) option" where
  "split_once d s =
     (case dropWhile (\<lambda>c. c \<noteq> d) s of
        [] \<Rightarrow> None
      | _ # rest \<Rightarrow> Some (takeWhile (\<lambda>c. c \<noteq> d) s, rest))"

text \<open>\<open>slice::join\<close> on strings.\<close>

fun str_join :: "string \<Rightarrow> string list \<Rightarrow> string" where
  "str_join sep [] = []"
| "str_join sep [x] = x"
| "str_join sep (x # y # xs) = x @ sep @ str_join sep (y # xs)"

text \<open>\<open>str::replace\<close> for a nonempty pattern: leftmost matches, without overlaps.\<close>

function str_replace :: "string \<Rightarrow> string \<Rightarrow> string \<Rightarrow> string" where
  "str_replace p r s =
     (case s of
        [] \<Rightarrow> []
      | c # cs \<Rightarrow>
          if p \<noteq> [] \<and> prefix p s then r @ str_replace p r (drop (length p) s)
          else c # str_replace p r cs)"
  by pat_completeness auto
termination
  by (relation "measure (\<lambda>(p, r, s). length s)") auto

declare str_replace.simps [simp del]

text \<open>\<open>str::lines\<close>: a final line break opens no further line, and a \<open>\r\<close> before it goes too.\<close>

definition strip_cr :: "string \<Rightarrow> string" where
  "strip_cr l = (if l \<noteq> [] \<and> last l = CHR 0x0D then butlast l else l)"

definition lines :: "string \<Rightarrow> string list" where
  "lines s =
     (let parts = split_char (CHR 0x0A) s
      in map strip_cr (butlast parts) @ (if last parts = [] then [] else [last parts]))"

section \<open>Numbers as text\<close>

definition digit_char :: "nat \<Rightarrow> char" where
  "digit_char n = (if n < 10 then char_of (48 + n) else char_of (87 + n))"

function show_base :: "nat \<Rightarrow> nat \<Rightarrow> string" where
  "show_base b n =
     (if b < 2 \<or> n < b then [digit_char n] else show_base b (n div b) @ [digit_char (n mod b)])"
  by pat_completeness auto
termination
  by (relation "measure snd") (auto intro!: div_less_dividend)

declare show_base.simps [simp del]

definition show_nat :: "nat \<Rightarrow> string" where
  "show_nat = show_base 10"

definition show_hex :: "nat \<Rightarrow> string" where
  "show_hex = show_base 16"

definition show_oct :: "nat \<Rightarrow> string" where
  "show_oct = show_base 8"

text \<open>\<open>{:016x}\<close> and the like: at least \<open>w\<close> digits, zeros in front.\<close>

definition pad_zero :: "nat \<Rightarrow> string \<Rightarrow> string" where
  "pad_zero w s = replicate (w - length s) (CHR ''0'') @ s"

definition show_int :: "int \<Rightarrow> string" where
  "show_int i = (if i < 0 then CHR ''-'' # show_nat (nat (- i)) else show_nat (nat i))"

text \<open>\<open>char::to_digit\<close> and the value of a digit sequence.\<close>

definition to_digit :: "nat \<Rightarrow> char \<Rightarrow> nat option" where
  "to_digit b c =
     (let n = byte c;
          v = (if 48 \<le> n \<and> n \<le> 57 then n - 48
               else if 97 \<le> n \<and> n \<le> 122 then n - 87
               else if 65 \<le> n \<and> n \<le> 90 then n - 55 else b)
      in if v < b then Some v else None)"

definition digits_value :: "nat \<Rightarrow> nat list \<Rightarrow> nat" where
  "digits_value b ds = foldl (\<lambda>acc d. acc * b + d) 0 ds"

text \<open>\<open>str::parse::<u64>\<close>: an optional plus sign, then digits, no overflow.\<close>

definition parse_u64 :: "string \<Rightarrow> nat option" where
  "parse_u64 s =
     (let ds = (case s of [] \<Rightarrow> [] | c # cs \<Rightarrow> if c = CHR ''+'' \<and> cs \<noteq> [] then cs else s)
      in if ds \<noteq> [] \<and> list_all is_ascii_digit ds
            \<and> digits_value 10 (map (\<lambda>c. byte c - 48) ds) < 2 ^ 64
         then Some (digits_value 10 (map (\<lambda>c. byte c - 48) ds)) else None)"

lemma digit_char_numerals [simp]:
  "digit_char 0 = CHR ''0''"
  "digit_char (Suc 0) = CHR ''1''"
  "digit_char 2 = CHR ''2''"
  "digit_char 3 = CHR ''3''"
  "digit_char 4 = CHR ''4''"
  "digit_char 5 = CHR ''5''"
  "digit_char 6 = CHR ''6''"
  "digit_char 7 = CHR ''7''"
  "digit_char 8 = CHR ''8''"
  "digit_char 9 = CHR ''9''"
  "digit_char 10 = CHR ''a''"
  "digit_char 11 = CHR ''b''"
  "digit_char 12 = CHR ''c''"
  "digit_char 13 = CHR ''d''"
  "digit_char 14 = CHR ''e''"
  "digit_char 15 = CHR ''f''"
  by (simp_all add: digit_char_def char_of_def bit_0)

lemma byte_digit_char: "n < 10 \<Longrightarrow> byte (digit_char n) = 48 + n"
  by (simp add: digit_char_def)

lemma byte_digit_char_hex: "10 \<le> n \<Longrightarrow> n < 16 \<Longrightarrow> byte (digit_char n) = 87 + n"
  by (simp add: digit_char_def)

lemma to_digit_digit_char: "d < b \<Longrightarrow> b \<le> 16 \<Longrightarrow> to_digit b (digit_char d) = Some d"
  by (cases "d < 10")
     (simp_all add: to_digit_def byte_digit_char byte_digit_char_hex Let_def)

lemma show_base_not_Nil [simp]: "show_base b n \<noteq> []"
  by (subst show_base.simps) simp

lemma show_base_digits:
  "2 \<le> b \<Longrightarrow> \<exists>ds. show_base b n = map digit_char ds \<and> (\<forall>d \<in> set ds. d < b) \<and>
     digits_value b ds = n \<and> ds \<noteq> [] \<and> (hd ds = 0 \<longrightarrow> n = 0 \<and> ds = [0])"
proof (induction b n rule: show_base.induct)
  case (1 b n)
  show ?case
  proof (cases "n < b")
    case True
    then show ?thesis
      using "1.prems" by (intro exI [of _ "[n]"]) (simp add: show_base.simps digits_value_def)
  next
    case False
    with "1.IH" "1.prems" obtain ds where ds: "show_base b (n div b) = map digit_char ds"
      "\<forall>d \<in> set ds. d < b" "digits_value b ds = n div b" "ds \<noteq> []"
      "hd ds = 0 \<longrightarrow> n div b = 0 \<and> ds = [0]"
      by auto
    have pos: "n div b \<noteq> 0"
      using False "1.prems" by (simp add: div_eq_0_iff)
    have "show_base b n = map digit_char (ds @ [n mod b])"
      using False "1.prems" ds(1) by (simp add: show_base.simps [of b n])
    moreover have "digits_value b (ds @ [n mod b]) = n"
      using ds(3) by (simp add: digits_value_def)
    ultimately show ?thesis
      using ds pos "1.prems" by (intro exI [of _ "ds @ [n mod b]"]) auto
  qed
qed

lemma show_base_length:
  "2 \<le> b \<Longrightarrow> n < b ^ Suc k \<Longrightarrow> length (show_base b n) \<le> Suc k"
proof (induction k arbitrary: n)
  case 0
  then show ?case by (simp add: show_base.simps)
next
  case (Suc k)
  then have "n div b < b ^ Suc k"
    by (simp add: div_less_iff_less_mult mult.commute)
  then have "length (show_base b (n div b)) \<le> Suc k"
    by (rule Suc.IH [OF Suc.prems(1)])
  then show ?case
    by (subst show_base.simps) auto
qed

lemma show_nat_small: "n < 10 \<Longrightarrow> show_nat n = [digit_char n]"
  by (simp add: show_nat_def show_base.simps)

lemma digit_char_inj: "d < 10 \<Longrightarrow> e < 10 \<Longrightarrow> digit_char d = digit_char e \<Longrightarrow> d = e"
  by (metis byte_digit_char add_left_cancel)

lemma show_nat_inject: "show_nat m = show_nat n \<longleftrightarrow> m = n"
proof
  assume eq: "show_nat m = show_nat n"
  obtain ds es where ds: "show_nat m = map digit_char ds" "\<forall>d \<in> set ds. d < 10" "digits_value 10 ds = m"
      and es: "show_nat n = map digit_char es" "\<forall>d \<in> set es. d < 10" "digits_value 10 es = n"
    using show_base_digits [of 10 m] show_base_digits [of 10 n] unfolding show_nat_def by auto
  have "inj_on digit_char (set ds \<union> set es)"
    using ds(2) es(2) digit_char_inj by (intro inj_onI) blast
  then have "ds = es"
    using eq ds(1) es(1) by (simp add: inj_on_map_eq_map)
  then show "m = n" using ds(3) es(3) by simp
qed simp

lemma str_join_length: "\<forall>x \<in> set xs. length x \<le> k \<Longrightarrow> length (str_join [c] xs) \<le> length xs * Suc k"
  by (induction "[c]" xs rule: str_join.induct) auto

end
