(* ===== verification/Ip_Addr.thy ===== *)
theory Ip_Addr
  imports Rust_Str
begin

text \<open>
  Rust's \<open>std::net\<close> as the program uses it: \<open>IpAddr\<close>, its \<open>FromStr\<close> parser and its
  \<open>Display\<close>. The parser is the recursive-descent parser of \<open>core::net::parser\<close>: a reader
  consumes a prefix of the input or fails without consuming anything. The last section proves
  that reading back a printed address gives the same address.
\<close>

section \<open>Addresses\<close>

datatype ipv4_addr = Ipv4Addr u8 u8 u8 u8

datatype ipv6_addr = Ipv6Addr u16 u16 u16 u16 u16 u16 u16 u16

datatype ip_addr = V4 ipv4_addr | V6 ipv6_addr

fun octets :: "ipv4_addr \<Rightarrow> u8 list" where
  "octets (Ipv4Addr a b c d) = [a, b, c, d]"

fun segments :: "ipv6_addr \<Rightarrow> u16 list" where
  "segments (Ipv6Addr a b c d e f g h) = [a, b, c, d, e, f, g, h]"

fun ipv4_of_nats :: "nat list \<Rightarrow> ipv4_addr option" where
  "ipv4_of_nats [a, b, c, d] = Some (Ipv4Addr (of_nat a) (of_nat b) (of_nat c) (of_nat d))"
| "ipv4_of_nats _ = None"

fun ipv6_of_nats :: "nat list \<Rightarrow> ipv6_addr option" where
  "ipv6_of_nats [a, b, c, d, e, f, g, h] =
     Some (Ipv6Addr (of_nat a) (of_nat b) (of_nat c) (of_nat d)
                    (of_nat e) (of_nat f) (of_nat g) (of_nat h))"
| "ipv6_of_nats _ = None"

section \<open>Reading\<close>

definition read_number :: "nat \<Rightarrow> nat \<Rightarrow> bool \<Rightarrow> nat \<Rightarrow> string \<Rightarrow> (nat \<times> string) option" where
  "read_number radix max_digits allow_zero_prefix bound s =
     (let ds = takeWhile (\<lambda>c. to_digit radix c \<noteq> None) s;
          v = digits_value radix (map (\<lambda>c. the (to_digit radix c)) ds)
      in if length ds > max_digits then None
         else if ds = [] then None
         else if \<not> allow_zero_prefix \<and> hd ds = CHR ''0'' \<and> length ds > 1 then None
         else if v < bound then Some (v, drop (length ds) s) else None)"

definition read_separator ::
  "char \<Rightarrow> nat \<Rightarrow> (string \<Rightarrow> ('a \<times> string) option) \<Rightarrow> string \<Rightarrow> ('a \<times> string) option" where
  "read_separator sep index inner s =
     (if index > 0 then (case s of c # cs \<Rightarrow> if c = sep then inner cs else None | [] \<Rightarrow> None)
      else inner s)"

abbreviation read_octet :: "string \<Rightarrow> (nat \<times> string) option" where
  "read_octet \<equiv> read_number 10 3 False 256"

fun read_octets :: "nat \<Rightarrow> nat \<Rightarrow> string \<Rightarrow> (nat list \<times> string) option" where
  "read_octets index 0 s = Some ([], s)"
| "read_octets index (Suc k) s =
     (case read_separator (CHR ''.'') index read_octet s of
        None \<Rightarrow> None
      | Some (n, r) \<Rightarrow> map_option (\<lambda>(ns, r'). (n # ns, r')) (read_octets (Suc index) k r))"

definition read_ipv4_addr :: "string \<Rightarrow> (nat list \<times> string) option" where
  "read_ipv4_addr s = read_octets 0 4 s"

abbreviation read_group :: "string \<Rightarrow> (nat \<times> string) option" where
  "read_group \<equiv> read_number 16 4 True 65536"

definition v4_groups :: "nat list \<Rightarrow> nat list" where
  "v4_groups ns = [ns ! 0 * 256 + ns ! 1, ns ! 2 * 256 + ns ! 3]"

fun read_groups :: "nat \<Rightarrow> nat \<Rightarrow> string \<Rightarrow> nat list \<times> bool \<times> string" where
  "read_groups index 0 s = ([], False, s)"
| "read_groups index (Suc k) s =
     (case (if k > 0 then read_separator (CHR '':'') index read_ipv4_addr s else None) of
        Some (ns, r) \<Rightarrow> (v4_groups ns, True, r)
      | None \<Rightarrow>
          (case read_separator (CHR '':'') index read_group s of
             None \<Rightarrow> ([], False, s)
           | Some (g, r) \<Rightarrow>
               (case read_groups (Suc index) k r of (gs, v4, r') \<Rightarrow> (g # gs, v4, r'))))"

definition read_ipv6_addr :: "string \<Rightarrow> (nat list \<times> string) option" where
  "read_ipv6_addr s =
     (case read_groups 0 8 s of (head, head_ipv4, r) \<Rightarrow>
        if length head = 8 then Some (head, r)
        else if head_ipv4 then None
        else if prefix ''::'' r then
          (case read_groups 0 (8 - (length head + 1)) (drop 2 r) of (tail, _, r') \<Rightarrow>
             Some (head @ replicate (8 - length head - length tail) 0 @ tail, r'))
        else None)"

text \<open>\<open>str::parse::<IpAddr>\<close>: the whole input, as IPv4 first and as IPv6 otherwise.\<close>

definition parse_ip :: "string \<Rightarrow> ip_addr option" where
  "parse_ip s =
     (case read_ipv4_addr s of
        Some (ns, r) \<Rightarrow> if r = [] then map_option V4 (ipv4_of_nats ns) else None
      | None \<Rightarrow>
          (case read_ipv6_addr s of
             Some (gs, r) \<Rightarrow> if r = [] then map_option V6 (ipv6_of_nats gs) else None
           | None \<Rightarrow> None))"

section \<open>Printing\<close>

definition show_ipv4 :: "ipv4_addr \<Rightarrow> string" where
  "show_ipv4 a = str_join ''.'' (map (\<lambda>w. show_nat (unat w)) (octets a))"

text \<open>The first longest run of zero segments, as its start and its length.\<close>

fun zero_span :: "nat \<Rightarrow> nat \<times> nat \<Rightarrow> nat \<times> nat \<Rightarrow> nat list \<Rightarrow> nat \<times> nat" where
  "zero_span i current longest [] = longest"
| "zero_span i current longest (x # xs) =
     (if x = 0 then
        let current' = ((if snd current = 0 then i else fst current), Suc (snd current));
            longest' = (if snd current' > snd longest then current' else longest)
        in zero_span (Suc i) current' longest' xs
      else zero_span (Suc i) (0, 0) longest xs)"

definition show_groups :: "nat list \<Rightarrow> string" where
  "show_groups gs = str_join '':'' (map show_hex gs)"

definition show_segments :: "nat list \<Rightarrow> string" where
  "show_segments gs =
     (if take 6 gs = [0, 0, 0, 0, 0, 65535] then
        ''::ffff:'' @ str_join ''.'' (map show_nat
           [gs ! 6 div 256, gs ! 6 mod 256, gs ! 7 div 256, gs ! 7 mod 256])
      else
        (case zero_span 0 (0, 0) (0, 0) gs of (start, len) \<Rightarrow>
           if len > 1 then show_groups (take start gs) @ ''::'' @ show_groups (drop (start + len) gs)
           else show_groups gs))"

definition show_ipv6 :: "ipv6_addr \<Rightarrow> string" where
  "show_ipv6 a = show_segments (map unat (segments a))"

fun show_ip :: "ip_addr \<Rightarrow> string" where
  "show_ip (V4 a) = show_ipv4 a"
| "show_ip (V6 a) = show_ipv6 a"

section \<open>Reading back what was printed\<close>

text \<open>The input that follows a number: nothing, or a character that is not a digit.\<close>

definition stops :: "nat \<Rightarrow> string \<Rightarrow> bool" where
  "stops radix r \<longleftrightarrow> r = [] \<or> to_digit radix (hd r) = None"

lemma digit_char_0_iff: "d < 16 \<Longrightarrow> digit_char d = CHR ''0'' \<longleftrightarrow> d = 0"
proof -
  assume d: "d < 16"
  have "digit_char d = CHR ''0'' \<longleftrightarrow> byte (digit_char d) = 48"
    using byte_eq_iff [of "digit_char d" "CHR ''0''"] by simp
  also have "\<dots> \<longleftrightarrow> d = 0"
    using d by (cases "d < 10") (simp_all add: byte_digit_char byte_digit_char_hex)
  finally show ?thesis .
qed

lemma takeWhile_digits:
  assumes "\<forall>d \<in> set ds. d < b" and "b \<le> 16" and "stops b r"
  shows "takeWhile (\<lambda>c. to_digit b c \<noteq> None) (map digit_char ds @ r) = map digit_char ds"
  using assms
proof (induction ds)
  case Nil
  then show ?case by (cases r) (auto simp: stops_def)
next
  case (Cons d ds)
  then show ?case by (simp add: to_digit_digit_char)
qed

lemma read_number_show:
  assumes "2 \<le> b" and "b \<le> 16" and "n < bound" and "length (show_base b n) \<le> m" and "stops b r"
  shows "read_number b m az bound (show_base b n @ r) = Some (n, r)"
proof -
  obtain ds where ds: "show_base b n = map digit_char ds" "\<forall>d \<in> set ds. d < b"
    "digits_value b ds = n" "ds \<noteq> []" "hd ds = 0 \<longrightarrow> n = 0 \<and> ds = [0]"
    using show_base_digits [OF assms(1), of n] by (elim exE conjE) (rule that)
  have tw: "takeWhile (\<lambda>c. to_digit b c \<noteq> None) (show_base b n @ r) = map digit_char ds"
    unfolding ds(1) by (rule takeWhile_digits [OF ds(2) assms(2) assms(5)])
  have val: "map (\<lambda>c. the (to_digit b c)) (map digit_char ds) = ds"
    using ds(2) assms(2) by (induction ds) (simp_all add: to_digit_digit_char)
  have zero: "hd (map digit_char ds) = CHR ''0'' \<longrightarrow> length ds = 1"
  proof
    assume "hd (map digit_char ds) = CHR ''0''"
    moreover have "hd ds < 16"
      using ds(2,4) assms(2) by (meson hd_in_set less_le_trans)
    ultimately have "hd ds = 0"
      using ds(4) by (simp add: hd_map digit_char_0_iff)
    then show "length ds = 1"
      using ds(5) by auto
  qed
  have len: "length ds \<le> m"
    using assms(4) ds(1) by simp
  have "drop (length ds) (show_base b n @ r) = r"
    using ds(1) by simp
  then show ?thesis
    unfolding read_number_def Let_def tw val
    using len zero ds(3,4) assms(3) by auto
qed

lemma read_octet_show:
  "n < 256 \<Longrightarrow> stops 10 r \<Longrightarrow> read_octet (show_nat n @ r) = Some (n, r)"
  unfolding show_nat_def using show_base_length [of 10 n 2] by (intro read_number_show) simp_all

lemma read_group_show:
  "n < 65536 \<Longrightarrow> stops 16 r \<Longrightarrow> read_group (show_hex n @ r) = Some (n, r)"
  unfolding show_hex_def using show_base_length [of 16 n 3] by (intro read_number_show) simp_all

lemma stops_dot [simp]: "stops 10 (CHR ''.'' # r)" and stops_Nil [simp]: "stops b []"
  and stops_colon [simp]: "stops 16 (CHR '':'' # r)" and stops_colon10 [simp]: "stops 10 (CHR '':'' # r)"
  by (simp_all add: stops_def to_digit_def)

lemma read_ipv4_addr_unfold: "read_ipv4_addr s = read_octets 0 (Suc (Suc (Suc (Suc 0)))) s"
  by (simp add: read_ipv4_addr_def numeral_eq_Suc)

lemma read_ipv4_addr_show:
  assumes "a < 256" "b < 256" "c < 256" "d < 256" "stops 10 r"
  shows "read_ipv4_addr (str_join ''.'' (map show_nat [a, b, c, d]) @ r) = Some ([a, b, c, d], r)"
  using assms by (simp add: read_ipv4_addr_unfold read_separator_def read_octet_show)

text \<open>An IPv4 reader only succeeds on decimal digits followed by a dot.\<close>

abbreviation dec_digit :: "char \<Rightarrow> bool" where
  "dec_digit c \<equiv> to_digit 10 c \<noteq> None"

lemma read_number_rest:
  "read_number b m az bound s = Some (v, r) \<Longrightarrow> r = dropWhile (\<lambda>c. to_digit b c \<noteq> None) s"
  by (simp add: read_number_def Let_def dropWhile_eq_drop split: if_splits)

lemma read_ipv4_addr_dot:
  assumes "read_ipv4_addr s = Some (ns, r)"
  shows "\<exists>q. dropWhile dec_digit s = CHR ''.'' # q"
proof -
  from assms obtain n r1 where n: "read_octet s = Some (n, r1)"
      and r1: "read_octets (Suc 0) (Suc (Suc (Suc 0))) r1 \<noteq> None"
    by (auto simp: read_ipv4_addr_unfold read_separator_def split: option.splits)
  from r1 have "r1 \<noteq> [] \<and> hd r1 = CHR ''.''"
    by (auto simp: read_separator_def split: option.splits list.splits if_splits)
  then show ?thesis
    using read_number_rest [OF n] by (metis list.collapse)
qed

lemma dropWhile_hex_no_dot:
  assumes "\<forall>c \<in> set xs. c \<noteq> CHR ''.''" and "r = [] \<or> hd r = CHR '':''"
  shows "dropWhile dec_digit (xs @ r) \<noteq> CHR ''.'' # q"
  using assms
proof (induction xs)
  case Nil
  then show ?case by (cases r) (auto simp: to_digit_def)
next
  case (Cons x xs)
  then show ?case by auto
qed

lemma show_hex_no_dot: "c \<in> set (show_hex n) \<Longrightarrow> c \<noteq> CHR ''.''"
proof -
  assume c: "c \<in> set (show_hex n)"
  obtain ds where ds: "show_base 16 n = map digit_char ds" "\<forall>d \<in> set ds. d < 16"
    using show_base_digits [of 16 n] by auto
  with c obtain d where d: "d < 16" "c = digit_char d"
    by (auto simp: show_hex_def)
  then have "byte c \<noteq> 46"
    by (cases "d < 10") (simp_all add: byte_digit_char byte_digit_char_hex)
  then show ?thesis by auto
qed

lemma read_ipv4_addr_hex_None:
  "r = [] \<or> hd r = CHR '':'' \<Longrightarrow> read_ipv4_addr (show_hex n @ r) = None"
  using read_ipv4_addr_dot [of "show_hex n @ r"] dropWhile_hex_no_dot [of "show_hex n" r]
    show_hex_no_dot [of _ n]
  by (cases "read_ipv4_addr (show_hex n @ r)") auto

lemma read_ipv4_addr_colon_None [simp]: "read_ipv4_addr (CHR '':'' # r) = None"
  using read_ipv4_addr_dot [of "CHR '':'' # r"] dropWhile_hex_no_dot [of "[]" "CHR '':'' # r"]
  by (cases "read_ipv4_addr (CHR '':'' # r)") auto

lemma read_group_colon_None [simp]: "read_group (CHR '':'' # r) = None"
  by (simp add: read_number_def to_digit_def)

lemma read_number_Nil [simp]: "read_number b m az bound [] = None"
  by (simp add: read_number_def)

lemma read_ipv4_addr_Nil [simp]: "read_ipv4_addr [] = None"
  by (simp add: read_ipv4_addr_unfold read_separator_def)

text \<open>What ends a sequence of groups: the end of the input, or the double colon.\<close>

definition ends_groups :: "string \<Rightarrow> bool" where
  "ends_groups r \<longleftrightarrow> r = [] \<or> (\<exists>q. r = CHR '':'' # CHR '':'' # q)"

lemma ends_groups_hd: "ends_groups r \<Longrightarrow> r = [] \<or> hd r = CHR '':''"
  by (auto simp: ends_groups_def)

lemma ends_groups_stops: "ends_groups r \<Longrightarrow> stops 16 r"
  by (auto simp: ends_groups_def)

lemma read_groups_stop: "ends_groups r \<Longrightarrow> read_groups i k r = ([], False, r)"
  by (cases k) (auto simp: ends_groups_def read_separator_def)

definition colon_groups :: "nat list \<Rightarrow> string" where
  "colon_groups gs = concat (map (\<lambda>g. CHR '':'' # show_hex g) gs)"

lemma colon_groups_Cons: "colon_groups (g # gs) = CHR '':'' # show_hex g @ colon_groups gs"
  by (simp add: colon_groups_def)

lemma show_groups_Cons: "show_groups (g # gs) = show_hex g @ colon_groups gs"
  unfolding show_groups_def colon_groups_def
proof (induction gs arbitrary: g)
  case Nil
  then show ?case by simp
next
  case (Cons h hs)
  then show ?case by simp
qed

lemma colon_groups_hd:
  "r = [] \<or> hd r = CHR '':'' \<Longrightarrow> colon_groups gs @ r = [] \<or> hd (colon_groups gs @ r) = CHR '':''"
  by (cases gs) (simp_all add: colon_groups_def)

lemma colon_groups_stops: "stops 16 r \<Longrightarrow> stops 16 (colon_groups gs @ r)"
  by (cases gs) (simp_all add: colon_groups_def)

lemma read_groups_colon:
  assumes "\<forall>g \<in> set gs. g < 65536" and "length gs \<le> k" and "ends_groups r" and "0 < i"
  shows "read_groups i k (colon_groups gs @ r) = (gs, False, r)"
  using assms
proof (induction gs arbitrary: i k)
  case Nil
  then show ?case by (simp add: colon_groups_def read_groups_stop)
next
  case (Cons g gs)
  then obtain k' where k: "k = Suc k'" "length gs \<le> k'"
    by (cases k) auto
  let ?rest = "colon_groups gs @ r"
  have "read_ipv4_addr (show_hex g @ ?rest) = None"
    using Cons.prems(3) by (intro read_ipv4_addr_hex_None colon_groups_hd ends_groups_hd)
  moreover have "read_group (show_hex g @ ?rest) = Some (g, ?rest)"
    using Cons.prems by (intro read_group_show colon_groups_stops ends_groups_stops) simp_all
  moreover have "read_groups (Suc i) k' ?rest = (gs, False, r)"
    using Cons k by simp
  ultimately show ?case
    using Cons.prems(4) k(2) by (auto simp: k(1) colon_groups_Cons read_separator_def colon_groups_def)
qed

lemma read_groups_show:
  assumes "\<forall>g \<in> set gs. g < 65536" and "length gs \<le> k" and "ends_groups r"
  shows "read_groups 0 k (show_groups gs @ r) = (gs, False, r)"
proof (cases gs)
  case Nil
  then show ?thesis using assms(3) by (simp add: show_groups_def read_groups_stop)
next
  case (Cons g gs')
  then obtain k' where k: "k = Suc k'" "length gs' \<le> k'"
    using assms(2) by (cases k) auto
  let ?rest = "colon_groups gs' @ r"
  have "read_ipv4_addr (show_hex g @ ?rest) = None"
    using assms(3) by (intro read_ipv4_addr_hex_None colon_groups_hd ends_groups_hd)
  moreover have "read_group (show_hex g @ ?rest) = Some (g, ?rest)"
    using assms Cons by (intro read_group_show colon_groups_stops ends_groups_stops) simp_all
  moreover have "read_groups 1 k' ?rest = (gs', False, r)"
    using assms Cons k by (intro read_groups_colon) simp_all
  ultimately show ?thesis
    using k(2) by (auto simp: k(1) Cons show_groups_Cons read_separator_def colon_groups_def)
qed

lemma read_ipv6_addr_plain:
  assumes "length gs = 8" and "\<forall>g \<in> set gs. g < 65536"
  shows "read_ipv6_addr (show_groups gs) = Some (gs, [])"
  using read_groups_show [of gs 8 "[]"] assms by (simp add: read_ipv6_addr_def ends_groups_def)

lemma read_ipv6_addr_compressed:
  assumes "\<forall>g \<in> set hs. g < 65536" "\<forall>g \<in> set ts. g < 65536" "length hs + length ts < 8"
  shows "read_ipv6_addr (show_groups hs @ ''::'' @ show_groups ts) =
    Some (hs @ replicate (8 - length hs - length ts) 0 @ ts, [])"
proof -
  have "read_groups 0 8 (show_groups hs @ ''::'' @ show_groups ts) = (hs, False, ''::'' @ show_groups ts)"
    using assms by (intro read_groups_show) (auto simp: ends_groups_def)
  moreover have "read_groups 0 (7 - length hs) (show_groups ts) = (ts, False, [])"
    using read_groups_show [of ts "7 - length hs" "[]"] assms by (simp add: ends_groups_def)
  ultimately show ?thesis
    using assms(3) by (simp add: read_ipv6_addr_def)
qed

lemma zero_span_bounds:
  assumes "snd current > 0 \<longrightarrow> fst current + snd current = length ys \<and>
             (\<forall>j. fst current \<le> j \<and> j < length ys \<longrightarrow> ys ! j = 0)"
    and "fst longest + snd longest \<le> length ys"
    and "\<forall>j. fst longest \<le> j \<and> j < fst longest + snd longest \<longrightarrow> ys ! j = 0"
    and "zero_span (length ys) current longest xs = (start, len)"
  shows "start + len \<le> length (ys @ xs) \<and>
    (\<forall>j. start \<le> j \<and> j < start + len \<longrightarrow> (ys @ xs) ! j = 0)"
  using assms
proof (induction xs arbitrary: ys current longest)
  case Nil
  then show ?case by auto
next
  case (Cons x xs)
  show ?case
  proof (cases "x = 0")
    case True
    let ?c = "((if snd current = 0 then length ys else fst current), Suc (snd current))"
    let ?l = "if snd ?c > snd longest then ?c else longest"
    have c: "fst ?c + snd ?c = length (ys @ [x])"
      "\<forall>j. fst ?c \<le> j \<and> j < length (ys @ [x]) \<longrightarrow> (ys @ [x]) ! j = 0"
      using Cons.prems(1) True by (auto simp: nth_append less_Suc_eq)
    have l: "fst ?l + snd ?l \<le> length (ys @ [x])"
      "\<forall>j. fst ?l \<le> j \<and> j < fst ?l + snd ?l \<longrightarrow> (ys @ [x]) ! j = 0"
      using Cons.prems(2,3) c by (auto simp: nth_append)
    have "zero_span (length (ys @ [x])) ?c ?l xs = (start, len)"
      using Cons.prems(4) True by (simp add: Let_def split: if_splits)
    from Cons.IH [OF _ l this] c show ?thesis by simp
  next
    case False
    have "zero_span (length (ys @ [x])) (0, 0) longest xs = (start, len)"
      using Cons.prems(4) False by simp
    from Cons.IH [OF _ _ _ this] Cons.prems(2,3) show ?thesis by (auto simp: nth_append)
  qed
qed

lemma zero_span_zeros:
  assumes "zero_span 0 (0, 0) (0, 0) gs = (start, len)"
  shows "start + len \<le> length gs" and "take len (drop start gs) = replicate len 0"
proof -
  have b: "start + len \<le> length gs \<and> (\<forall>j. start \<le> j \<and> j < start + len \<longrightarrow> gs ! j = 0)"
    using zero_span_bounds [of "(0, 0)" "[]" "(0, 0)" gs start len] assms by simp
  then show "start + len \<le> length gs" by simp
  show "take len (drop start gs) = replicate len 0"
    using b by (intro nth_equalityI) auto
qed

lemma read_groups_mapped:
  assumes "read_ipv4_addr s = None" and "read_group s = Some (g, CHR '':'' # r)"
    and "read_ipv4_addr r = Some (ns, r')"
  shows "read_groups 0 (Suc (Suc (Suc k))) s = (g # v4_groups ns, True, r')"
  using assms by (simp add: read_separator_def)

lemma replicate_5: "replicate 5 x = [x, x, x, x, x]"
  by (simp add: eval_nat_numeral)

lemma read_ipv6_addr_show:
  assumes "length gs = 8" and "\<forall>g \<in> set gs. g < 65536"
  shows "read_ipv6_addr (show_segments gs) = Some (gs, [])"
proof (cases "take 6 gs = [0, 0, 0, 0, 0, 65535]")
  case True
  obtain x y where gs: "gs = [0, 0, 0, 0, 0, 65535, x, y]"
  proof -
    have "drop 6 gs = [gs ! 6, gs ! 7]"
      using assms(1) by (intro nth_equalityI) (auto simp: less_Suc_eq numeral_eq_Suc)
    then have "gs = [0, 0, 0, 0, 0, 65535] @ [gs ! 6, gs ! 7]"
      using True append_take_drop_id [of 6 gs] by metis
    then show ?thesis using that by simp
  qed
  have xy: "x < 65536" "y < 65536"
    using assms(2) gs by simp_all
  let ?v4 = "str_join ''.'' (map show_nat [x div 256, x mod 256, y div 256, y mod 256])"
  have v4: "read_ipv4_addr ?v4 = Some ([x div 256, x mod 256, y div 256, y mod 256], [])"
    using read_ipv4_addr_show [of "x div 256" "x mod 256" "y div 256" "y mod 256" "[]"] xy
    by (simp add: div_less_iff_less_mult)
  have ffff: "show_hex 65535 = ''ffff''"
    by (simp add: show_hex_def show_base.simps)
  have head: "read_groups 0 8 (''::ffff:'' @ ?v4) = ([], False, ''::ffff:'' @ ?v4)"
    by (intro read_groups_stop) (simp add: ends_groups_def)
  have hex: "read_ipv4_addr (''ffff'' @ CHR '':'' # ?v4) = None"
    "read_group (''ffff'' @ CHR '':'' # ?v4) = Some (65535, CHR '':'' # ?v4)"
    using read_ipv4_addr_hex_None [of "CHR '':'' # ?v4" 65535]
      read_group_show [of 65535 "CHR '':'' # ?v4"] unfolding ffff by simp_all
  have "read_groups 0 7 (''ffff:'' @ ?v4) =
      ([65535, x, y], True, [])"
    using read_groups_mapped [OF hex v4, of 4] by (simp add: v4_groups_def)
  with head show ?thesis
    using gs by (simp add: read_ipv6_addr_def show_segments_def replicate_5)
next
  case False
  obtain start len where z: "zero_span 0 (0, 0) (0, 0) gs = (start, len)"
    by (cases "zero_span 0 (0, 0) (0, 0) gs")
  show ?thesis
  proof (cases "len > 1")
    case True
    have "gs = take start gs @ replicate len 0 @ drop (start + len) gs"
      using zero_span_zeros [OF z] by (metis add.commute append_take_drop_id drop_drop)
    moreover have "read_ipv6_addr (show_groups (take start gs) @ ''::'' @ show_groups (drop (start + len) gs)) =
      Some (take start gs @ replicate len 0 @ drop (start + len) gs, [])"
      using read_ipv6_addr_compressed [of "take start gs" "drop (start + len) gs"] assms
        zero_span_zeros(1) [OF z] True by (auto dest!: in_set_takeD in_set_dropD)
    ultimately show ?thesis
      using False z True by (simp add: show_segments_def)
  next
    case len: False
    then show ?thesis
      using read_ipv6_addr_plain [OF assms] False z by (simp add: show_segments_def)
  qed
qed

lemma ipv4_of_nats_octets: "ipv4_of_nats (map unat (octets a)) = Some a"
  by (cases a) simp

lemma ipv6_of_nats_segments: "ipv6_of_nats (map unat (segments a)) = Some a"
  by (cases a) simp

lemma parse_ip_show_ipv4: "parse_ip (show_ipv4 a) = Some (V4 a)"
proof -
  obtain x1 x2 x3 x4 where a: "a = Ipv4Addr x1 x2 x3 x4"
    by (cases a)
  have bound: "unat (w :: u8) < 256" for w
    by (rule order_less_le_trans [OF unsigned_less]) simp
  have "read_ipv4_addr (show_ipv4 a) = Some (map unat (octets a), [])"
    using read_ipv4_addr_show [of "unat x1" "unat x2" "unat x3" "unat x4" "[]"]
    by (simp add: show_ipv4_def a bound)
  then show ?thesis
    by (simp add: parse_ip_def ipv4_of_nats_octets)
qed

text \<open>A printed IPv6 address never starts like an IPv4 address.\<close>

lemma read_ipv4_addr_show_groups:
  "r = [] \<or> hd r = CHR '':'' \<Longrightarrow> read_ipv4_addr (show_groups gs @ r) = None"
proof (cases gs)
  case Nil
  moreover assume "r = [] \<or> hd r = CHR '':''"
  ultimately show ?thesis by (cases r) (auto simp: show_groups_def)
next
  case (Cons g gs')
  moreover assume "r = [] \<or> hd r = CHR '':''"
  ultimately show ?thesis
    using read_ipv4_addr_hex_None [of "colon_groups gs' @ r" g] colon_groups_hd [of r gs']
    by (simp add: show_groups_Cons)
qed

lemma read_ipv4_addr_show_segments: "read_ipv4_addr (show_segments gs) = None"
proof -
  have "read_ipv4_addr (show_groups xs @ ''::'' @ ys) = None" for xs ys
    by (rule read_ipv4_addr_show_groups) simp
  moreover have "read_ipv4_addr (show_groups gs) = None"
    using read_ipv4_addr_show_groups [of "[]" gs] by simp
  ultimately show ?thesis
    by (auto simp: show_segments_def split: prod.split)
qed

lemma parse_ip_show_ipv6: "parse_ip (show_ipv6 a) = Some (V6 a)"
proof -
  have "read_ipv6_addr (show_ipv6 a) = Some (map unat (segments a), [])"
    unfolding show_ipv6_def
  proof (rule read_ipv6_addr_show)
    show "length (map unat (segments a)) = 8" by (cases a) simp
    have "unat (w :: u16) < 65536" for w
      by (rule order_less_le_trans [OF unsigned_less]) simp
    then show "\<forall>g \<in> set (map unat (segments a)). g < 65536" by auto
  qed
  then show ?thesis
    by (simp add: parse_ip_def show_ipv6_def read_ipv4_addr_show_segments ipv6_of_nats_segments)
qed

lemma parse_ip_show_ip [simp]: "parse_ip (show_ip a) = Some a"
  by (cases a) (simp_all add: parse_ip_show_ipv4 parse_ip_show_ipv6)

section \<open>Length\<close>

lemma unat_u8_less: "unat (w :: u8) < 256"
  by (rule order_less_le_trans [OF unsigned_less]) simp

lemma unat_u16_less: "unat (w :: u16) < 65536"
  by (rule order_less_le_trans [OF unsigned_less]) simp

text \<open>The text of an address is short, far below every limit on a body.\<close>

lemma show_groups_length: "\<forall>n \<in> set gs. n < 2 ^ 16 \<Longrightarrow> length (show_groups gs) \<le> length gs * 5"
  using str_join_length [of "map show_hex gs" 4 "CHR '':''"] show_base_length [of 16 _ 3]
  by (auto simp: show_groups_def show_hex_def)

lemma show_ipv4_length: "\<forall>n \<in> set ns. n < 2 ^ 8 \<Longrightarrow> length (str_join ''.'' (map show_nat ns)) \<le> length ns * 4"
  using str_join_length [of "map show_nat ns" 3 "CHR ''.''"] show_base_length [of 10 _ 2]
  by (fastforce simp: show_nat_def)

lemma show_segments_length:
  assumes "length gs = 8" and "\<forall>n \<in> set gs. n < 2 ^ 16"
  shows "length (show_segments gs) \<le> 82"
proof -
  have groups: "length (show_groups hs) \<le> 40" if "set hs \<subseteq> set gs" "length hs \<le> 8" for hs
    using show_groups_length [of hs] that assms(2) by fastforce
  have "gs ! 6 < 2 ^ 16" "gs ! 7 < 2 ^ 16" using assms by simp_all
  then have "length (str_join ''.'' (map show_nat [gs ! 6 div 256, gs ! 6 mod 256, gs ! 7 div 256, gs ! 7 mod 256])) \<le> 16"
    using show_ipv4_length [of "[gs ! 6 div 256, gs ! 6 mod 256, gs ! 7 div 256, gs ! 7 mod 256]"]
    by (simp add: less_mult_imp_div_less)
  moreover have "length (show_groups (take i gs)) + length (show_groups (drop j gs)) \<le> 40 + 40" for i j
    using assms(1) by (intro add_mono) (auto intro!: groups dest: in_set_takeD in_set_dropD)
  moreover have "length (show_groups gs) \<le> 40" using assms(1) by (auto intro!: groups)
  ultimately show ?thesis
    by (auto simp: show_segments_def split: prod.split)
qed

lemma show_ip_length: "length (show_ip a) \<le> 82"
proof (cases a)
  case (V4 x)
  have "\<forall>n \<in> set (map unat (octets x)). n < 2 ^ 8" by (cases x) (simp add: unat_u8_less)
  moreover have "length (octets x) = 4" by (cases x) simp
  ultimately show ?thesis
    using show_ipv4_length [of "map unat (octets x)"] by (simp add: V4 show_ipv4_def comp_def)
next
  case (V6 x)
  have "\<forall>n \<in> set (map unat (segments x)). n < 2 ^ 16" by (cases x) (simp add: unat_u16_less)
  moreover have "length (segments x) = 8" by (cases x) simp
  ultimately show ?thesis
    using show_segments_length [of "map unat (segments x)"] by (simp add: V6 show_ipv6_def)
qed

end
