(* ===== verification/Wire.thy ===== *)
theory Wire
  imports Ip_Addr
begin

text \<open>
  What crosses the program's boundary: the DNS values exchanged with Cloudflare
  (\<open>cloudflare.rs\<close>: \<open>DnsRecord\<close>, \<open>RecordPayload\<close>, \<open>EditProbePayload\<close>), the requests
  the program issues, and what the third-party HTTP and URL libraries let it observe of a
  response, a status or a URL.
\<close>

section \<open>DNS values\<close>

record dns_record =
  dr_id :: string
  dr_record_type :: string
  dr_name :: string
  dr_content :: string
  dr_ttl :: nat
  dr_proxied :: bool

record record_payload =
  rp_record_type :: string
  rp_name :: string
  rp_content :: string
  rp_ttl :: nat
  rp_proxied :: bool

record edit_probe_payload =
  ep_record_type :: string
  ep_name :: string
  ep_ttl :: nat

section \<open>Requests\<close>

datatype http_method = GET | PATCH | POST

datatype http_body = NoBody | PayloadBody record_payload | ProbeBody edit_probe_payload

text \<open>
  A URL is an address-discovery provider's, or the API base extended by path segments
  (\<open>CloudflareClient::endpoint\<close>); the URL library percent-encodes the segments.
\<close>

datatype http_url = ProviderUrl string | ApiUrl string "string list"

record http_request =
  rq_method :: http_method
  rq_url :: http_url
  rq_query :: "(string \<times> string) list"
  rq_body :: http_body

text \<open>The requests that can change DNS: everything that is not a \<open>GET\<close>.\<close>

definition is_mutation :: "http_request \<Rightarrow> bool" where
  "is_mutation r \<longleftrightarrow> rq_method r \<noteq> GET"

definition get_request :: "http_url \<Rightarrow> (string \<times> string) list \<Rightarrow> http_request" where
  "get_request url query = \<lparr>rq_method = GET, rq_url = url, rq_query = query, rq_body = NoBody\<rparr>"

definition json_request :: "http_method \<Rightarrow> http_url \<Rightarrow> http_body \<Rightarrow> http_request" where
  "json_request m url body = \<lparr>rq_method = m, rq_url = url, rq_query = [], rq_body = body\<rparr>"

lemma is_mutation_get [simp]: "\<not> is_mutation (get_request url query)"
  by (simp add: is_mutation_def get_request_def)

lemma is_mutation_json [simp]: "is_mutation (json_request m url body) \<longleftrightarrow> m \<noteq> GET"
  by (simp add: is_mutation_def json_request_def)

lemma get_request_inject [simp]: "get_request u q = get_request u' q' \<longleftrightarrow> u = u' \<and> q = q'"
  by (simp add: get_request_def)

section \<open>What the HTTP library shows of a response\<close>

text \<open>
  A \<open>StatusCode\<close> carries the library's own classification next to its number: the program
  calls \<open>is_success\<close>, \<open>is_server_error\<close>, \<open>canonical_reason\<close> and \<open>Display\<close> on it.
\<close>

record http_status =
  st_code :: nat
  st_success :: bool
  st_server_error :: bool
  st_reason :: "string option"
  st_text :: string

text \<open>
  A response as the client reads it: the status, the textual \<open>Retry-After\<close> header, the
  announced length, and the body chunks in the order \<open>chunk\<close> returns them, followed by a
  transport error if reading ended with one (its text, without the URL).
\<close>

record http_response =
  rs_status :: http_status
  rs_retry_after :: "string option"
  rs_content_length :: "nat option"
  rs_chunks :: "string list"
  rs_chunk_error :: "string option"

text \<open>The parts of a parsed URL the program inspects, and its two serialisations.\<close>

record url =
  url_scheme :: string
  url_host :: "string option"
  url_username :: string
  url_password :: "string option"
  url_fragment :: "string option"
  url_path :: string
  url_text :: string
  url_origin :: string

type_synonym url_parser = "string \<Rightarrow> (url, string) result"

text \<open>
  Both HTTP clients accumulate a body the same way: the announced length is checked first,
  then the running length before each chunk is appended.
\<close>

datatype body_error = BodyTooLarge | BodyTransport string

fun collect_chunks :: "nat \<Rightarrow> string \<Rightarrow> string list \<Rightarrow> string option \<Rightarrow> (string, body_error) result" where
  "collect_chunks limit acc [] err =
     (case err of None \<Rightarrow> Inr acc | Some e \<Rightarrow> Inl (BodyTransport e))"
| "collect_chunks limit acc (c # cs) err =
     (if length acc + length c > limit then Inl BodyTooLarge
      else collect_chunks limit (acc @ c) cs err)"

definition limited_body :: "nat \<Rightarrow> http_response \<Rightarrow> (string, body_error) result" where
  "limited_body limit response =
     (if (case rs_content_length response of None \<Rightarrow> False | Some n \<Rightarrow> n > limit)
      then Inl BodyTooLarge
      else collect_chunks limit [] (rs_chunks response) (rs_chunk_error response))"

lemma collect_chunks_Inr:
  "collect_chunks limit acc cs err = Inr body \<Longrightarrow> length acc \<le> limit \<Longrightarrow>
     body = acc @ concat cs \<and> length body \<le> limit \<and> err = None"
  by (induction limit acc cs err rule: collect_chunks.induct)
     (auto split: option.splits if_splits)

lemma limited_body_Inr:
  assumes "limited_body limit response = Inr body"
  shows "body = concat (rs_chunks response)" and "length body \<le> limit"
    and "rs_chunk_error response = None"
  using assms collect_chunks_Inr [of limit "[]" "rs_chunks response" "rs_chunk_error response" body]
  by (auto simp: limited_body_def split: if_splits)

lemma collect_chunks_fits:
  "length acc + length (concat cs) \<le> limit \<Longrightarrow> collect_chunks limit acc cs None = Inr (acc @ concat cs)"
  by (induction cs arbitrary: acc) auto

section \<open>The decoded API envelope\<close>

text \<open>
  \<open>cloudflare.rs\<close>: the values that the JSON library decodes from a response body. The decoder
  itself is a parameter: it yields an envelope or the text of its error.
\<close>

record api_error_detail =
  ed_code :: "int option"
  ed_message :: string

record result_info =
  ri_total_pages :: "nat option"

record 'a api_envelope =
  ae_success :: bool
  ae_errors :: "api_error_detail list"
  ae_result :: "'a option"
  ae_result_info :: "result_info option"

record 'a api_response =
  ar_result :: 'a
  ar_result_info :: "result_info option"

record zone_info =
  zi_id :: string
  zi_name :: string
  zi_status :: string

record token_verification =
  tv_status :: string

type_synonym 'a decoder = "string \<Rightarrow> ('a api_envelope, string) result"

end
