(* ===== verification/Async.thy ===== *)
theory Async
  imports Wire
begin

text \<open>
  The asynchronous runtime around the program. A computation of type \<open>('w, 'a) io\<close> is a
  future run to its end: it maps the process state to a result and the new state. The
  environment record \<open>env\<close> stands for what is not the program's own code: the HTTP exchange,
  the clock, the timers, the shutdown signal and the URL parser. \<open>await\<close> is the one
  suspension point: a pending request either completes, or a deadline installed by an
  enclosing \<open>timeout_at\<close> elapses first, or the shutdown signal resolves first. Requests are
  recorded in \<open>trace\<close>, newest first, with what became of them.
\<close>

section \<open>State\<close>

text \<open>\<open>updater.rs\<close>: \<open>CycleControl\<close>.\<close>

record cycle_control =
  stop_requested :: bool
  mutation_in_flight :: bool

text \<open>What became of an issued request, with the outcome (a transport error or a response) if it was awaited.\<close>

datatype fate = Replied | TimedOut | Abandoned

record log_entry =
  le_request :: http_request
  le_start :: instant
  le_end :: instant
  le_fate :: fate
  le_reply :: "(http_response, string) result option"

text \<open>
  The process state: the outside world, the client's zone cache, the updater's cursor, the
  control block of the running cycle, the stack of enclosing deadlines (innermost first),
  whether the daemon is waiting for the shutdown signal, that signal's result once it has
  resolved (\<open>Some None\<close> is \<open>Ok(())\<close>), and the trace of requests.
\<close>

record 'w sys =
  world :: 'w
  zone_cache :: "string \<Rightarrow> string option"
  record_cursor :: u64
  control :: cycle_control
  timers :: "instant list"
  listening :: bool
  shutdown :: "string option option"
  trace :: "log_entry list"

text \<open>
  The environment. \<open>ev_respond\<close> gives the eventual outcome of a request (a transport error
  or a response) and the world when it is ready; \<open>ev_expires\<close> says that the \<open>n\<close>-th
  enclosing deadline elapses before that; \<open>ev_signalled\<close> that the shutdown signal resolves
  before that; \<open>ev_join\<close> is the world after two futures that ran side by side; the last
  fields are the JSON decoder at the types the client asks for.
\<close>

record 'w env =
  ev_respond :: "http_request \<Rightarrow> 'w \<Rightarrow> (http_response, string) result \<times> 'w"
  ev_expires :: "instant list \<Rightarrow> http_request \<Rightarrow> 'w \<Rightarrow> (nat \<times> 'w) option"
  ev_signalled :: "http_request \<Rightarrow> 'w \<Rightarrow> (string option \<times> 'w) option"
  ev_clock :: "'w \<Rightarrow> instant"
  ev_join :: "'w \<Rightarrow> 'w \<Rightarrow> 'w"
  ev_parse_url :: url_parser
  ev_json_token :: "token_verification decoder"
  ev_json_zone :: "zone_info decoder"
  ev_json_zones :: "zone_info list decoder"
  ev_json_record :: "dns_record decoder"
  ev_json_records :: "dns_record list decoder"

definition now :: "'w env \<Rightarrow> 'w sys \<Rightarrow> instant" where
  "now env s = ev_clock env (world s)"

section \<open>Computations\<close>

text \<open>
  \<open>Expired n\<close>: the \<open>n\<close>-th enclosing deadline elapsed and dropped the future up to that
  level. \<open>Dropped\<close>: the daemon dropped the whole cycle on shutdown.
\<close>

datatype 'a fut = Done 'a | Expired nat | Dropped

type_synonym ('w, 'a) io = "'w sys \<Rightarrow> 'a fut \<times> 'w sys"

definition ret :: "'a \<Rightarrow> ('w, 'a) io" where
  "ret a s = (Done a, s)"

definition bind_io :: "('w, 'a) io \<Rightarrow> ('a \<Rightarrow> ('w, 'b) io) \<Rightarrow> ('w, 'b) io" where
  "bind_io m f s =
     (case m s of
        (Done a, s') \<Rightarrow> f a s'
      | (Expired n, s') \<Rightarrow> (Expired n, s')
      | (Dropped, s') \<Rightarrow> (Dropped, s'))"

text \<open>The question-mark operator inside an \<open>async fn\<close>.\<close>

definition bind_ok :: "('w, ('a, 'e) result) io \<Rightarrow> ('a \<Rightarrow> ('w, ('b, 'e) result) io)
    \<Rightarrow> ('w, ('b, 'e) result) io" where
  "bind_ok m f = bind_io m (\<lambda>r. case r of Inl e \<Rightarrow> ret (Inl e) | Inr a \<Rightarrow> f a)"

definition get_sys :: "('w, 'w sys) io" where
  "get_sys s = (Done s, s)"

definition modify_sys :: "('w sys \<Rightarrow> 'w sys) \<Rightarrow> ('w, unit) io" where
  "modify_sys f s = (Done (), f s)"

definition log_request :: "'w env \<Rightarrow> http_request \<Rightarrow> fate \<Rightarrow> 'w \<Rightarrow> 'w sys \<Rightarrow> 'w sys" where
  "log_request env r f w' s = s\<lparr>world := w',
     trace := \<lparr>le_request = r, le_start = now env s, le_end = ev_clock env w', le_fate = f,
       le_reply = (if f = Replied then Some (fst (ev_respond env r (world s))) else None)\<rparr> # trace s\<rparr>"

text \<open>
  \<open>CycleControl::request_stop\<close>, called by the daemon when the signal resolves: the signal's
  result is kept, and the resolved signal is not polled again.
\<close>

definition note_signal :: "string option \<Rightarrow> 'w sys \<Rightarrow> 'w sys" where
  "note_signal res s = s\<lparr>control := (control s)\<lparr>stop_requested := True\<rparr>,
     shutdown := Some res, listening := False\<rparr>"

text \<open>
  Waiting for a request. The daemon polls the shutdown signal and the cycle in the same task,
  so the signal can only be seen while the cycle is suspended here; it drops the cycle unless a
  mutation is in flight, in which case it keeps waiting for this very request. Every request
  has an outcome in the end, also outside of every deadline: the HTTP client has a timeout of its own
  (\<open>Client::builder().timeout(..)\<close> in \<open>cloudflare.rs\<close> and \<open>public_ip.rs\<close>), whose expiry is one of the transport errors.
\<close>

definition complete_request ::
  "'w env \<Rightarrow> http_request \<Rightarrow> ('w, (http_response, string) result) io" where
  "complete_request env r s =
     (case ev_expires env (timers s) r (world s) of
        Some (n, w') \<Rightarrow>
          if n < length (timers s) then (Expired n, log_request env r TimedOut w' s)
          else (case ev_respond env r (world s) of (res, w'') \<Rightarrow> (Done res, log_request env r Replied w'' s))
      | None \<Rightarrow>
          (case ev_respond env r (world s) of (res, w'') \<Rightarrow> (Done res, log_request env r Replied w'' s)))"

definition await :: "'w env \<Rightarrow> http_request \<Rightarrow> ('w, (http_response, string) result) io" where
  "await env r s =
     (case (if listening s then ev_signalled env r (world s) else None) of
        None \<Rightarrow> complete_request env r s
      | Some (res, w') \<Rightarrow>
          if mutation_in_flight (control s) then complete_request env r (note_signal res s)
          else (Dropped, log_request env r Abandoned w' (note_signal res s)))"

text \<open>\<open>tokio::time::timeout_at\<close>: \<open>None\<close> is \<open>Err(Elapsed)\<close>.\<close>

definition timeout_at :: "instant \<Rightarrow> ('w, 'a) io \<Rightarrow> ('w, 'a option) io" where
  "timeout_at deadline m s =
     (case m (s\<lparr>timers := deadline # timers s\<rparr>) of (r, s') \<Rightarrow>
        ((case r of
            Done a \<Rightarrow> Done (Some a)
          | Expired 0 \<Rightarrow> Done None
          | Expired (Suc n) \<Rightarrow> Expired n
          | Dropped \<Rightarrow> Dropped),
         s'\<lparr>timers := timers s\<rparr>))"

section \<open>Laws of the combinators\<close>

lemma ret_apply [async_simps]: "ret a s = (Done a, s)"
  by (simp add: ret_def)

lemma bind_io_ret [async_simps]: "bind_io (ret a) f = f a"
  by (rule ext) (simp add: bind_io_def ret_def)

lemma bind_io_assoc: "bind_io (bind_io m f) g = bind_io m (\<lambda>x. bind_io (f x) g)"
  by (rule ext) (simp add: bind_io_def split: fut.split prod.split)

lemma bind_io_cases:
  assumes "bind_io m f s = (r, s')"
  obtains (Done) a t where "m s = (Done a, t)" "f a t = (r, s')"
    | (Expired) n where "m s = (Expired n, s')" "r = Expired n"
    | (Dropped) "m s = (Dropped, s')" "r = Dropped"
  using assms by (auto simp: bind_io_def split: fut.splits prod.splits)

lemma bind_io_Done_iff:
  "bind_io m f s = (Done b, s') \<longleftrightarrow> (\<exists>a t. m s = (Done a, t) \<and> f a t = (Done b, s'))"
  by (auto simp: bind_io_def split: fut.splits prod.splits)

lemma bind_io_DoneI: "m s = (Done a, t) \<Longrightarrow> bind_io m f s = f a t"
  by (simp add: bind_io_def)

lemma get_sys_apply [async_simps]: "bind_io get_sys f s = f s s"
  by (simp add: bind_io_def get_sys_def)

lemma modify_sys_apply [async_simps]: "bind_io (modify_sys g) f s = f () (g s)"
  by (simp add: bind_io_def modify_sys_def)

lemma bind_ok_Done_iff:
  "bind_ok m f s = (Done b, s') \<longleftrightarrow>
     (\<exists>e. m s = (Done (Inl e), s') \<and> b = Inl e) \<or>
     (\<exists>a t. m s = (Done (Inr a), t) \<and> f a t = (Done b, s'))"
  by (auto simp: bind_ok_def bind_io_def ret_def split: fut.splits prod.splits sum.splits)

text \<open>
  \<open>tokio::join!\<close> of two read-only futures. Both start in the same state and are polled in
  turn; the world afterwards is the environment's, the requests of both are recorded, and the
  pair is dropped or expires when one of the two does.
\<close>

definition merge_sys :: "'w env \<Rightarrow> 'w sys \<Rightarrow> 'w sys \<Rightarrow> 'w sys \<Rightarrow> 'w sys" where
  "merge_sys env s s1 s2 = s1\<lparr>
     world := ev_join env (world s1) (world s2),
     control := (control s1)\<lparr>stop_requested := stop_requested (control s1) \<or> stop_requested (control s2)\<rparr>,
     listening := listening s1 \<and> listening s2,
     shutdown := (if shutdown s1 = None then shutdown s2 else shutdown s1),
     trace := take (length (trace s2) - length (trace s)) (trace s2) @ trace s1\<rparr>"

definition join2 :: "'w env \<Rightarrow> ('w, 'a) io \<Rightarrow> ('w, 'b) io \<Rightarrow> ('w, 'a \<times> 'b) io" where
  "join2 env m1 m2 s =
     (case m1 s of (r1, s1) \<Rightarrow> case m2 s of (r2, s2) \<Rightarrow>
        ((if r1 = Dropped \<or> r2 = Dropped then Dropped
          else case r1 of
            Done a \<Rightarrow> (case r2 of Done b \<Rightarrow> Done (a, b) | Expired n \<Rightarrow> Expired n | Dropped \<Rightarrow> Dropped)
          | Expired n \<Rightarrow> Expired n
          | Dropped \<Rightarrow> Dropped),
         merge_sys env s s1 s2))"

section \<open>Frames of computations\<close>

text \<open>
  \<open>frame R m\<close>: whatever happens at the suspension points of \<open>m\<close>, the state it leaves is
  related by \<open>R\<close> to the state it started from; the first argument of \<open>R\<close> says whether the
  computation was dropped.
\<close>

definition dropped :: "'a fut \<Rightarrow> bool" where
  "dropped x \<longleftrightarrow> (case x of Dropped \<Rightarrow> True | _ \<Rightarrow> False)"

lemma dropped_simps [simp]: "\<not> dropped (Done a)" "\<not> dropped (Expired n)" "dropped Dropped"
  by (simp_all add: dropped_def)

type_synonym 'w frame_rel = "bool \<Rightarrow> 'w sys \<Rightarrow> 'w sys \<Rightarrow> bool"

definition frame :: "'w frame_rel \<Rightarrow> ('w, 'a) io \<Rightarrow> bool" where
  "frame R m \<longleftrightarrow> (\<forall>s. R (dropped (fst (m s))) s (snd (m s)))"

lemma frameD: "frame R m \<Longrightarrow> m s = (r, s') \<Longrightarrow> R (dropped r) s s'"
  by (metis frame_def fst_conv snd_conv)

lemma frameI: "(\<And>s r s'. m s = (r, s') \<Longrightarrow> R (dropped r) s s') \<Longrightarrow> frame R m"
  unfolding frame_def by (metis prod.collapse)

lemma frame_if: "(b \<Longrightarrow> frame R m) \<Longrightarrow> (\<not> b \<Longrightarrow> frame R n) \<Longrightarrow> frame R (if b then m else n)"
  by simp

lemma frame_get_sys: "(\<And>t. frame R (f t)) \<Longrightarrow> frame R (bind_io get_sys f)"
  by (simp add: frame_def async_simps)

text \<open>
  What the frame lemmas of the read-only operations need of a relation: it is reflexive and
  transitive after a computation that was not dropped, and it is respected by the suspension on
  a \<open>GET\<close>, by entering and leaving a timeout, by a change of the zone cache and by the merge
  of two lanes.
\<close>

locale read_frame =
  fixes env :: "'w env" and R :: "'w frame_rel"
  assumes refl: "R False s s"
    and trans: "R False s t \<Longrightarrow> R b t t' \<Longrightarrow> R b s t'"
    and await_get: "await env (get_request u q) s = (x, s') \<Longrightarrow> R (dropped x) s s'"
    and timeout: "R b (s\<lparr>timers := d # timers s\<rparr>) t \<Longrightarrow> R b s (t\<lparr>timers := timers s\<rparr>)"
    and cache: "R False s (s\<lparr>zone_cache := z\<rparr>)"
    and merge: "R b1 s s1 \<Longrightarrow> R b2 s s2 \<Longrightarrow> R (b1 \<or> b2) s (merge_sys env s s1 s2)"
begin

lemma frame_ret: "frame R (ret a)"
  by (simp add: frame_def ret_def refl)

lemma frame_bind_io: "frame R m \<Longrightarrow> (\<And>a. frame R (f a)) \<Longrightarrow> frame R (bind_io m f)"
proof (rule frameI)
  fix s r s'
  assume m: "frame R m" and f: "\<And>a. frame R (f a)" and "bind_io m f s = (r, s')"
  from this(3) show "R (dropped r) s s'"
  proof (cases rule: bind_io_cases)
    case (Done a t)
    then have "R False s t" using frameD [OF m Done(1)] by simp
    then show ?thesis by (rule trans) (rule frameD [OF f Done(2)])
  next
    case (Expired n)
    then show ?thesis using frameD [OF m Expired(1)] by simp
  next
    case Dropped
    then show ?thesis using frameD [OF m Dropped(1)] by simp
  qed
qed

lemma frame_bind_ok: "frame R m \<Longrightarrow> (\<And>a. frame R (f a)) \<Longrightarrow> frame R (bind_ok m f)"
  unfolding bind_ok_def by (intro frame_bind_io) (auto intro: frame_ret split: sum.split)

lemma frame_await_get: "frame R (await env (get_request u q))"
  by (rule frameI) (rule await_get)

lemma dropped_timeout:
  "dropped (case r of Done a \<Rightarrow> Done (Some a) | Expired 0 \<Rightarrow> Done None | Expired (Suc n) \<Rightarrow> Expired n
     | Dropped \<Rightarrow> Dropped) = dropped r"
  by (simp split: fut.split nat.split)

lemma frame_timeout_at: "frame R m \<Longrightarrow> frame R (timeout_at d m)"
proof (rule frameI)
  fix s r s'
  assume m: "frame R m" and t: "timeout_at d m s = (r, s')"
  obtain x t where x: "m (s\<lparr>timers := d # timers s\<rparr>) = (x, t)"
    by (cases "m (s\<lparr>timers := d # timers s\<rparr>)")
  then have "s' = t\<lparr>timers := timers s\<rparr>" "dropped r = dropped x"
    using t by (auto simp: timeout_at_def dropped_timeout)
  then show "R (dropped r) s s'"
    using timeout [OF frameD [OF m x]] by simp
qed

lemma frame_cache: "frame R (modify_sys (\<lambda>s. s\<lparr>zone_cache := f s\<rparr>))"
  by (rule frameI) (auto simp: modify_sys_def intro: cache)

lemma frame_join2: "frame R m1 \<Longrightarrow> frame R m2 \<Longrightarrow> frame R (join2 env m1 m2)"
proof (rule frameI)
  fix s r s'
  assume m: "frame R m1" "frame R m2" and j: "join2 env m1 m2 s = (r, s')"
  obtain r1 s1 r2 s2 where rs: "m1 s = (r1, s1)" "m2 s = (r2, s2)"
    by (cases "m1 s", cases "m2 s")
  have "dropped r = (dropped r1 \<or> dropped r2)" "s' = merge_sys env s s1 s2"
    using j rs by (auto simp: join2_def dropped_def split: fut.splits if_splits)
  then show "R (dropped r) s s'"
    using merge [OF frameD [OF m(1) rs(1)] frameD [OF m(2) rs(2)]] by simp
qed

lemmas frame_intros = frame_ret frame_bind_io frame_bind_ok frame_await_get frame_timeout_at
  frame_cache frame_join2 frame_get_sys frame_if

end

section \<open>What a suspension point leaves behind\<close>

text \<open>The world in which a request that is not dropped by the signal ends.\<close>

definition end_world :: "'w env \<Rightarrow> instant list \<Rightarrow> http_request \<Rightarrow> 'w \<Rightarrow> 'w" where
  "end_world env ts r w =
     (case ev_expires env ts r w of
        Some (n, w') \<Rightarrow> if n < length ts then w' else snd (ev_respond env r w)
      | None \<Rightarrow> snd (ev_respond env r w))"

text \<open>
  The clock and the timers of the runtime. \<open>monotonic\<close>: \<open>Instant\<close> never goes back, and a join ends
  with the later of its two lanes. \<open>faithful_timers\<close>: a deadline never elapses early, nor when the
  reply is there before it. \<open>late_by env \<delta>\<close>: a suspended request is resumed at most \<open>\<delta>\<close> after the first
  of the deadlines around it (or after it was issued when that deadline had passed already); \<open>\<delta>\<close> is
  what the granularity of the timers and the load of the machine cost. \<open>punctual\<close> is the idealisation
  \<open>\<delta> = 0\<close>.
\<close>

definition monotonic :: "'w env \<Rightarrow> bool" where
  "monotonic env \<longleftrightarrow>
     (\<forall>ts r w. ev_clock env w \<le> ev_clock env (end_world env ts r w)) \<and>
     (\<forall>r w res w'. ev_signalled env r w = Some (res, w') \<longrightarrow> ev_clock env w \<le> ev_clock env w') \<and>
     (\<forall>v w. ev_clock env (ev_join env v w) = max (ev_clock env v) (ev_clock env w))"

definition faithful_timers :: "'w env \<Rightarrow> bool" where
  "faithful_timers env \<longleftrightarrow>
     (\<forall>ts r w n w'. ev_expires env ts r w = Some (n, w') \<longrightarrow> n < length ts \<longrightarrow>
        ts ! n \<le> ev_clock env w' \<and> ts ! n \<le> ev_clock env (snd (ev_respond env r w)))"

definition late_by :: "'w env \<Rightarrow> duration \<Rightarrow> bool" where
  "late_by env \<delta> \<longleftrightarrow>
     (\<forall>ts r w. \<forall>d \<in> set ts. ev_clock env (end_world env ts r w) \<le> max d (ev_clock env w) + \<delta>)"

definition punctual :: "'w env \<Rightarrow> bool" where
  "punctual env \<longleftrightarrow>
     (\<forall>ts r w. \<forall>d \<in> set ts. ev_clock env (end_world env ts r w) \<le> max d (ev_clock env w))"

lemma punctual_late: "punctual env \<longleftrightarrow> late_by env 0"
  by (simp add: punctual_def late_by_def)

lemma complete_request_world:
  assumes "complete_request env r s = (x, s')"
  shows "\<exists>f. s' = log_request env r f (end_world env (timers s) r (world s)) s \<and>
     x \<noteq> Dropped \<and> (f = Replied \<longleftrightarrow> (\<exists>res. x = Done res)) \<and> f \<noteq> Abandoned"
  using assms
  by (auto simp: complete_request_def end_world_def split: option.splits prod.splits if_splits)

lemma await_outcome:
  assumes "await env r s = (x, s')"
  obtains (completed) t f where "t = s \<or> (\<exists>res. t = note_signal res s \<and> mutation_in_flight (control s))"
      "s' = log_request env r f (end_world env (timers s) r (world s)) t" "x \<noteq> Dropped"
      "f = Replied \<longleftrightarrow> (\<exists>res. x = Done res)" "f \<noteq> Abandoned"
    | (dropped) res w' where "ev_signalled env r (world s) = Some (res, w')" "listening s"
      "\<not> mutation_in_flight (control s)"
      "s' = log_request env r Abandoned w' (note_signal res s)" "x = Dropped"
proof (cases "if listening s then ev_signalled env r (world s) else None")
  case None
  then show ?thesis
    using assms complete_request_world [of env r s x s'] completed [of s] by (auto simp: await_def)
next
  case (Some p)
  obtain res w' where p: "p = (res, w')" by (cases p)
  show ?thesis
  proof (cases "mutation_in_flight (control s)")
    case True
    then show ?thesis
      using Some p assms complete_request_world [of env r "note_signal res s" x s']
        completed [of "note_signal res s"]
      by (auto simp: await_def note_signal_def)
  next
    case False
    then show ?thesis
      using Some p assms dropped [of res w'] by (auto simp: await_def split: if_splits)
  qed
qed

lemma log_request_simps [simp]:
  "world (log_request env r f w' s) = w'"
  "zone_cache (log_request env r f w' s) = zone_cache s"
  "record_cursor (log_request env r f w' s) = record_cursor s"
  "control (log_request env r f w' s) = control s"
  "timers (log_request env r f w' s) = timers s"
  "listening (log_request env r f w' s) = listening s"
  "shutdown (log_request env r f w' s) = shutdown s"
  by (simp_all add: log_request_def)

lemma note_signal_simps [simp]:
  "world (note_signal res s) = world s"
  "zone_cache (note_signal res s) = zone_cache s"
  "record_cursor (note_signal res s) = record_cursor s"
  "mutation_in_flight (control (note_signal res s)) = mutation_in_flight (control s)"
  "timers (note_signal res s) = timers s"
  "trace (note_signal res s) = trace s"
  by (simp_all add: note_signal_def)

lemma await_frame [frame_rules]:
  assumes "await env r s = (x, s')"
  shows "timers s' = timers s" "zone_cache s' = zone_cache s" "record_cursor s' = record_cursor s"
    "mutation_in_flight (control s') = mutation_in_flight (control s)"
    "\<exists>e. trace s' = e # trace s \<and> le_request e = r \<and> le_start e = now env s \<and> le_end e = now env s'
       \<and> (le_fate e = Replied \<longleftrightarrow> (\<exists>res. x = Done res)) \<and> (le_fate e = Abandoned \<longleftrightarrow> x = Dropped)"
  using assms by (cases rule: await_outcome; auto simp: log_request_def now_def)+

lemma await_reply:
  "await env r s = (Done res, s') \<Longrightarrow> res = fst (ev_respond env r (world s)) \<and>
     (\<exists>e. trace s' = e # trace s \<and> le_request e = r \<and> le_reply e = Some res)"
  by (auto simp: await_def complete_request_def log_request_def split: option.splits prod.splits if_splits)

lemma await_world: "await env r s = (x, s') \<Longrightarrow> x \<noteq> Dropped \<Longrightarrow>
    world s' = end_world env (timers s) r (world s)"
  by (erule await_outcome) auto

lemma await_monotonic: "monotonic env \<Longrightarrow> await env r s = (x, s') \<Longrightarrow> now env s \<le> now env s'"
  by (erule await_outcome) (auto simp: monotonic_def now_def)

lemma timeout_at_frame [frame_rules]:
  "timeout_at d m s = (x, s') \<Longrightarrow> timers s' = timers s"
  by (auto simp: timeout_at_def split: prod.splits)

lemma timeout_at_Done:
  assumes "timeout_at d m s = (Done (Some y), s')"
  obtains t where "m (s\<lparr>timers := d # timers s\<rparr>) = (Done y, t)" "s' = t\<lparr>timers := timers s\<rparr>"
  using assms by (auto simp: timeout_at_def split: prod.splits fut.splits nat.splits)


section \<open>A scripted environment\<close>

text \<open>
  A concrete environment for the examples: the world is a counter that is also the clock,
  every reply takes one nanosecond, a deadline that has been reached expires at once, and the
  shutdown signal never comes.
\<close>

definition scripted :: "(http_request \<Rightarrow> nat \<Rightarrow> (http_response, string) result) \<Rightarrow> nat env" where
  "scripted script = \<lparr>
     ev_respond = (\<lambda>r w. (script r w, Suc w)),
     ev_expires = (\<lambda>ts r w. if list_ex (\<lambda>d. d \<le> w) ts
        then Some (length (takeWhile (\<lambda>d. w < d) ts), w) else None),
     ev_signalled = (\<lambda>r w. None),
     ev_clock = (\<lambda>w. w),
     ev_join = max,
     ev_parse_url = (\<lambda>s. Inl ''relative URL without a base''),
     ev_json_token = (\<lambda>_. Inl []), ev_json_zone = (\<lambda>_. Inl []), ev_json_zones = (\<lambda>_. Inl []),
     ev_json_record = (\<lambda>_. Inl []), ev_json_records = (\<lambda>_. Inl [])\<rparr>"

definition idle_sys :: "'w \<Rightarrow> 'w sys" where
  "idle_sys w = \<lparr>world = w, zone_cache = (\<lambda>_. None), record_cursor = 0,
     control = \<lparr>stop_requested = False, mutation_in_flight = False\<rparr>, timers = [],
     listening = False, shutdown = None, trace = []\<rparr>"

definition ok_response :: "string \<Rightarrow> http_response" where
  "ok_response body = \<lparr>rs_status = \<lparr>st_code = 200, st_success = True, st_server_error = False,
      st_reason = Some ''OK'', st_text = ''200 OK''\<rparr>,
     rs_retry_after = None, rs_content_length = None, rs_chunks = [body], rs_chunk_error = None\<rparr>"

lemma idle_sys_simps [simp]:
  "world (idle_sys w) = w" "zone_cache (idle_sys w) = (\<lambda>_. None)" "record_cursor (idle_sys w) = 0"
  "stop_requested (control (idle_sys w)) = False" "mutation_in_flight (control (idle_sys w)) = False"
  "timers (idle_sys w) = []" "listening (idle_sys w) = False" "shutdown (idle_sys w) = None"
  "trace (idle_sys w) = []"
  by (simp_all add: idle_sys_def)

lemma now_scripted [simp]: "now (scripted script) s = world s"
  by (simp add: now_def scripted_def)

lemma takeWhile_hit: "d \<in> set ts \<Longrightarrow> d \<le> w \<Longrightarrow> length (takeWhile ((<) w) ts) < length (ts :: nat list)"
  by (induction ts) auto

lemma await_scripted:
  "\<not> listening s \<Longrightarrow> await (scripted script) r s =
     (if list_ex (\<lambda>d. d \<le> world s) (timers s)
      then (Expired (length (takeWhile ((<) (world s)) (timers s))),
            log_request (scripted script) r TimedOut (world s) s)
      else (Done (script r (world s)), log_request (scripted script) r Replied (Suc (world s)) s))"
  using takeWhile_hit [of _ "timers s" "world s"]
  by (auto simp: await_def complete_request_def scripted_def list_ex_iff)

lemma scripted_monotonic [simp]: "monotonic (scripted script)"
  by (auto simp: monotonic_def scripted_def end_world_def)

lemma scripted_punctual [simp]: "punctual (scripted script)"
  by (auto simp: punctual_def scripted_def end_world_def list_ex_iff not_le takeWhile_hit)

section \<open>Frames every read-only operation has\<close>

definition same_timers :: "'w sys \<Rightarrow> 'w sys \<Rightarrow> bool" where
  "same_timers s s' \<longleftrightarrow> timers s' = timers s"

text \<open>The trace grew by entries that satisfy \<open>P\<close>.\<close>

definition adds :: "(log_entry \<Rightarrow> bool) \<Rightarrow> 'w sys \<Rightarrow> 'w sys \<Rightarrow> bool" where
  "adds P s s' \<longleftrightarrow> (\<exists>new. trace s' = new @ trace s \<and> (\<forall>e \<in> set new. P e))"

text \<open>Only requests that change nothing were added to the trace.\<close>

definition reads_only :: "'w sys \<Rightarrow> 'w sys \<Rightarrow> bool" where
  "reads_only = adds (\<lambda>e. \<not> is_mutation (le_request e))"

definition clock_forward :: "'w env \<Rightarrow> 'w sys \<Rightarrow> 'w sys \<Rightarrow> bool" where
  "clock_forward env s s' \<longleftrightarrow> (monotonic env \<longrightarrow> now env s \<le> now env s')"

text \<open>The cursor and the mutation flag stay, a stop request stays.\<close>

definition same_cursor :: "'w sys \<Rightarrow> 'w sys \<Rightarrow> bool" where
  "same_cursor s s' \<longleftrightarrow> record_cursor s' = record_cursor s \<and>
     mutation_in_flight (control s') = mutation_in_flight (control s)"

text \<open>Every mutation that was added to the trace was replied to: none timed out or was abandoned.\<close>

definition mutations_replied :: "'w sys \<Rightarrow> 'w sys \<Rightarrow> bool" where
  "mutations_replied = adds (\<lambda>e. is_mutation (le_request e) \<longrightarrow> le_fate e = Replied)"

lemma merge_sys_simps [simp]:
  "timers (merge_sys env s s1 s2) = timers s1"
  "zone_cache (merge_sys env s s1 s2) = zone_cache s1"
  "record_cursor (merge_sys env s s1 s2) = record_cursor s1"
  "mutation_in_flight (control (merge_sys env s s1 s2)) = mutation_in_flight (control s1)"
  "world (merge_sys env s s1 s2) = ev_join env (world s1) (world s2)"
  by (simp_all add: merge_sys_def)

lemma trace_merge_sys:
  "trace s1 = n1 @ trace s \<Longrightarrow> trace s2 = n2 @ trace s \<Longrightarrow> trace (merge_sys env s s1 s2) = n2 @ n1 @ trace s"
  by (simp add: merge_sys_def)

lemma addsI: "trace s' = new @ trace s \<Longrightarrow> (\<And>e. e \<in> set new \<Longrightarrow> P e) \<Longrightarrow> adds P s s'"
  by (auto simp: adds_def)

lemma addsE: "adds P s s' \<Longrightarrow> (\<And>new. trace s' = new @ trace s \<Longrightarrow> \<forall>e \<in> set new. P e \<Longrightarrow> Q) \<Longrightarrow> Q"
  by (auto simp: adds_def)

lemma adds_same: "trace s' = trace s \<Longrightarrow> adds P s s'"
  by (rule addsI [of _ "[]"]) simp_all

lemma adds_trans: "adds P s t \<Longrightarrow> adds P t t' \<Longrightarrow> adds P s t'"
  by (elim addsE, rule addsI [of _ "_ @ _"]) auto

lemma adds_merge: "adds P s s1 \<Longrightarrow> adds P s s2 \<Longrightarrow> adds P s (merge_sys env s s1 s2)"
  by (elim addsE, rule addsI [of _ "_ @ _"]) (auto simp: trace_merge_sys)

lemma adds_await:
  assumes "await env r s = (x, s')"
    and "\<And>e. le_request e = r \<Longrightarrow> (le_fate e = Replied \<longleftrightarrow> (\<exists>res. x = Done res)) \<Longrightarrow>
      le_start e = now env s \<Longrightarrow> P e"
  shows "adds P s s'"
proof -
  obtain e where "trace s' = [e] @ trace s" "le_request e = r" "le_start e = now env s"
    "le_fate e = Replied \<longleftrightarrow> (\<exists>res. x = Done res)"
    using await_frame(5) [OF assms(1)] by auto
  then show ?thesis
    using assms(2) by (auto intro: addsI)
qed

interpretation timers_frame: read_frame env "\<lambda>_. same_timers" for env :: "'w env"
  by unfold_locales (auto simp: same_timers_def dest: await_frame(1))

lemma adds_timers: "adds P (s\<lparr>timers := ts\<rparr>) t \<Longrightarrow> adds P s (t\<lparr>timers := ts'\<rparr>)"
  by (simp add: adds_def)

lemma adds_read_frame:
  assumes "\<And>e. \<not> is_mutation (le_request e) \<Longrightarrow> P e"
  shows "read_frame (env :: 'w env) (\<lambda>_. adds P)"
proof
  fix s s' :: "'w sys" and u q x
  assume "await env (get_request u q) s = (x, s')"
  then show "adds P s s'"
    by (rule adds_await) (simp add: assms)
qed (auto intro: adds_same adds_merge adds_trans adds_timers)

interpretation reads_frame: read_frame env "\<lambda>_. reads_only" for env :: "'w env"
  unfolding reads_only_def by (rule adds_read_frame)

interpretation clock_frame: read_frame env "\<lambda>_. clock_forward env" for env :: "'w env"
proof unfold_locales
  fix s s' :: "'w sys" and u q x
  assume "await env (get_request u q) s = (x, s')"
  then show "clock_forward env s s'"
    by (auto simp: clock_forward_def dest: await_monotonic)
next
  fix s s1 s2 :: "'w sys"
  assume "clock_forward env s s1" "clock_forward env s s2"
  then show "clock_forward env s (merge_sys env s s1 s2)"
    by (auto simp: clock_forward_def now_def monotonic_def max_def)
qed (auto simp: clock_forward_def now_def)

interpretation cursor_frame: read_frame env "\<lambda>_. same_cursor" for env :: "'w env"
  by unfold_locales (auto simp: same_cursor_def dest: await_frame(3,4))

section \<open>Frames of operations that may change DNS\<close>

text \<open>
  A mutation runs under the guard of \<open>CycleControl::begin_mutation\<close>; the guard's destructor
  clears the flag however the future ends.
\<close>

definition set_in_flight :: "bool \<Rightarrow> 'w sys \<Rightarrow> 'w sys" where
  "set_in_flight b s = s\<lparr>control := (control s)\<lparr>mutation_in_flight := b\<rparr>\<rparr>"

definition guarded :: "('w, 'a) io \<Rightarrow> ('w, 'a) io" where
  "guarded m s = (case m (set_in_flight True s) of (r, s') \<Rightarrow> (r, set_in_flight False s'))"

definition frame_top :: "'w frame_rel \<Rightarrow> ('w, 'a) io \<Rightarrow> bool" where
  "frame_top R m \<longleftrightarrow>
     (\<forall>s. timers s = [] \<longrightarrow> R (dropped (fst (m s))) s (snd (m s)) \<and> timers (snd (m s)) = [])"

lemma frame_topD:
  "frame_top R m \<Longrightarrow> m s = (r, s') \<Longrightarrow> timers s = [] \<Longrightarrow> R (dropped r) s s' \<and> timers s' = []"
  by (metis frame_top_def fst_conv snd_conv)

lemma frame_topI:
  "(\<And>s r s'. m s = (r, s') \<Longrightarrow> timers s = [] \<Longrightarrow> R (dropped r) s s' \<and> timers s' = []) \<Longrightarrow> frame_top R m"
  unfolding frame_top_def by (metis prod.collapse)

lemma frame_top_read: "frame R m \<Longrightarrow> frame (\<lambda>_. same_timers) m \<Longrightarrow> frame_top R m"
  by (simp add: frame_top_def frame_def same_timers_def)

lemma frame_top_get_sys: "(\<And>t. frame_top R (f t)) \<Longrightarrow> frame_top R (bind_io get_sys f)"
  by (simp add: frame_top_def async_simps)

lemma frame_top_if:
  "(b \<Longrightarrow> frame_top R m) \<Longrightarrow> (\<not> b \<Longrightarrow> frame_top R n) \<Longrightarrow> frame_top R (if b then m else n)"
  by simp

lemma set_in_flight_simps [simp]:
  "timers (set_in_flight b s) = timers s" "trace (set_in_flight b s) = trace s"
  "world (set_in_flight b s) = world s" "zone_cache (set_in_flight b s) = zone_cache s"
  "record_cursor (set_in_flight b s) = record_cursor s"
  "mutation_in_flight (control (set_in_flight b s)) = b"
  "stop_requested (control (set_in_flight b s)) = stop_requested (control s)"
  "listening (set_in_flight b s) = listening s" "shutdown (set_in_flight b s) = shutdown s"
  by (simp_all add: set_in_flight_def)

context read_frame
begin

lemma top_ret: "frame_top R (ret a)"
  by (simp add: frame_top_def ret_def refl)

lemma top_bind_post:
  assumes m: "frame_top R m" and post: "\<And>s a s'. m s = (Done a, s') \<Longrightarrow> Q a"
    and f: "\<And>a. Q a \<Longrightarrow> frame_top R (f a)"
  shows "frame_top R (bind_io m f)"
proof (rule frame_topI)
  fix s r s'
  assume b: "bind_io m f s = (r, s')" and top: "timers s = []"
  from b show "R (dropped r) s s' \<and> timers s' = []"
  proof (cases rule: bind_io_cases)
    case (Done a t)
    then have "R False s t" "timers t = []" using frame_topD [OF m Done(1) top] by simp_all
    then show ?thesis using frame_topD [OF f [OF post [OF Done(1)]] Done(2)] trans by blast
  next
    case (Expired n)
    then show ?thesis using frame_topD [OF m Expired(1) top] by simp
  next
    case Dropped
    then show ?thesis using frame_topD [OF m Dropped(1) top] by simp
  qed
qed

lemma top_bind_io: "frame_top R m \<Longrightarrow> (\<And>a. frame_top R (f a)) \<Longrightarrow> frame_top R (bind_io m f)"
  by (rule top_bind_post [where Q = "\<lambda>_. True"]) simp_all

lemma top_bind_ok: "frame_top R m \<Longrightarrow> (\<And>a. frame_top R (f a)) \<Longrightarrow> frame_top R (bind_ok m f)"
  unfolding bind_ok_def by (intro top_bind_io) (auto intro: top_ret split: sum.split)

end

locale write_frame = read_frame env R
  for env :: "'w env" and R :: "'w frame_rel" +
  assumes await_mutation: "timers s = [] \<Longrightarrow> mutation_in_flight (control s) \<Longrightarrow>
      await env r s = (x, s') \<Longrightarrow> R False s s'"
    and in_flight: "R False s (set_in_flight b s)"
    and cursor: "R False s (s\<lparr>record_cursor := c\<rparr>)"
begin

text \<open>A guarded mutation is never dropped.\<close>

lemma top_guarded:
  assumes "\<And>s x s'. timers s = [] \<Longrightarrow> mutation_in_flight (control s) \<Longrightarrow> m s = (x, s') \<Longrightarrow>
    R False s s' \<and> timers s' = [] \<and> \<not> dropped x"
  shows "frame_top R (guarded m)"
proof (rule frame_topI)
  fix s r s'
  assume m: "guarded m s = (r, s')" and top: "timers s = []"
  obtain t where t: "m (set_in_flight True s) = (r, t)" "s' = set_in_flight False t"
    using m by (auto simp: guarded_def split: prod.splits)
  have step: "R False (set_in_flight True s) t \<and> timers t = [] \<and> \<not> dropped r"
    using assms [OF _ _ t(1)] top by simp
  have "R False s t"
    using trans [OF in_flight] step by blast
  then have "R False s s'"
    unfolding t(2) by (rule trans) (rule in_flight)
  then show "R (dropped r) s s' \<and> timers s' = []"
    using step t(2) by simp
qed

lemma top_cursor: "frame_top R (modify_sys (\<lambda>s. s\<lparr>record_cursor := f s\<rparr>))"
  by (rule frame_topI) (auto simp: modify_sys_def intro: cursor)

lemmas top_intros = top_ret top_bind_io top_bind_ok top_cursor frame_top_get_sys frame_top_if

end

interpretation clock_write: write_frame env "\<lambda>_. clock_forward env" for env :: "'w env"
  by unfold_locales (auto simp: clock_forward_def now_def dest: await_monotonic)

lemma await_in_flight_Done:
  "timers s = [] \<Longrightarrow> mutation_in_flight (control s) \<Longrightarrow> await env r s = (x, s') \<Longrightarrow> \<exists>res. x = Done res"
  by (auto simp: await_def complete_request_def split: option.splits prod.splits if_splits)

interpretation replied_frame: write_frame env "\<lambda>_. mutations_replied" for env :: "'w env"
  unfolding mutations_replied_def
proof (intro write_frame.intro adds_read_frame write_frame_axioms.intro)
  fix s s' :: "'w sys" and r x
  assume s: "timers s = []" "mutation_in_flight (control s)" and a: "await env r s = (x, s')"
  show "adds (\<lambda>e. is_mutation (le_request e) \<longrightarrow> le_fate e = Replied) s s'"
    using await_in_flight_Done [OF s a] by (intro adds_await [OF a]) simp
qed (auto intro: adds_same)

end
