(* ===== verification/Public_Ip.thy ===== *)
theory Public_Ip
  imports Async
begin

unbundle bit_operations_syntax

text \<open>
  \<open>public_ip.rs\<close>: which addresses may be published, how a provider's answer is read, and
  discovery with ordered fallback under one total timeout. The first half is pure; \<open>discover\<close>
  is a computation over the environment.
\<close>

section \<open>Address families and public addresses\<close>

datatype address_family = Ipv4 | Ipv6

fun family_matches :: "address_family \<Rightarrow> ip_addr \<Rightarrow> bool" where
  "family_matches Ipv4 (V4 _) = True"
| "family_matches Ipv6 (V6 _) = True"
| "family_matches _ _ = False"

fun family_str :: "address_family \<Rightarrow> string" where
  "family_str Ipv4 = ''IPv4''"
| "family_str Ipv6 = ''IPv6''"

fun is_public_ipv4 :: "ipv4_addr \<Rightarrow> bool" where
  "is_public_ipv4 (Ipv4Addr a b c d) =
     (if a = 0 \<or> a = 10 \<or> a = 127 \<or> a \<ge> 224
         \<or> (a = 100 \<and> 64 \<le> b \<and> b \<le> 127)
         \<or> (a = 169 \<and> b = 254)
         \<or> (a = 172 \<and> 16 \<le> b \<and> b \<le> 31)
         \<or> (a = 192 \<and> b = 168)
      then False
      else
        let ietf_or_test_net = a = 192 \<and> b = 0 \<and> (c = 0 \<or> c = 2)
        in if ietf_or_test_net
              \<or> (a = 192 \<and> b = 88 \<and> c = 99)
              \<or> (a = 192 \<and> b = 31 \<and> c = 196)
              \<or> (a = 192 \<and> b = 52 \<and> c = 193)
              \<or> (a = 192 \<and> b = 175 \<and> c = 48)
              \<or> (a = 198 \<and> (b = 18 \<or> b = 19))
              \<or> (a = 198 \<and> b = 51 \<and> c = 100)
              \<or> (a = 203 \<and> b = 0 \<and> c = 113)
           then False else True)"

fun is_public_ipv6 :: "ipv6_addr \<Rightarrow> bool" where
  "is_public_ipv6 (Ipv6Addr s0 s1 s2 s3 s4 s5 s6 s7) =
     (if s0 AND 0xe000 \<noteq> 0x2000 then False
      else
        let special_2001 = s0 = 0x2001 \<and> (s1 \<le> 0x01ff \<or> s1 = 0x0db8)
        in if special_2001
              \<or> s0 = 0x2002
              \<or> (s0 = 0x2620 \<and> s1 = 0x004f \<and> s2 = 0x8000)
              \<or> s0 = 0x3ffe
              \<or> (s0 = 0x3fff \<and> s1 AND 0xf000 = 0)
           then False else True)"

fun is_public_address :: "ip_addr \<Rightarrow> bool" where
  "is_public_address (V4 a) = is_public_ipv4 a"
| "is_public_address (V6 a) = is_public_ipv6 a"

section \<open>Reading a provider's answer\<close>

definition MAX_RESPONSE_BYTES :: nat where
  "MAX_RESPONSE_BYTES = 16 * 1024"

datatype provider_error =
    Request string
  | ProviderTimedOut
  | HttpStatus http_status
  | ResponseTooLarge nat
  | NonUtf8Response
  | EmptyResponse
  | MalformedResponse
  | WrongAddressFamily address_family ip_addr
  | NonPublicAddress ip_addr

fun provider_error_text :: "provider_error \<Rightarrow> string" where
  "provider_error_text (Request e) = ''HTTP request failed: '' @ e"
| "provider_error_text ProviderTimedOut =
     ''provider request exhausted its share of the total discovery timeout''"
| "provider_error_text (HttpStatus st) = ''provider returned HTTP status '' @ st_text st"
| "provider_error_text (ResponseTooLarge limit) =
     ''provider response exceeds the '' @ show_nat limit @ ''-byte safety limit''"
| "provider_error_text NonUtf8Response = ''provider response is not valid UTF-8''"
| "provider_error_text EmptyResponse = ''provider response is empty''"
| "provider_error_text MalformedResponse =
     ''provider response contains neither one plain IP nor one trace ip= line''"
| "provider_error_text (WrongAddressFamily expected actual) =
     ''provider returned '' @ show_ip actual @ '', but '' @ family_str expected @ '' was requested''"
| "provider_error_text (NonPublicAddress a) = ''provider returned non-public address '' @ show_ip a"

text \<open>The nonempty values of the \<open>ip=\<close> lines of a Cloudflare trace, in order.\<close>

definition trace_ip_values :: "string \<Rightarrow> string list" where
  "trace_ip_values response =
     List.map_filter
       (\<lambda>line. case strip_prefix ''ip='' (trim line) of
          None \<Rightarrow> None
        | Some v \<Rightarrow> if trim v = [] then None else Some (trim v))
       (lines response)"

definition response_candidate :: "string \<Rightarrow> (ip_addr, provider_error) result" where
  "response_candidate response =
     (case parse_ip (trim response) of
        Some address \<Rightarrow> Inr address
      | None \<Rightarrow>
          (case trace_ip_values response of
             [] \<Rightarrow> Inl MalformedResponse
           | value # others \<Rightarrow>
               if others \<noteq> [] then Inl MalformedResponse
               else (case parse_ip value of None \<Rightarrow> Inl MalformedResponse | Some a \<Rightarrow> Inr a)))"

definition parse_provider_response :: "string \<Rightarrow> address_family \<Rightarrow> (ip_addr, provider_error) result" where
  "parse_provider_response response family =
     (if length response > MAX_RESPONSE_BYTES then Inl (ResponseTooLarge MAX_RESPONSE_BYTES)
      else if trim response = [] then Inl EmptyResponse
      else bind_res (response_candidate response) (\<lambda>candidate.
        if \<not> family_matches family candidate then Inl (WrongAddressFamily family candidate)
        else if \<not> is_public_address candidate then Inl (NonPublicAddress candidate)
        else Inr candidate))"

text \<open>\<open>std::str::from_utf8\<close>: the well-formed byte sequences of Unicode's Table 3-7.\<close>

definition continuation :: "char \<Rightarrow> bool" where
  "continuation c \<longleftrightarrow> 0x80 \<le> byte c \<and> byte c \<le> 0xBF"

fun valid_utf8_char :: "string \<Rightarrow> bool" where
  "valid_utf8_char [a] = (byte a < 0x80)"
| "valid_utf8_char [a, b] = (0xC2 \<le> byte a \<and> byte a \<le> 0xDF \<and> continuation b)"
| "valid_utf8_char [a, b, c] =
     (continuation b \<and> continuation c \<and>
      (if byte a = 0xE0 then 0xA0 \<le> byte b
       else if byte a = 0xED then byte b \<le> 0x9F
       else 0xE1 \<le> byte a \<and> byte a \<le> 0xEF))"
| "valid_utf8_char [a, b, c, d] =
     (continuation b \<and> continuation c \<and> continuation d \<and>
      (if byte a = 0xF0 then 0x90 \<le> byte b
       else if byte a = 0xF4 then byte b \<le> 0x8F
       else 0xF1 \<le> byte a \<and> byte a \<le> 0xF3))"
| "valid_utf8_char _ = False"

definition from_utf8 :: "string \<Rightarrow> bool" where
  "from_utf8 bytes \<longleftrightarrow> list_all valid_utf8_char (chars bytes)"

text \<open>The part of \<open>query_provider\<close> after the response has arrived.\<close>

definition provider_body :: "http_response \<Rightarrow> (string, provider_error) result" where
  "provider_body response =
     (if \<not> st_success (rs_status response) then Inl (HttpStatus (rs_status response))
      else bind_res
        (map_err (\<lambda>e. case e of BodyTooLarge \<Rightarrow> ResponseTooLarge MAX_RESPONSE_BYTES | BodyTransport t \<Rightarrow> Request t)
          (limited_body MAX_RESPONSE_BYTES response))
        (\<lambda>bytes. if from_utf8 bytes then Inr bytes else Inl NonUtf8Response))"

section \<open>Discovery\<close>

record public_ip_client =
  pc_timeout :: duration

record provider_failure =
  pf_provider :: string
  pf_error :: provider_error

datatype public_ip_error =
    PipInvalidTimeout
  | PipClientBuild string
  | NoProviders address_family
  | AllProvidersFailed address_family "provider_failure list"
  | DeadlineExceeded address_family "provider_failure list"

fun pip_failures :: "public_ip_error \<Rightarrow> provider_failure list" where
  "pip_failures (AllProvidersFailed _ fs) = fs"
| "pip_failures (DeadlineExceeded _ fs) = fs"
| "pip_failures _ = []"

definition provider_failure_text :: "provider_failure \<Rightarrow> string" where
  "provider_failure_text f = pf_provider f @ '': '' @ provider_error_text (pf_error f)"

fun public_ip_error_text :: "public_ip_error \<Rightarrow> string" where
  "public_ip_error_text PipInvalidTimeout = ''public IP request timeout must be nonzero''"
| "public_ip_error_text (PipClientBuild e) = ''failed to build public IP HTTP client: '' @ e"
| "public_ip_error_text (NoProviders family) =
     ''no '' @ family_str family @ '' public IP providers are configured''"
| "public_ip_error_text (AllProvidersFailed family fs) =
     ''all '' @ show_nat (length fs) @ '' '' @ family_str family @ '' public IP providers failed'' @
     concat (map (\<lambda>f. ''; '' @ provider_failure_text f) fs)"
| "public_ip_error_text (DeadlineExceeded family fs) =
     family_str family @ '' public IP discovery exceeded its total timeout after '' @
     show_nat (length fs) @ '' provider failure(s)'' @
     concat (map (\<lambda>f. ''; '' @ provider_failure_text f) fs)"

text \<open>
  \<open>PublicIpClient::build\<close>; the third argument is the outcome of the HTTP library's builder,
  \<open>None\<close> for success and otherwise the text of its error.
\<close>

definition pip_build :: "duration \<Rightarrow> string option \<Rightarrow> (public_ip_client, public_ip_error) result" where
  "pip_build timeout builder_error =
     (if timeout = 0 then Inl PipInvalidTimeout
      else case builder_error of
        Some e \<Rightarrow> Inl (PipClientBuild e)
      | None \<Rightarrow> Inr \<lparr>pc_timeout = timeout\<rparr>)"

definition redact_provider_url :: "url_parser \<Rightarrow> string \<Rightarrow> string" where
  "redact_provider_url parse provider =
     (case parse provider of
        Inl _ \<Rightarrow> ''<invalid provider URL>''
      | Inr url \<Rightarrow>
          if url_origin url = ''null'' then ''<invalid provider URL>''
          else url_origin url @ ''/<redacted>'')"

definition query_provider ::
  "'w env \<Rightarrow> string \<Rightarrow> address_family \<Rightarrow> ('w, (ip_addr, provider_error) result) io" where
  "query_provider env provider family =
     bind_io (await env (get_request (ProviderUrl provider) []))
       (\<lambda>r. ret (case r of
          Inl e \<Rightarrow> Inl (Request e)
        | Inr response \<Rightarrow>
            bind_res (provider_body response) (\<lambda>body. parse_provider_response body family)))"

definition providers_left :: "nat \<Rightarrow> nat" where
  "providers_left n = (if n < 2 ^ 32 then n else 2 ^ 32 - 1)"

text \<open>One round of the provider loop and the rounds after it.\<close>

fun discover_from :: "'w env \<Rightarrow> public_ip_client \<Rightarrow> address_family \<Rightarrow> instant \<Rightarrow> string list
    \<Rightarrow> provider_failure list \<Rightarrow> ('w, (ip_addr, public_ip_error) result) io" where
  "discover_from env client family started [] failures =
     ret (Inl (AllProvidersFailed family failures))"
| "discover_from env client family started (provider # rest) failures =
     bind_io get_sys (\<lambda>s.
       let remaining = pc_timeout client - (now env s - started);
           attempt_timeout = remaining div providers_left (Suc (length rest))
       in if remaining = 0 then ret (Inl (DeadlineExceeded family failures))
          else if attempt_timeout = 0 then ret (Inl (DeadlineExceeded family failures))
          else
            bind_io (timeout_at (now env s + attempt_timeout) (query_provider env provider family))
              (\<lambda>outcome. case outcome of
                 Some (Inr address) \<Rightarrow> ret (Inr address)
               | Some (Inl error) \<Rightarrow>
                   discover_from env client family started rest
                     (failures @ [\<lparr>pf_provider = redact_provider_url (ev_parse_url env) provider,
                                   pf_error = error\<rparr>])
               | None \<Rightarrow>
                   discover_from env client family started rest
                     (failures @ [\<lparr>pf_provider = redact_provider_url (ev_parse_url env) provider,
                                   pf_error = ProviderTimedOut\<rparr>])))"

definition discover :: "'w env \<Rightarrow> public_ip_client \<Rightarrow> address_family \<Rightarrow> string list
    \<Rightarrow> ('w, (ip_addr, public_ip_error) result) io" where
  "discover env client family providers =
     (if providers = [] then ret (Inl (NoProviders family))
      else bind_io get_sys (\<lambda>s. discover_from env client family (now env s) providers []))"

section \<open>The address filter against the special-purpose registries\<close>

text \<open>
  The reference definition: a block is a base address (its leading bytes or segments) and a
  prefix length, and an address belongs to it when the leading bits agree.
\<close>

definition ipv4_num :: "nat \<Rightarrow> nat \<Rightarrow> nat \<Rightarrow> nat \<Rightarrow> nat" where
  "ipv4_num a b c d = ((a * 256 + b) * 256 + c) * 256 + d"

definition ipv6_num :: "nat \<Rightarrow> nat \<Rightarrow> nat \<Rightarrow> nat \<Rightarrow> nat" where
  "ipv6_num s0 s1 s2 t = ((s0 * 65536 + s1) * 65536 + s2) * 2 ^ 80 + t"

fun ipv4_value :: "ipv4_addr \<Rightarrow> nat" where
  "ipv4_value (Ipv4Addr a b c d) = ipv4_num (unat a) (unat b) (unat c) (unat d)"

fun ipv6_value :: "ipv6_addr \<Rightarrow> nat" where
  "ipv6_value (Ipv6Addr s0 s1 s2 s3 s4 s5 s6 s7) =
     ipv6_num (unat s0) (unat s1) (unat s2)
       ((((unat s3 * 65536 + unat s4) * 65536 + unat s5) * 65536 + unat s6) * 65536 + unat s7)"

definition in_block :: "nat \<Rightarrow> nat \<Rightarrow> nat \<times> nat \<Rightarrow> bool" where
  "in_block width x block \<longleftrightarrow>
     x div 2 ^ (width - snd block) = fst block div 2 ^ (width - snd block)"

definition ipv4_block :: "nat \<Rightarrow> nat \<Rightarrow> nat \<Rightarrow> nat \<Rightarrow> nat \<times> nat" where
  "ipv4_block a b c len = (ipv4_num a b c 0, len)"

definition ipv6_block :: "nat \<Rightarrow> nat \<Rightarrow> nat \<Rightarrow> nat \<Rightarrow> nat \<times> nat" where
  "ipv6_block s0 s1 s2 len = (ipv6_num s0 s1 s2 0, len)"

definition special_ipv4_blocks :: "(nat \<times> nat) list" where
  "special_ipv4_blocks =
     [ipv4_block 0 0 0 8, ipv4_block 10 0 0 8, ipv4_block 127 0 0 8, ipv4_block 224 0 0 3,
      ipv4_block 100 64 0 10, ipv4_block 169 254 0 16, ipv4_block 172 16 0 12,
      ipv4_block 192 168 0 16, ipv4_block 192 0 0 24, ipv4_block 192 0 2 24,
      ipv4_block 192 88 99 24, ipv4_block 192 31 196 24, ipv4_block 192 52 193 24,
      ipv4_block 192 175 48 24, ipv4_block 198 18 0 15, ipv4_block 198 51 100 24,
      ipv4_block 203 0 113 24]"

definition special_ipv6_blocks :: "(nat \<times> nat) list" where
  "special_ipv6_blocks =
     [ipv6_block 0x2001 0 0 23, ipv6_block 0x2001 0x0db8 0 32, ipv6_block 0x2002 0 0 16,
      ipv6_block 0x2620 0x004f 0x8000 48, ipv6_block 0x3ffe 0 0 16, ipv6_block 0x3fff 0 0 20]"

definition global_unicast_ipv6 :: "nat \<times> nat" where
  "global_unicast_ipv6 = ipv6_block 0x2000 0 0 3"

text \<open>Leading parts of two numbers agree when the parts do.\<close>

lemma horner_div_inject:
  assumes "b < e * d" "b' < e * d" "0 < (d :: nat)"
  shows "(a * (e * d) + b) div d = (a' * (e * d) + b') div d \<longleftrightarrow> a = a' \<and> b div d = b' div d"
proof -
  have parts: "(x * (e * d) + y) div d = x * e + y div d" for x y
    using assms(3) div_mult_self2 [of d y "x * e"] by (simp add: ac_simps)
  have bounds: "b div d < e" "b' div d < e"
    using assms by (simp_all add: div_less_iff_less_mult)
  have "x * e + y = x' * e + y' \<longleftrightarrow> x = x' \<and> y = y'" if "y < e" "y' < e" for x y x' y'
    using that by (metis add.commute add_diff_cancel_left' div_mult_self3 div_less add_cancel_right_left
        less_nat_zero_code mult_eq_0_iff gr_implies_not_zero)
  then show ?thesis
    unfolding parts using bounds by blast
qed

lemma horner_inject:
  "b < B \<Longrightarrow> b' < (B :: nat) \<Longrightarrow> a * B + b = a' * B + b' \<longleftrightarrow> a = a' \<and> b = b'"
  using horner_div_inject [of b B 1 b' a a'] by simp

lemma horner_div: "r < m \<Longrightarrow> (q * m + r) div m = (q :: nat)"
  by simp

lemma ipv4_num_prefix:
  assumes "b < 256" "c < 256" "d < 256"
  shows "ipv4_num a b c d div 2 ^ 8 = (a * 256 + b) * 256 + c"
    and "ipv4_num a b c d div 2 ^ (16 + k) = (a * 256 + b) div 2 ^ k"
    and "ipv4_num a b c d div 2 ^ (24 + k) = a div 2 ^ k"
proof -
  have "ipv4_num a b c d div 256 = (a * 256 + b) * 256 + c"
    unfolding ipv4_num_def by (rule horner_div [OF assms(3)])
  then show e8: "ipv4_num a b c d div 2 ^ 8 = (a * 256 + b) * 256 + c"
    by simp
  have e16: "ipv4_num a b c d div 2 ^ 16 = a * 256 + b"
  proof -
    have "ipv4_num a b c d div 2 ^ 16 = ipv4_num a b c d div 2 ^ 8 div 2 ^ 8"
      by (simp only: div_mult2_eq [symmetric] power_add [symmetric]) simp
    then show ?thesis
      using horner_div [OF assms(2), of "a * 256 + b"] by (simp only: e8) simp
  qed
  then show "ipv4_num a b c d div 2 ^ (16 + k) = (a * 256 + b) div 2 ^ k"
    by (simp only: power_add div_mult2_eq)
  have e24: "ipv4_num a b c d div 2 ^ 24 = a"
  proof -
    have "ipv4_num a b c d div 2 ^ 24 = ipv4_num a b c d div 2 ^ 16 div 2 ^ 8"
      by (simp only: div_mult2_eq [symmetric] power_add [symmetric]) simp
    then show ?thesis
      using horner_div [OF assms(1), of a] by (simp only: e16) simp
  qed
  then show "ipv4_num a b c d div 2 ^ (24 + k) = a div 2 ^ k"
    by (simp only: power_add div_mult2_eq)
qed

lemma ipv4_block_iff:
  assumes "b < 256" "c < 256" "d < 256" "b' < 256" "c' < 256"
  shows "in_block 32 (ipv4_num a b c d) (ipv4_block a' 0 0 8) \<longleftrightarrow> a = a'"
    and "in_block 32 (ipv4_num a b c d) (ipv4_block a' b' 0 16) \<longleftrightarrow> a = a' \<and> b = b'"
    and "in_block 32 (ipv4_num a b c d) (ipv4_block a' b' c' 24) \<longleftrightarrow> a = a' \<and> b = b' \<and> c = c'"
    and "in_block 32 (ipv4_num a b c d) (ipv4_block a' 0 0 3) \<longleftrightarrow> a div 32 = a' div 32"
    and "in_block 32 (ipv4_num a b c d) (ipv4_block a' b' 0 10) \<longleftrightarrow> a = a' \<and> b div 64 = b' div 64"
    and "in_block 32 (ipv4_num a b c d) (ipv4_block a' b' 0 12) \<longleftrightarrow> a = a' \<and> b div 16 = b' div 16"
    and "in_block 32 (ipv4_num a b c d) (ipv4_block a' b' 0 15) \<longleftrightarrow> a = a' \<and> b div 2 = b' div 2"
proof -
  have blk: "in_block 32 (ipv4_num a b c d) (ipv4_block p q r len) \<longleftrightarrow>
      ipv4_num a b c d div 2 ^ (32 - len) = ipv4_num p q r 0 div 2 ^ (32 - len)" for p q r len
    by (simp add: in_block_def ipv4_block_def)
  note x = ipv4_num_prefix [OF assms(1,2,3), of a] and y = ipv4_num_prefix [of b' 0 0 a']
    and y0 = ipv4_num_prefix [of 0 0 0 a'] and yc = ipv4_num_prefix [of b' c' 0 a']
  show "in_block 32 (ipv4_num a b c d) (ipv4_block a' 0 0 8) \<longleftrightarrow> a = a'"
    unfolding blk using x(3) [of 0] y0(3) [of 0] by simp
  show "in_block 32 (ipv4_num a b c d) (ipv4_block a' b' 0 16) \<longleftrightarrow> a = a' \<and> b = b'"
    unfolding blk using x(2) [of 0] y(2) [of 0] horner_inject [of b 256 b' a a'] assms by simp
  show "in_block 32 (ipv4_num a b c d) (ipv4_block a' b' c' 24) \<longleftrightarrow> a = a' \<and> b = b' \<and> c = c'"
    unfolding blk
    using x(1) yc(1) horner_inject [of b 256 b' a a']
      horner_inject [of c 256 c' "a * 256 + b" "a' * 256 + b'"] assms by simp
  show "in_block 32 (ipv4_num a b c d) (ipv4_block a' 0 0 3) \<longleftrightarrow> a div 32 = a' div 32"
    unfolding blk using x(3) [of 5] y0(3) [of 5] by simp
  show "in_block 32 (ipv4_num a b c d) (ipv4_block a' b' 0 10) \<longleftrightarrow> a = a' \<and> b div 64 = b' div 64"
    unfolding blk using x(2) [of 6] y(2) [of 6] horner_div_inject [of b 4 64 b' a a'] assms by simp
  show "in_block 32 (ipv4_num a b c d) (ipv4_block a' b' 0 12) \<longleftrightarrow> a = a' \<and> b div 16 = b' div 16"
    unfolding blk using x(2) [of 4] y(2) [of 4] horner_div_inject [of b 16 16 b' a a'] assms by simp
  show "in_block 32 (ipv4_num a b c d) (ipv4_block a' b' 0 15) \<longleftrightarrow> a = a' \<and> b div 2 = b' div 2"
    unfolding blk using x(2) [of 1] y(2) [of 1] horner_div_inject [of b 128 2 b' a a'] assms by simp
qed

lemma is_public_ipv4_blocks:
  "is_public_ipv4 a \<longleftrightarrow> \<not> list_ex (in_block 32 (ipv4_value a)) special_ipv4_blocks"
proof -
  obtain w1 w2 w3 w4 where a: "a = Ipv4Addr w1 w2 w3 w4"
    by (cases a)
  note blk = ipv4_block_iff [OF unat_u8_less [of w2] unat_u8_less [of w3] unat_u8_less [of w4]]
  have zero: "0 < (256 :: nat)" by simp
  note blocks = blk(1,4) [OF zero zero] blk(2,5,6,7) [OF _ zero] blk(3)
  have r: "unat w1 div 32 = 7 \<longleftrightarrow> 224 \<le> unat w1" "unat w2 div 64 = Suc 0 \<longleftrightarrow> 64 \<le> unat w2 \<and> unat w2 \<le> 127"
    "unat w2 div 16 = Suc 0 \<longleftrightarrow> 16 \<le> unat w2 \<and> unat w2 \<le> 31" "unat w2 div 2 = 9 \<longleftrightarrow> unat w2 = 18 \<or> unat w2 = 19"
    using unat_u8_less [of w1] by arith+
  show ?thesis
    unfolding a ipv4_value.simps special_ipv4_blocks_def list_ex_iff
    by (simp add: blocks r word_unat_eq_iff word_le_nat_alt Let_def del: neq0_conv)
qed

lemma ipv6_num_prefix:
  assumes "s1 < 65536" "s2 < 65536" "t < 2 ^ 80"
  shows "ipv6_num s0 s1 s2 t div 2 ^ 80 = (s0 * 65536 + s1) * 65536 + s2"
    and "ipv6_num s0 s1 s2 t div 2 ^ (96 + k) = (s0 * 65536 + s1) div 2 ^ k"
    and "ipv6_num s0 s1 s2 t div 2 ^ (112 + k) = s0 div 2 ^ k"
proof -
  show e80: "ipv6_num s0 s1 s2 t div 2 ^ 80 = (s0 * 65536 + s1) * 65536 + s2"
    unfolding ipv6_num_def by (rule horner_div [OF assms(3)])
  have e96: "ipv6_num s0 s1 s2 t div 2 ^ 96 = s0 * 65536 + s1"
  proof -
    have "ipv6_num s0 s1 s2 t div 2 ^ 96 = ipv6_num s0 s1 s2 t div 2 ^ 80 div 2 ^ 16"
      by (simp only: div_mult2_eq [symmetric] power_add [symmetric]) simp
    then show ?thesis
      using horner_div [OF assms(2), of "s0 * 65536 + s1"] by (simp only: e80) simp
  qed
  then show "ipv6_num s0 s1 s2 t div 2 ^ (96 + k) = (s0 * 65536 + s1) div 2 ^ k"
    by (simp only: power_add div_mult2_eq)
  have e112: "ipv6_num s0 s1 s2 t div 2 ^ 112 = s0"
  proof -
    have "ipv6_num s0 s1 s2 t div 2 ^ 112 = ipv6_num s0 s1 s2 t div 2 ^ 96 div 2 ^ 16"
      by (simp only: div_mult2_eq [symmetric] power_add [symmetric]) simp
    then show ?thesis
      using horner_div [OF assms(1), of s0] by (simp only: e96) simp
  qed
  then show "ipv6_num s0 s1 s2 t div 2 ^ (112 + k) = s0 div 2 ^ k"
    by (simp only: power_add div_mult2_eq)
qed

lemma and_high_bits_nat:
  "(n :: nat) AND push_bit k (mask m) = push_bit k (take_bit m (drop_bit k n))"
  by (rule bit_eqI) (auto simp: bit_simps)

lemma and_e000_iff: "(w :: u16) AND 0xe000 = 0x2000 \<longleftrightarrow> unat w div 8192 = 1"
proof -
  have "unat (w AND 0xe000) = push_bit 13 (take_bit 3 (drop_bit 13 (unat w)))"
    using and_high_bits_nat [of "unat w" 13 3]
    by (simp add: unsigned_and_eq push_bit_eq_mult mask_eq_exp_minus_1)
  also have "\<dots> = unat w div 8192 * 8192"
    using unat_u16_less [of w] by (simp add: push_bit_eq_mult take_bit_eq_mod drop_bit_eq_div)
  finally show ?thesis
    by (simp add: word_unat_eq_iff)
qed

lemma and_f000_iff: "(w :: u16) AND 0xf000 = 0 \<longleftrightarrow> unat w div 4096 = 0"
proof -
  have "unat (w AND 0xf000) = push_bit 12 (take_bit 4 (drop_bit 12 (unat w)))"
    using and_high_bits_nat [of "unat w" 12 4]
    by (simp add: unsigned_and_eq push_bit_eq_mult mask_eq_exp_minus_1)
  also have "\<dots> = unat w div 4096 * 4096"
    using unat_u16_less [of w] by (simp add: push_bit_eq_mult take_bit_eq_mod drop_bit_eq_div)
  finally show ?thesis
    by (simp add: word_unat_eq_iff)
qed

lemma ipv6_block_iff:
  assumes "s1 < 65536" "s2 < 65536" "t < 2 ^ 80" "b < 65536" "c < 65536"
  shows "in_block 128 (ipv6_num s0 s1 s2 t) (ipv6_block a 0 0 3) \<longleftrightarrow> s0 div 8192 = a div 8192"
    and "in_block 128 (ipv6_num s0 s1 s2 t) (ipv6_block a b 0 23) \<longleftrightarrow> s0 = a \<and> s1 div 512 = b div 512"
    and "in_block 128 (ipv6_num s0 s1 s2 t) (ipv6_block a b 0 32) \<longleftrightarrow> s0 = a \<and> s1 = b"
    and "in_block 128 (ipv6_num s0 s1 s2 t) (ipv6_block a 0 0 16) \<longleftrightarrow> s0 = a"
    and "in_block 128 (ipv6_num s0 s1 s2 t) (ipv6_block a b c 48) \<longleftrightarrow> s0 = a \<and> s1 = b \<and> s2 = c"
    and "in_block 128 (ipv6_num s0 s1 s2 t) (ipv6_block a b 0 20) \<longleftrightarrow> s0 = a \<and> s1 div 4096 = b div 4096"
proof -
  have blk: "in_block 128 (ipv6_num s0 s1 s2 t) (ipv6_block p q r len) \<longleftrightarrow>
      ipv6_num s0 s1 s2 t div 2 ^ (128 - len) = ipv6_num p q r 0 div 2 ^ (128 - len)" for p q r len
    by (simp add: in_block_def ipv6_block_def)
  note x = ipv6_num_prefix [OF assms(1,2,3), of s0] and y = ipv6_num_prefix [of b 0 0 a]
    and y0 = ipv6_num_prefix [of 0 0 0 a] and yc = ipv6_num_prefix [of b c 0 a]
  show "in_block 128 (ipv6_num s0 s1 s2 t) (ipv6_block a 0 0 3) \<longleftrightarrow> s0 div 8192 = a div 8192"
    unfolding blk using x(3) [of 13] y0(3) [of 13] by simp
  show "in_block 128 (ipv6_num s0 s1 s2 t) (ipv6_block a b 0 23) \<longleftrightarrow> s0 = a \<and> s1 div 512 = b div 512"
    unfolding blk using x(2) [of 9] y(2) [of 9] horner_div_inject [of s1 128 512 b s0 a] assms by simp
  show "in_block 128 (ipv6_num s0 s1 s2 t) (ipv6_block a b 0 32) \<longleftrightarrow> s0 = a \<and> s1 = b"
    unfolding blk using x(2) [of 0] y(2) [of 0] horner_inject [of s1 65536 b s0 a] assms by simp
  show "in_block 128 (ipv6_num s0 s1 s2 t) (ipv6_block a 0 0 16) \<longleftrightarrow> s0 = a"
    unfolding blk using x(3) [of 0] y0(3) [of 0] by simp
  show "in_block 128 (ipv6_num s0 s1 s2 t) (ipv6_block a b c 48) \<longleftrightarrow> s0 = a \<and> s1 = b \<and> s2 = c"
    unfolding blk using x(1) yc(1) horner_inject [of s1 65536 b s0 a]
      horner_inject [of s2 65536 c "s0 * 65536 + s1" "a * 65536 + b"] assms by simp
  show "in_block 128 (ipv6_num s0 s1 s2 t) (ipv6_block a b 0 20) \<longleftrightarrow> s0 = a \<and> s1 div 4096 = b div 4096"
    unfolding blk using x(2) [of 12] y(2) [of 12] horner_div_inject [of s1 16 4096 b s0 a] assms by simp
qed

lemma horner_bound: "a < m \<Longrightarrow> b < n \<Longrightarrow> a * n + b < m * (n :: nat)"
proof -
  assume "a < m" "b < n"
  then have "a * n + b < Suc a * n" by simp
  also have "\<dots> \<le> m * n" using \<open>a < m\<close> by (intro mult_le_mono1) simp
  finally show ?thesis .
qed

lemma is_public_ipv6_blocks:
  "is_public_ipv6 a \<longleftrightarrow> in_block 128 (ipv6_value a) global_unicast_ipv6 \<and>
     \<not> list_ex (in_block 128 (ipv6_value a)) special_ipv6_blocks"
proof -
  obtain w0 w1 w2 w3 w4 w5 w6 w7 where a: "a = Ipv6Addr w0 w1 w2 w3 w4 w5 w6 w7"
    by (cases a)
  define t where "t = (((unat w3 * 65536 + unat w4) * 65536 + unat w5) * 65536 + unat w6) * 65536 + unat w7"
  have "t < (((65536 * 65536) * 65536) * 65536) * 65536"
    unfolding t_def by (intro horner_bound unat_u16_less)
  then have t: "t < 2 ^ 80" by simp
  have v: "ipv6_value a = ipv6_num (unat w0) (unat w1) (unat w2) t"
    by (simp add: a t_def)
  note blk = ipv6_block_iff [OF unat_u16_less [of w1] unat_u16_less [of w2] t]
  have zero: "0 < (65536 :: nat)" by simp
  note blocks = blk(1,4) [OF zero zero] blk(2,3,6) [OF _ zero] blk(5)
  have r: "unat w1 div 512 = 0 \<longleftrightarrow> unat w1 \<le> 511"
    by arith
  show ?thesis
    unfolding special_ipv6_blocks_def global_unicast_ipv6_def list_ex_iff v
    unfolding a is_public_ipv6.simps and_e000_iff and_f000_iff
    by (simp add: blocks r word_unat_eq_iff word_le_nat_alt Let_def)
qed

section \<open>Reading answers\<close>

lemma parse_provider_response_sound:
  "parse_provider_response response family = Inr a \<Longrightarrow>
     family_matches family a \<and> is_public_address a \<and> length response \<le> MAX_RESPONSE_BYTES"
  by (auto simp: parse_provider_response_def bind_res_Inr_iff split: if_splits)

lemma show_base_ascii: "c \<in> set (show_base b n) \<Longrightarrow> 2 \<le> b \<Longrightarrow> b \<le> 16 \<Longrightarrow> is_ascii c \<and> \<not> is_whitespace [c]"
proof -
  assume c: "c \<in> set (show_base b n)" and b: "2 \<le> b" "b \<le> 16"
  obtain ds where ds: "show_base b n = map digit_char ds" "\<forall>d \<in> set ds. d < b"
    using show_base_digits [of b n] b by auto
  from c ds(1) obtain d where d: "d \<in> set ds" "c = digit_char d"
    by auto
  with ds(2) b have "d < 16"
    by fastforce
  with d(2) show ?thesis
    by (cases "d < 10") (simp_all add: is_ascii_def is_whitespace_def byte_digit_char byte_digit_char_hex)
qed

definition visible_ascii :: "string \<Rightarrow> bool" where
  "visible_ascii s \<longleftrightarrow> list_all (\<lambda>c. is_ascii c \<and> \<not> is_whitespace [c]) s"

lemma visible_ascii_append [simp]: "visible_ascii (s @ t) \<longleftrightarrow> visible_ascii s \<and> visible_ascii t"
  by (simp add: visible_ascii_def)

lemma visible_ascii_Cons [simp]:
  "visible_ascii (c # s) \<longleftrightarrow> is_ascii c \<and> \<not> is_whitespace [c] \<and> visible_ascii s"
  by (simp add: visible_ascii_def)

lemma visible_ascii_Nil [simp]: "visible_ascii []"
  by (simp add: visible_ascii_def)

lemma visible_ascii_show_base [simp]: "2 \<le> b \<Longrightarrow> b \<le> 16 \<Longrightarrow> visible_ascii (show_base b n)"
  using show_base_ascii [of _ b n] by (auto simp: visible_ascii_def list_all_iff)

lemma visible_ascii_join:
  "visible_ascii sep \<Longrightarrow> \<forall>x \<in> set xs. visible_ascii x \<Longrightarrow> visible_ascii (str_join sep xs)"
  by (induction sep xs rule: str_join.induct) auto

lemma visible_ascii_show_ip: "visible_ascii (show_ip a)"
proof -
  have sep: "visible_ascii ''.''" "visible_ascii '':''" "visible_ascii ''::''" "visible_ascii ''::ffff:''"
    by (simp_all add: is_ascii_def is_whitespace_def)
  have n: "visible_ascii (show_nat k)" "visible_ascii (show_hex k)" for k
    by (simp_all add: show_nat_def show_hex_def)
  have "visible_ascii (show_groups gs)" for gs
    unfolding show_groups_def using sep n by (intro visible_ascii_join) auto
  moreover have "visible_ascii (str_join ''.'' (map f ks))" if "\<And>k. visible_ascii (f k)" for f ks
    using sep that by (intro visible_ascii_join) auto
  ultimately have "visible_ascii (show_segments gs)" for gs
    unfolding show_segments_def using sep n by (simp add: is_ascii_def is_whitespace_def split: prod.split)
  moreover have "visible_ascii (show_ipv4 x)" for x
    unfolding show_ipv4_def using sep n by (intro visible_ascii_join) auto
  ultimately show ?thesis
    by (cases a) (simp_all add: show_ipv6_def)
qed

lemma trim_visible_ascii: "visible_ascii s \<Longrightarrow> trim s = s"
proof -
  assume v: "visible_ascii s"
  then have c: "chars s = map (\<lambda>c. [c]) s"
    by (intro chars_ascii) (auto simp: visible_ascii_def list_all_iff)
  have "dropWhile is_whitespace (map (\<lambda>c. [c]) t) = map (\<lambda>c. [c]) t" if "visible_ascii t" for t
    using that by (cases t) auto
  moreover have "visible_ascii (rev s)"
    using v by (simp add: visible_ascii_def list_all_iff)
  ultimately have "trim_chars (chars s) = chars s"
    using v by (simp add: trim_chars_def c rev_map)
  then show ?thesis
    by (simp add: trim_def)
qed

lemma parse_ip_Nil [simp]: "parse_ip [] = None"
  by (simp add: parse_ip_def read_ipv6_addr_def read_groups_stop ends_groups_def)

lemma show_ip_not_Nil [simp]: "show_ip a \<noteq> []"
  using parse_ip_show_ip [of a] by (metis option.distinct(1) parse_ip_Nil)

section \<open>Discovery: results, requests and deadlines\<close>

lemma trim_surrounded:
  assumes "list_all (\<lambda>c. is_ascii c \<and> is_whitespace [c]) pre"
    and "list_all (\<lambda>c. is_ascii c \<and> is_whitespace [c]) post"
    and "visible_ascii s" and "s \<noteq> []"
  shows "trim (pre @ s @ post) = s"
proof -
  let ?g = "map (\<lambda>c. [c])"
  have c: "chars (pre @ s @ post) = ?g pre @ ?g s @ ?g post"
    using assms by (subst chars_ascii) (auto simp: visible_ascii_def list_all_iff)
  have drop: "dropWhile is_whitespace (?g ws @ xs) = dropWhile is_whitespace xs"
    if "list_all (\<lambda>c. is_ascii c \<and> is_whitespace [c]) ws" for ws xs
    using that by (induction ws) auto
  have stop: "dropWhile is_whitespace (?g t @ xs) = ?g t @ xs" if "visible_ascii t" "t \<noteq> []" for t xs
    using that by (cases t) auto
  have rs: "visible_ascii (rev s)" "list_all (\<lambda>c. is_ascii c \<and> is_whitespace [c]) (rev post)"
    using assms by (simp_all add: visible_ascii_def list_all_iff)
  have "trim_chars (chars (pre @ s @ post)) = ?g s"
    using drop [OF assms(1)] drop [OF rs(2)] stop [OF assms(3,4)] stop [OF rs(1), of "[]"] assms(4)
    by (simp add: trim_chars_def c rev_map)
  then show ?thesis by (simp add: trim_def)
qed

lemma parse_provider_response_plain:
  assumes "list_all (\<lambda>c. is_ascii c \<and> is_whitespace [c]) pre"
    and "list_all (\<lambda>c. is_ascii c \<and> is_whitespace [c]) post"
    and "length (pre @ show_ip a @ post) \<le> MAX_RESPONSE_BYTES"
    and "family_matches family a" and "is_public_address a"
  shows "parse_provider_response (pre @ show_ip a @ post) family = Inr a"
  using assms trim_surrounded [OF assms(1,2) visible_ascii_show_ip show_ip_not_Nil]
  by (simp add: parse_provider_response_def response_candidate_def)

lemma parse_provider_response_trace:
  assumes "lines response = before @ (''ip='' @ show_ip a) # after"
    and "\<forall>line \<in> set (before @ after). strip_prefix ''ip='' (trim line) = None"
    and "parse_ip (trim response) = None" and "trim response \<noteq> []"
    and "length response \<le> MAX_RESPONSE_BYTES"
    and "family_matches family a" and "is_public_address a"
  shows "parse_provider_response response family = Inr a"
proof -
  have v: "visible_ascii (''ip='' @ show_ip a)"
    using visible_ascii_show_ip [of a] by (simp add: is_ascii_def is_whitespace_def)
  have "strip_prefix ''ip='' (trim (''ip='' @ show_ip a)) = Some (show_ip a)"
    unfolding trim_visible_ascii [OF v] by (simp add: strip_prefix_def)
  moreover have "List.map_filter (\<lambda>line. case strip_prefix ''ip='' (trim line) of
        None \<Rightarrow> None | Some v \<Rightarrow> if trim v = [] then None else Some (trim v)) ls = []"
    if "\<forall>line \<in> set ls. strip_prefix ''ip='' (trim line) = None" for ls
    using that by (induction ls) (simp_all add: List.map_filter_simps)
  ultimately have "trace_ip_values response = [show_ip a]"
    using assms(1,2) trim_visible_ascii [OF visible_ascii_show_ip [of a]]
    by (simp add: trace_ip_values_def List.map_filter_def)
  then show ?thesis
    using assms by (simp add: parse_provider_response_def response_candidate_def)
qed

lemma query_provider_frame [frame_rules]:
  assumes "query_provider env p family s = (x, s')"
  shows "\<exists>e. trace s' = e # trace s \<and> le_request e = get_request (ProviderUrl p) [] \<and>
      le_start e = now env s \<and> le_end e = now env s'"
    and "timers s' = timers s" "zone_cache s' = zone_cache s" "record_cursor s' = record_cursor s"
    and "mutation_in_flight (control s') = mutation_in_flight (control s)"
    and "x \<noteq> Dropped \<Longrightarrow> world s' = end_world env (timers s) (get_request (ProviderUrl p) []) (world s)"
proof -
  obtain y where y: "await env (get_request (ProviderUrl p) []) s = (y, s')" "x \<noteq> Dropped \<longrightarrow> y \<noteq> Dropped"
    using assms unfolding query_provider_def by (elim bind_io_cases) (auto simp: ret_def)
  note f = await_frame [OF y(1)]
  show "\<exists>e. trace s' = e # trace s \<and> le_request e = get_request (ProviderUrl p) [] \<and>
      le_start e = now env s \<and> le_end e = now env s'"
    using f(5) by blast
  show "timers s' = timers s" "zone_cache s' = zone_cache s" "record_cursor s' = record_cursor s"
    "mutation_in_flight (control s') = mutation_in_flight (control s)"
    by (rule f)+
  show "x \<noteq> Dropped \<Longrightarrow> world s' = end_world env (timers s) (get_request (ProviderUrl p) []) (world s)"
    using y await_world by blast
qed

lemma query_provider_sound:
  "query_provider env p family s = (Done (Inr a), s') \<Longrightarrow> family_matches family a \<and> is_public_address a"
proof -
  assume "query_provider env p family s = (Done (Inr a), s')"
  then obtain r where r: "(case r of Inl e \<Rightarrow> Inl (Request e)
        | Inr response \<Rightarrow>
            bind_res (provider_body response) (\<lambda>body. parse_provider_response body family)) = Inr a"
    by (auto simp: query_provider_def bind_io_Done_iff ret_def)
  then show ?thesis
    by (cases r) (auto simp: bind_res_Inr_iff dest: parse_provider_response_sound)
qed

definition attempt_deadline :: "'w env \<Rightarrow> public_ip_client \<Rightarrow> instant \<Rightarrow> string list \<Rightarrow> 'w sys \<Rightarrow> duration" where
  "attempt_deadline env client started providers s =
     now env s + (pc_timeout client - (now env s - started)) div providers_left (length providers)"

definition failure_of :: "'w env \<Rightarrow> string \<Rightarrow> (ip_addr, provider_error) result option \<Rightarrow> provider_failure" where
  "failure_of env provider outcome = \<lparr>pf_provider = redact_provider_url (ev_parse_url env) provider,
     pf_error = (case outcome of Some (Inl e) \<Rightarrow> e | _ \<Rightarrow> ProviderTimedOut)\<rparr>"

lemma discover_from_Cons:
  assumes "discover_from env client family started (p # ps) fs s = (r, s')"
  obtains (late) "(pc_timeout client - (now env s - started)) div providers_left (length (p # ps)) = 0"
      "r = Done (Inl (DeadlineExceeded family fs))" "s' = s"
    | (cut) x where
      "timeout_at (attempt_deadline env client started (p # ps) s) (query_provider env p family) s = (x, s')"
      "\<nexists>y. x = Done y" "\<nexists>y. r = Done y"
    | (found) a where
      "timeout_at (attempt_deadline env client started (p # ps) s) (query_provider env p family) s = (Done (Some (Inr a)), s')"
      "r = Done (Inr a)"
      "(pc_timeout client - (now env s - started)) div providers_left (length (p # ps)) \<noteq> 0"
    | (failed) outcome t where
      "(pc_timeout client - (now env s - started)) div providers_left (length (p # ps)) \<noteq> 0"
      "timeout_at (attempt_deadline env client started (p # ps) s) (query_provider env p family) s = (Done outcome, t)"
      "\<nexists>a. outcome = Some (Inr a)"
      "discover_from env client family started ps (fs @ [failure_of env p outcome]) t = (r, s')"
proof -
  let ?left = "(pc_timeout client - (now env s - started)) div providers_left (length (p # ps))"
  let ?q = "timeout_at (attempt_deadline env client started (p # ps) s) (query_provider env p family) s"
  show ?thesis
  proof (cases "?left = 0")
    case True
    then show ?thesis
      using assms late by (auto simp: async_simps Let_def split: if_splits)
  next
    case False
    then have rem: "pc_timeout client - (now env s - started) \<noteq> 0"
      by (metis div_0)
    obtain x t where q: "?q = (x, t)" by (cases ?q)
    have "(r, s') = bind_io (timeout_at (attempt_deadline env client started (p # ps) s)
          (query_provider env p family)) (\<lambda>outcome. case outcome of
            Some (Inr a) \<Rightarrow> ret (Inr a)
          | _ \<Rightarrow> discover_from env client family started ps (fs @ [failure_of env p outcome])) s"
      using False rem assms
      by (simp add: async_simps Let_def attempt_deadline_def failure_of_def
          cong: option.case_cong sum.case_cong)
    then have eq: "(r, s') = (case x of Done outcome \<Rightarrow> (case outcome of
            Some (Inr a) \<Rightarrow> ret (Inr a) t
          | _ \<Rightarrow> discover_from env client family started ps (fs @ [failure_of env p outcome]) t)
        | Expired n \<Rightarrow> (Expired n, t) | Dropped \<Rightarrow> (Dropped, t))"
      using q by (simp add: bind_io_def split: fut.split option.split sum.split)
    show ?thesis
    proof (cases x)
      case (Done outcome)
      then show ?thesis
        using q eq False found failed
        by (cases "\<exists>a. outcome = Some (Inr a)") (auto simp: ret_def split: option.splits sum.splits)
    qed (use q eq cut in auto)
  qed
qed

lemma timeout_at_query:
  assumes "timeout_at d (query_provider env p family) s = (x, s')"
  shows "\<exists>e. trace s' = e # trace s \<and> le_request e = get_request (ProviderUrl p) []"
    and "timers s' = timers s"
    and "x \<noteq> Dropped \<Longrightarrow> world s' = end_world env (d # timers s) (get_request (ProviderUrl p) []) (world s)"
proof -
  obtain y t where t: "query_provider env p family (s\<lparr>timers := d # timers s\<rparr>) = (y, t)"
    "s' = t\<lparr>timers := timers s\<rparr>" "x \<noteq> Dropped \<longrightarrow> y \<noteq> Dropped"
    using assms by (auto simp: timeout_at_def split: prod.splits fut.splits)
  show "\<exists>e. trace s' = e # trace s \<and> le_request e = get_request (ProviderUrl p) []"
    using query_provider_frame(1) [OF t(1)] t(2) by auto
  show "timers s' = timers s"
    using t(2) by simp
  show "x \<noteq> Dropped \<Longrightarrow> world s' = end_world env (d # timers s) (get_request (ProviderUrl p) []) (world s)"
    using query_provider_frame(6) [OF t(1)] t(2,3) by simp
qed

lemma discover_from_sound:
  "discover_from env client family started ps fs s = (Done (Inr a), s') \<Longrightarrow>
     family_matches family a \<and> is_public_address a"
proof (induction ps arbitrary: fs s)
  case Nil
  then show ?case by (simp add: ret_def)
next
  case (Cons p ps)
  from Cons.prems show ?case
    by (cases rule: discover_from_Cons)
       (auto elim!: timeout_at_Done dest: query_provider_sound Cons.IH)
qed

definition redacted :: "'w env \<Rightarrow> string list \<Rightarrow> string list" where
  "redacted env providers = map (redact_provider_url (ev_parse_url env)) providers"

lemma discover_from_failures:
  "discover_from env client family started ps fs s = (Done (Inl err), s') \<Longrightarrow>
     (\<exists>new. err = AllProvidersFailed family (fs @ new) \<and> map pf_provider new = redacted env ps) \<or>
     (\<exists>new. err = DeadlineExceeded family (fs @ new) \<and> length new < length ps \<and>
        map pf_provider new = take (length new) (redacted env ps))"
proof (induction ps arbitrary: fs s)
  case Nil
  then show ?case by (auto simp: ret_def redacted_def)
next
  case (Cons p ps)
  from Cons.prems show ?case
  proof (cases rule: discover_from_Cons)
    case late
    then show ?thesis by (intro disjI2 exI [of _ "[]"]) simp
  next
    case (failed outcome t)
    have "pf_provider (failure_of env p outcome) = redact_provider_url (ev_parse_url env) p"
      by (simp add: failure_of_def)
    then show ?thesis
      using Cons.IH [OF failed(4)]
      by (elim disjE exE) (force simp: redacted_def intro: exI [of _ "failure_of env p outcome # _"])+
  qed auto
qed

lemma discover_from_requests:
  "discover_from env client family started ps fs s = (r, s') \<Longrightarrow>
     \<exists>k. k \<le> length ps \<and> map le_request (trace s') =
       rev (map (\<lambda>p. get_request (ProviderUrl p) []) (take k ps)) @ map le_request (trace s)"
proof (induction ps arbitrary: fs s)
  case Nil
  then show ?case by (simp add: ret_def)
next
  case (Cons p ps)
  have one: "\<exists>k. k \<le> length (p # ps) \<and> map le_request (trace s') =
       rev (map (\<lambda>p. get_request (ProviderUrl p) []) (take k (p # ps))) @ map le_request (trace s)"
    if "timeout_at d (query_provider env p family) s = (x, s')" for d x
    using timeout_at_query(1) [OF that] by (auto intro!: exI [of _ "Suc 0"])
  from Cons.prems show ?case
  proof (cases rule: discover_from_Cons)
    case late
    then show ?thesis by (intro exI [of _ 0]) simp
  next
    case (failed outcome t)
    obtain k where k: "k \<le> length ps" "map le_request (trace s') =
       rev (map (\<lambda>p. get_request (ProviderUrl p) []) (take k ps)) @ map le_request (trace t)"
      using Cons.IH [OF failed(4)] by blast
    then show ?thesis
      using timeout_at_query(1) [OF failed(2)] by (intro exI [of _ "Suc k"]) auto
  qed (use one in blast)+
qed

lemma providers_left_pos: "0 < n \<Longrightarrow> 0 < providers_left n"
  by (simp add: providers_left_def)

text \<open>An attempt that its own deadline cuts was given all its time.\<close>

lemma attempt_entry:
  assumes "faithful_timers env" and "timeout_at d (query_provider env p family) s = (Done y, t)"
  shows "\<exists>e. trace t = e # trace s \<and> le_start e = now env s \<and> (le_fate e = TimedOut \<longrightarrow> d \<le> le_end e)"
proof -
  let ?s = "s\<lparr>timers := d # timers s\<rparr>" and ?g = "get_request (ProviderUrl p) []"
  obtain x u where u: "query_provider env p family ?s = (x, u)" "trace t = trace u" "\<forall>n. x = Expired n \<longrightarrow> n = 0" "x \<noteq> Dropped"
    using assms(2) by (auto simp: timeout_at_def split: prod.splits fut.splits nat.splits)
  obtain z where z: "await env ?g ?s = (z, u)" "\<forall>n. z = Expired n \<longrightarrow> n = 0" "z \<noteq> Dropped"
    using u(1,3,4) unfolding query_provider_def by (auto elim!: bind_io_cases simp: ret_def)
  have "d \<le> ev_clock env w'" if "ev_expires env (d # timers s) ?g (world s) = Some (0, w')" for w'
    using assms(1) that unfolding faithful_timers_def by (metis length_greater_0_conv list.discI nth_Cons_0)
  then show ?thesis
    using z unfolding u(2)
    by (auto simp: await_def complete_request_def log_request_def now_def note_signal_def
        split: option.splits prod.splits if_splits)
qed

text \<open>
  The shares. While \<open>k + 1\<close> providers are left, the remaining time covers a share for each of them
  and the lateness of an attempt for each pair; the next attempt keeps that true for the \<open>k\<close> others.
\<close>

lemma share_kept:
  assumes "Suc k * (share + Suc k * \<delta>) \<le> (rem :: nat)" and "e \<le> rem div Suc k + \<delta>"
  shows "k * (share + k * \<delta>) \<le> rem - e" and "share + \<delta> \<le> rem div Suc k"
proof -
  have q: "share + Suc k * \<delta> \<le> rem div Suc k"
    using assms(1) by (metis div_le_mono mult.commute nonzero_mult_div_cancel_right nat.distinct(1))
  then show "share + \<delta> \<le> rem div Suc k" by simp
  have arith: "x \<le> rem - e" if "x + y \<le> z" "q + z \<le> rem" "\<delta> \<le> y" "e \<le> q + \<delta>" for x y z q :: nat
    using that by linarith
  have "k * (share + Suc k * \<delta>) = k * (share + k * \<delta>) + k * \<delta>" by (simp add: algebra_simps)
  then have x: "k * (share + k * \<delta>) + k * \<delta> \<le> k * (rem div Suc k)" using mult_le_mono2 [OF q, of k] by simp
  have r: "rem div Suc k + k * (rem div Suc k) \<le> rem" using times_div_less_eq_dividend [of "Suc k" rem] by simp
  show "k * (share + k * \<delta>) \<le> rem - e"
  proof (cases k)
    case (Suc j)
    then have "\<delta> \<le> k * \<delta>" by simp
    from arith [OF x r this assms(2)] show ?thesis .
  qed simp
qed

lemma attempt_share:
  assumes "started \<le> now env s" and "length (p # ps) < 2 ^ 32"
    and "length (p # ps) * (share + length (p # ps) * \<delta>) \<le> pc_timeout client - (now env s - started)"
  defines "d \<equiv> attempt_deadline env client started (p # ps) s"
  shows "now env s + share + \<delta> \<le> d"
    and "0 < share \<Longrightarrow> (pc_timeout client - (now env s - started)) div providers_left (length (p # ps)) \<noteq> 0"
    and "now env s \<le> t \<Longrightarrow> t \<le> d + \<delta> \<Longrightarrow>
      length ps * (share + length ps * \<delta>) \<le> pc_timeout client - (t - started)"
proof -
  let ?rem = "pc_timeout client - (now env s - started)" and ?k = "length ps"
  have left: "providers_left (length (p # ps)) = Suc ?k"
    using assms(2) by (simp add: providers_left_def)
  have d: "d = now env s + ?rem div Suc ?k" by (simp add: d_def attempt_deadline_def left [simplified])
  have share: "share + \<delta> \<le> ?rem div Suc ?k" using share_kept(2) [of ?k share \<delta> ?rem 0] assms(3) by simp
  then show "now env s + share + \<delta> \<le> d" using d by simp
  show "0 < share \<Longrightarrow> ?rem div providers_left (length (p # ps)) \<noteq> 0" using share unfolding left by linarith
  assume t: "now env s \<le> t" "t \<le> d + \<delta>"
  then have "?k * (share + ?k * \<delta>) \<le> ?rem - (t - now env s)"
    using share_kept(1) [of ?k share \<delta> ?rem "t - now env s"] assms(3) d by simp
  then show "?k * (share + ?k * \<delta>) \<le> pc_timeout client - (t - started)"
    using t(1) assms(1) by simp
qed

lemma attempt_deadline_total:
  assumes "started \<le> now env s" and "now env s \<le> started + pc_timeout client"
  shows "attempt_deadline env client started ps s \<le> started + pc_timeout client"
proof -
  have "(pc_timeout client - (now env s - started)) div providers_left (length ps)
      \<le> pc_timeout client - (now env s - started)"
    by (rule div_le_dividend)
  then show ?thesis
    using assms unfolding attempt_deadline_def by linarith
qed

lemma attempt_clock:
  assumes "late_by env \<delta>" and "monotonic env" and "timeout_at d (query_provider env p family) s = (Done y, t)"
  shows "now env s \<le> now env t" and "now env t \<le> max d (now env s) + \<delta>"
proof -
  have w: "world t = end_world env (d # timers s) (get_request (ProviderUrl p) []) (world s)"
    using timeout_at_query(3) [OF assms(3)] by simp
  show "now env s \<le> now env t"
    using assms(2) unfolding now_def w monotonic_def by blast
  show "now env t \<le> max d (now env s) + \<delta>"
    using assms(1) unfolding w late_by_def now_def by (meson list.set_intros(1))
qed

lemma discover_from_deadline:
  assumes env: "late_by env \<delta>" "monotonic env"
  shows "discover_from env client family started ps fs s = (Done r, s') \<Longrightarrow>
     started \<le> now env s \<Longrightarrow> now env s \<le> started + pc_timeout client + \<delta> \<Longrightarrow>
     now env s' \<le> started + pc_timeout client + \<delta>"
proof (induction ps arbitrary: fs s)
  case Nil
  then show ?case by (simp add: ret_def)
next
  case (Cons p ps)
  let ?d = "attempt_deadline env client started (p # ps) s"
  let ?left = "(pc_timeout client - (now env s - started)) div providers_left (length (p # ps))"
  have step: "now env t \<le> started + pc_timeout client + \<delta> \<and> started \<le> now env t"
    if "timeout_at ?d (query_provider env p family) s = (Done y, t)" "?left \<noteq> 0" for y t
  proof -
    have "pc_timeout client - (now env s - started) \<noteq> 0" using that(2) by (metis div_0)
    then have "now env s \<le> started + pc_timeout client" by linarith
    then show ?thesis
      using attempt_clock [OF env that(1)] attempt_deadline_total [OF Cons.prems(2), of client "p # ps"] Cons.prems(2) by simp
  qed
  from Cons.prems(1) show ?case
  proof (cases rule: discover_from_Cons)
    case late
    then show ?thesis using Cons.prems by simp
  next
    case (failed outcome t)
    then show ?thesis using step [OF failed(2,1)] Cons.IH [OF failed(4)] by blast
  qed (use step in auto)
qed

text \<open>A provider that never answers cannot use up the share of the ones after it.\<close>

lemma discover_from_shares:
  assumes env: "late_by env \<delta>" "monotonic env" "faithful_timers env"
  shows "discover_from env client family started ps fs s = (Done r, s') \<Longrightarrow>
     started \<le> now env s \<Longrightarrow> length ps < 2 ^ 32 \<Longrightarrow>
     length ps * (share + length ps * \<delta>) \<le> pc_timeout client - (now env s - started) \<Longrightarrow> 0 < share \<Longrightarrow>
     (\<forall>f fs'. r \<noteq> Inl (DeadlineExceeded f fs')) \<and>
     (\<exists>new. trace s' = new @ trace s \<and> (\<forall>e \<in> set new. le_fate e = TimedOut \<longrightarrow> le_start e + share \<le> le_end e))"
proof (induction ps arbitrary: fs s)
  case Nil
  then show ?case by (auto simp: ret_def)
next
  case (Cons p ps)
  let ?d = "attempt_deadline env client started (p # ps) s"
  note share = attempt_share [OF Cons.prems(2-4)]
  have entry: "\<exists>e. trace t = e # trace s \<and> (le_fate e = TimedOut \<longrightarrow> le_start e + share \<le> le_end e)"
    if "timeout_at ?d (query_provider env p family) s = (Done y, t)" for y t
    using attempt_entry [OF env(3) that] share(1) by fastforce
  from Cons.prems(1) show ?case
  proof (cases rule: discover_from_Cons)
    case late
    then show ?thesis using share(2) Cons.prems(5) by simp
  next
    case (found a)
    obtain e where "trace s' = [e] @ trace s" "le_fate e = TimedOut \<longrightarrow> le_start e + share \<le> le_end e"
      using entry [OF found(1)] by auto
    then show ?thesis using found(2) by (intro conjI exI [of _ "[e]"]) simp_all
  next
    case (failed outcome t)
    note clock = attempt_clock [OF env(1,2) failed(2)]
    have left: "length ps * (share + length ps * \<delta>) \<le> pc_timeout client - (now env t - started)"
      using share(3) [OF clock(1)] clock(2) share(1) by simp
    obtain e where e: "trace t = e # trace s" "le_fate e = TimedOut \<longrightarrow> le_start e + share \<le> le_end e"
      using entry [OF failed(2)] by blast
    obtain new where "\<forall>f fs'. r \<noteq> Inl (DeadlineExceeded f fs')" "trace s' = new @ trace t"
      "\<forall>e \<in> set new. le_fate e = TimedOut \<longrightarrow> le_start e + share \<le> le_end e"
      using Cons.IH [OF failed(4) _ _ left] clock(1) Cons.prems(2,3,5) by auto
    then show ?thesis using e by (auto intro!: exI [of _ "new @ [e]"])
  qed auto
qed

section \<open>Properties\<close>

text \<open>
  C29: an IPv4 address is accepted for publication exactly when it lies in none of the
  special-purpose blocks (IANA's registry, deprecated relay and documentation ranges,
  multicast and reserved space), read as prefixes of the 32-bit value.
\<close>

theorem ipv4_filter_is_registry:
  "is_public_ipv4 a \<longleftrightarrow> \<not> list_ex (in_block 32 (ipv4_value a)) special_ipv4_blocks"
  by (rule is_public_ipv4_blocks)

text \<open>
  C30: an IPv6 address is accepted exactly when it lies in \<open>2000::/3\<close> and in none of the
  special-purpose blocks inside it, read as prefixes of the 128-bit value.
\<close>

theorem ipv6_filter_is_registry:
  "is_public_ipv6 a \<longleftrightarrow> in_block 128 (ipv6_value a) global_unicast_ipv6 \<and>
     \<not> list_ex (in_block 128 (ipv6_value a)) special_ipv6_blocks"
  by (rule is_public_ipv6_blocks)

text \<open>
  C36: a provider that answers with the text of a public address of the requested family,
  surrounded by any ASCII white space within the size limit, is read back as that address.
\<close>

theorem provider_response_round_trip:
  assumes "list_all (\<lambda>c. is_ascii c \<and> is_whitespace [c]) pre"
    and "list_all (\<lambda>c. is_ascii c \<and> is_whitespace [c]) post"
    and "length (pre @ show_ip a @ post) \<le> MAX_RESPONSE_BYTES"
    and "family_matches family a" and "is_public_address a"
  shows "parse_provider_response (pre @ show_ip a @ post) family = Inr a"
  using assms by (rule parse_provider_response_plain)

theorem provider_response_round_trip_witness:
  "parse_provider_response ('' '' @ show_ip (V4 (Ipv4Addr 8 8 4 4)) @ [CHR 0x0A]) Ipv4
     = Inr (V4 (Ipv4Addr 8 8 4 4))"
  by (rule provider_response_round_trip)
     (simp_all add: is_ascii_def is_whitespace_def show_ipv4_def show_nat_small MAX_RESPONSE_BYTES_def)

text \<open>
  C33: what a finished discovery returns. A success is a public address of the requested
  family. An error names that family and lists the failed providers by their redacted URL in
  configuration order: all of them, or, when the total timeout ran out, the ones tried so far.
\<close>

theorem discover_result:
  assumes "discover env client family providers s = (Done r, s')"
  shows "case r of
      Inr a \<Rightarrow> family_matches family a \<and> is_public_address a
    | Inl (NoProviders f) \<Rightarrow> f = family \<and> providers = []
    | Inl (AllProvidersFailed f fs) \<Rightarrow> f = family \<and> providers \<noteq> [] \<and>
        map pf_provider fs = redacted env providers
    | Inl (DeadlineExceeded f fs) \<Rightarrow> f = family \<and> length fs < length providers \<and>
        map pf_provider fs = take (length fs) (redacted env providers)
    | Inl _ \<Rightarrow> False"
proof (cases "providers = []")
  case True
  with assms show ?thesis
    by (auto simp: discover_def ret_def)
next
  case False
  with assms have "discover_from env client family (now env s) providers [] s = (Done r, s')"
    by (simp add: discover_def async_simps)
  then show ?thesis
    using False by (cases r) (auto dest: discover_from_sound discover_from_failures)
qed

definition sample_script :: "http_request \<Rightarrow> nat \<Rightarrow> (http_response, string) result" where
  "sample_script r w = (if w = 5 then Inl ''refused'' else Inr (ok_response (show_ip (V4 (Ipv4Addr 8 8 4 4)))))"

definition sample_discovery :: "(ip_addr, public_ip_error) result fut \<times> nat sys" where
  "sample_discovery = discover (scripted sample_script)
     \<lparr>pc_timeout = 100\<rparr> Ipv4 [''a'', ''b''] (idle_sys 5)"

lemma from_utf8_visible: "visible_ascii t \<Longrightarrow> from_utf8 t"
  by (auto simp: from_utf8_def visible_ascii_def list_all_iff chars_ascii [unfolded list_all_iff] is_ascii_def)

lemma provider_answer:
  assumes "length (show_ip a) \<le> MAX_RESPONSE_BYTES" and "family_matches family a" and "is_public_address a"
  shows "bind_res (provider_body (ok_response (show_ip a))) (\<lambda>body. parse_provider_response body family) = Inr a"
  using assms parse_provider_response_plain [of "[]" "[]" a family]
  by (simp add: provider_body_def ok_response_def limited_body_def from_utf8_visible visible_ascii_show_ip)

lemma sample_discovery_run: "fst sample_discovery = Done (Inr (V4 (Ipv4Addr 8 8 4 4)))"
proof -
  have len: "length (show_ip (V4 (Ipv4Addr 8 8 4 4))) = 7"
    by (simp add: show_ipv4_def show_nat_small)
  have public: "is_public_address (V4 (Ipv4Addr 8 8 4 4))" by simp
  show ?thesis
    using provider_answer [of "V4 (Ipv4Addr 8 8 4 4)" Ipv4] len public
    by (simp add: sample_discovery_def discover_def async_simps Let_def bind_io_def get_sys_def timeout_at_def
       providers_left_def query_provider_def await_scripted sample_script_def MAX_RESPONSE_BYTES_def
       numeral_2_eq_2 [symmetric])
qed

theorem discover_result_witness:
  "family_matches Ipv4 (V4 (Ipv4Addr 8 8 4 4)) \<and> is_public_address (V4 (Ipv4Addr 8 8 4 4))"
  using discover_result [of "scripted sample_script" "\<lparr>pc_timeout = 100\<rparr>" Ipv4 "[''a'', ''b'']"
      "idle_sys 5" "Inr (V4 (Ipv4Addr 8 8 4 4))" "snd sample_discovery"] sample_discovery_run
  by (cases sample_discovery) (simp add: sample_discovery_def)

text \<open>
  Discovery asks the configured providers in order, one \<open>GET\<close> each and no other
  request, stopping somewhere in the list, also when it is cut by a deadline or dropped.
\<close>

lemma discover_requests:
  assumes "discover env client family providers s = (r, s')"
  shows "\<exists>k \<le> length providers. map le_request (trace s') =
      rev (map (\<lambda>p. get_request (ProviderUrl p) []) (take k providers)) @ map le_request (trace s)"
proof (cases "providers = []")
  case True
  with assms show ?thesis by (auto simp: discover_def ret_def)
next
  case False
  with assms have "discover_from env client family (now env s) providers [] s = (r, s')"
    by (simp add: discover_def async_simps)
  then show ?thesis
    using discover_from_requests by blast
qed

lemma discover_requests_witness:
  "\<exists>k \<le> length [''a'', ''b'']. map le_request (trace (snd sample_discovery)) =
      rev (map (\<lambda>p. get_request (ProviderUrl p) []) (take k [''a'', ''b'']))"
  using discover_requests [of "scripted sample_script" "\<lparr>pc_timeout = 100\<rparr>" Ipv4 "[''a'', ''b'']"
      "idle_sys 5" "fst sample_discovery" "snd sample_discovery"]
  by (simp add: sample_discovery_def)

text \<open>
  C35: a discovery keeps its total timeout and shares it out. When the runtime resumes a suspended
  task at most \<open>\<delta>\<close> after a deadline, a finished discovery took at most \<open>\<delta>\<close> longer than the client's
  total timeout: the lateness of the attempts does not add up. And no provider starves the
  ones after it: when the timeout is longer than \<open>n\<close> times \<open>n\<close> such delays for the \<open>n\<close> providers,
  discovery never gives up before every provider was asked, and an attempt that it
  cuts was given an equal share of the timeout, less \<open>n\<close> delays.
\<close>

theorem discover_timeliness:
  assumes "late_by env \<delta>" and "monotonic env" and "faithful_timers env"
    and "discover env client family providers s = (Done r, s')" and "length providers < 2 ^ 32"
  shows "now env s' \<le> now env s + pc_timeout client + \<delta> \<and>
    (length providers * \<delta> < pc_timeout client div length providers \<longrightarrow>
      (\<forall>fs. r \<noteq> Inl (DeadlineExceeded family fs)) \<and>
      (\<exists>new. trace s' = new @ trace s \<and> (\<forall>e \<in> set new. le_fate e = TimedOut \<longrightarrow>
         le_start e + (pc_timeout client div length providers - length providers * \<delta>) \<le> le_end e)))"
proof (cases "providers = []")
  case True
  with assms(4) show ?thesis by (auto simp: discover_def ret_def)
next
  case False
  with assms(4) have d: "discover_from env client family (now env s) providers [] s = (Done r, s')"
    by (simp add: discover_def async_simps)
  have "now env s' \<le> now env s + pc_timeout client + \<delta>"
    using discover_from_deadline [OF assms(1,2) d] by simp
  moreover have "length providers * (pc_timeout client div length providers) \<le> pc_timeout client"
    by (rule times_div_less_eq_dividend)
  ultimately show ?thesis
    using discover_from_shares [OF assms(1-3) d order_refl assms(5),
        of "pc_timeout client div length providers - length providers * \<delta>"] by auto
qed

text \<open>
  Two providers on a host whose timers are three nanoseconds late: the first one takes too long, the
  second one answers.
\<close>

definition lazy_delay :: "http_request \<Rightarrow> nat" where
  "lazy_delay r = (if rq_url r = ProviderUrl ''a'' then 1000 else 1)"

definition lazy_service :: "nat env" where
  "lazy_service = (scripted sample_script)\<lparr>
     ev_respond := (\<lambda>r w. (sample_script r w, w + lazy_delay r)),
     ev_expires := (\<lambda>ts r w. if ts \<noteq> [] \<and> Min (set ts) \<le> w + lazy_delay r
       then Some (length (takeWhile (\<lambda>d. d \<noteq> Min (set ts)) ts), max (Min (set ts)) w + 3) else None)\<rparr>"

lemma lazy_simps [simp]:
  "ev_respond lazy_service r w = (sample_script r w, w + lazy_delay r)" "ev_clock lazy_service w = w"
  "ev_expires lazy_service ts r w = (if ts \<noteq> [] \<and> Min (set ts) \<le> w + lazy_delay r
     then Some (length (takeWhile (\<lambda>d. d \<noteq> Min (set ts)) ts), max (Min (set ts)) w + 3) else None)"
  by (simp_all add: lazy_service_def scripted_def)

lemma nth_first: "x \<in> set xs \<Longrightarrow> length (takeWhile (\<lambda>d. d \<noteq> x) xs) < length xs \<and> xs ! length (takeWhile (\<lambda>d. d \<noteq> x) xs) = x"
  by (induction xs) auto

lemma lazy_end:
  "end_world lazy_service ts r w = (if ts \<noteq> [] \<and> Min (set ts) \<le> w + lazy_delay r then max (Min (set ts)) w + 3
     else w + lazy_delay r)"
  using nth_first [of "Min (set ts)" ts] by (auto simp: end_world_def)

lemma lazy_clock: "late_by lazy_service 3" "monotonic lazy_service" "faithful_timers lazy_service"
proof -
  have "ev_clock lazy_service (end_world lazy_service ts r w) \<le> max d (ev_clock lazy_service w) + 3"
    if "d \<in> set ts" for ts r w and d :: nat
  proof -
    have "Min (set ts) \<le> d" "ts \<noteq> []" using that by auto
    then show ?thesis by (auto simp: lazy_end max_def)
  qed
  then show "late_by lazy_service 3" unfolding late_by_def by blast
  show "monotonic lazy_service"
    unfolding monotonic_def lazy_end by (auto simp: lazy_service_def scripted_def max_def)
  have "ts ! length (takeWhile (\<lambda>d. d \<noteq> Min (set ts)) ts) = Min (set ts)" if "ts \<noteq> []" for ts :: "nat list"
    using nth_first [of "Min (set ts)" ts] that by simp
  then show "faithful_timers lazy_service"
    by (auto simp: faithful_timers_def max_def split: if_splits)
qed

theorem discover_timeliness_witness:
  "\<exists>s'. discover lazy_service \<lparr>pc_timeout = 100\<rparr> Ipv4 [''a'', ''b''] (idle_sys 5) = (Done (Inr (V4 (Ipv4Addr 8 8 4 4))), s') \<and>
     now lazy_service s' \<le> 108 \<and> (\<forall>e \<in> set (trace s'). le_fate e = TimedOut \<longrightarrow> le_start e + 44 \<le> le_end e)"
proof -
  have public: "is_public_address (V4 (Ipv4Addr 8 8 4 4))" and len: "length (show_ip (V4 (Ipv4Addr 8 8 4 4))) = 7"
    by (simp_all add: show_ipv4_def show_nat_small)
  have "fst (discover lazy_service \<lparr>pc_timeout = 100\<rparr> Ipv4 [''a'', ''b''] (idle_sys 5)) = Done (Inr (V4 (Ipv4Addr 8 8 4 4)))"
    using provider_answer [of "V4 (Ipv4Addr 8 8 4 4)" Ipv4] len public
    by (simp add: discover_def async_simps Let_def bind_io_def get_sys_def timeout_at_def
       providers_left_def query_provider_def await_def complete_request_def lazy_delay_def get_request_def sample_script_def
       MAX_RESPONSE_BYTES_def numeral_2_eq_2 [symmetric] now_def)
  then obtain s' where s': "discover lazy_service \<lparr>pc_timeout = 100\<rparr> Ipv4 [''a'', ''b''] (idle_sys 5) =
      (Done (Inr (V4 (Ipv4Addr 8 8 4 4))), s')"
    by (metis prod.collapse)
  then show ?thesis
    using discover_timeliness [OF lazy_clock s'] by (simp add: numeral_2_eq_2 [symmetric] now_def)
qed

end
