(* ===== verification/Config.thy ===== *)
theory Config
  imports Public_Ip
begin

text \<open>
  \<open>config.rs\<close>: the configuration data, its canonical form, validation and parsing. The TOML
  deserialiser and the URL library are parameters; the file system is in the theory of secure
  files.
\<close>

section \<open>Data\<close>

definition DEFAULT_CONFIG_PATH :: string where
  "DEFAULT_CONFIG_PATH = ''/etc/cirrusync/config.toml''"

definition TOKEN_ENV_VAR :: string where
  "TOKEN_ENV_VAR = ''CIRRUSYNC_TOKEN''"

definition MIN_INTERVAL_SECONDS :: nat where "MIN_INTERVAL_SECONDS = 60"
definition MAX_INTERVAL_SECONDS :: nat where "MAX_INTERVAL_SECONDS = 86400"
definition MIN_REQUEST_TIMEOUT_SECONDS :: nat where "MIN_REQUEST_TIMEOUT_SECONDS = 1"
definition MAX_REQUEST_TIMEOUT_SECONDS :: nat where "MAX_REQUEST_TIMEOUT_SECONDS = 120"
definition MAX_RECORDS :: nat where "MAX_RECORDS = 50"
definition MAX_PROVIDERS_PER_FAMILY :: nat where "MAX_PROVIDERS_PER_FAMILY = 8"
definition MAX_CONFIG_BYTES :: nat where "MAX_CONFIG_BYTES = 256 * 1024"
definition DEFAULT_INTERVAL_SECONDS :: nat where "DEFAULT_INTERVAL_SECONDS = 300"
definition DEFAULT_REQUEST_TIMEOUT_SECONDS :: nat where "DEFAULT_REQUEST_TIMEOUT_SECONDS = 15"
definition DEFAULT_TTL :: nat where "DEFAULT_TTL = 120"
definition MAX_TOKEN_BYTES :: nat where "MAX_TOKEN_BYTES = 16 * 1024"
definition DEFAULT_TOKEN_PATH :: string where "DEFAULT_TOKEN_PATH = ''/etc/cirrusync/token''"

datatype record_type = A | Aaaa

fun record_family :: "record_type \<Rightarrow> address_family" where
  "record_family A = Ipv4"
| "record_family Aaaa = Ipv6"

fun record_type_str :: "record_type \<Rightarrow> string" where
  "record_type_str A = ''A''"
| "record_type_str Aaaa = ''AAAA''"

record cloudflare_config =
  api_token_file :: string
  account_id :: "string option"

record ip_discovery_config =
  enabled :: bool
  providers :: "string list"

record record_config =
  zone :: string
  zone_id :: "string option"
  name :: string
  record_type :: record_type
  ttl :: nat
  proxied :: bool
  create_if_missing :: bool

record config =
  interval_seconds :: nat
  request_timeout_seconds :: nat
  cloudflare :: cloudflare_config
  ipv4 :: ip_discovery_config
  ipv6 :: ip_discovery_config
  records :: "record_config list"

definition default_cloudflare :: cloudflare_config where
  "default_cloudflare = \<lparr>api_token_file = DEFAULT_TOKEN_PATH, account_id = None\<rparr>"

definition default_ttl :: nat where
  "default_ttl = DEFAULT_TTL"

definition default_config :: config where
  "default_config = \<lparr>
     interval_seconds = DEFAULT_INTERVAL_SECONDS,
     request_timeout_seconds = DEFAULT_REQUEST_TIMEOUT_SECONDS,
     cloudflare = default_cloudflare,
     ipv4 = \<lparr>enabled = True,
       providers = [''https://api.cloudflare.com/cdn-cgi/trace'', ''https://api.ipify.org'']\<rparr>,
     ipv6 = \<lparr>enabled = False, providers = [''https://api6.ipify.org'']\<rparr>,
     records = []\<rparr>"

definition request_timeout :: "config \<Rightarrow> duration" where
  "request_timeout c = from_secs (request_timeout_seconds c)"

definition interval :: "config \<Rightarrow> duration" where
  "interval c = from_secs (interval_seconds c)"

section \<open>Errors\<close>

text \<open>Of an \<open>io::Error\<close> the program reads the kind, the error number and the text.\<close>

datatype io_kind = NotFound | AlreadyExists | WouldBlock | OtherKind

record io_error =
  io_kind :: io_kind
  io_raw_os_error :: "int option"
  io_text :: string

datatype config_error =
    Read string io_error
  | Parse "string option" string
  | ConfigTooLarge "string option"
  | InsecureConfigFile string string
  | Validation string string
  | TokenMetadata string io_error
  | TokenRead string io_error
  | InsecureTokenFile string string
  | TokenTooLarge string
  | TokenValueTooLarge string
  | NonUnicodeEnvironmentToken
  | EmptyToken string
  | InvalidToken string

definition location_text :: "string option \<Rightarrow> string" where
  "location_text path = (case path of None \<Rightarrow> [] | Some p \<Rightarrow> '' '' @ p)"

fun config_error_text :: "config_error \<Rightarrow> string" where
  "config_error_text (Read path e) = ''failed to read configuration file '' @ path @ '': '' @ io_text e"
| "config_error_text (Parse path position) =
     ''failed to parse TOML configuration'' @ location_text path @ position"
| "config_error_text (ConfigTooLarge path) =
     ''configuration'' @ location_text path @ '' exceeds the '' @ show_nat MAX_CONFIG_BYTES @ ''-byte safety limit''"
| "config_error_text (InsecureConfigFile path reason) =
     ''configuration path '' @ path @ '' is insecure: '' @ reason"
| "config_error_text (Validation field message) =
     ''invalid configuration field '' @ field @ '': '' @ message"
| "config_error_text (TokenMetadata path e) = ''failed to inspect API token file '' @ path @ '': '' @ io_text e"
| "config_error_text (TokenRead path e) = ''failed to read API token file '' @ path @ '': '' @ io_text e"
| "config_error_text (InsecureTokenFile path reason) = ''API token path '' @ path @ '' is insecure: '' @ reason"
| "config_error_text (TokenTooLarge path) =
     ''API token file '' @ path @ '' exceeds the '' @ show_nat MAX_TOKEN_BYTES @ ''-byte safety limit''"
| "config_error_text (TokenValueTooLarge origin) =
     ''API token from '' @ origin @ '' exceeds the '' @ show_nat MAX_TOKEN_BYTES @ ''-byte safety limit''"
| "config_error_text NonUnicodeEnvironmentToken = TOKEN_ENV_VAR @ '' contains non-Unicode data''"
| "config_error_text (EmptyToken origin) = ''the API token from '' @ origin @ '' is empty''"
| "config_error_text (InvalidToken origin) =
     ''the API token from '' @ origin @ '' contains whitespace or control characters''"

section \<open>Canonical form\<close>

definition canonical_dns_name :: "string \<Rightarrow> string" where
  "canonical_dns_name s = to_ascii_lowercase (trim_end_char (CHR ''.'') (trim s))"

definition canonical_id :: "string option \<Rightarrow> string option" where
  "canonical_id i = (case i of None \<Rightarrow> None
     | Some v \<Rightarrow> let c = to_ascii_lowercase (trim v) in if c = [] then None else Some c)"

definition canonicalize_record :: "record_config \<Rightarrow> record_config" where
  "canonicalize_record r = r\<lparr>zone := canonical_dns_name (zone r),
     name := canonical_dns_name (name r), zone_id := canonical_id (zone_id r)\<rparr>"

definition canonicalize_discovery :: "ip_discovery_config \<Rightarrow> ip_discovery_config" where
  "canonicalize_discovery d = d\<lparr>providers := map trim (providers d)\<rparr>"

definition canonicalize :: "config \<Rightarrow> config" where
  "canonicalize c = c\<lparr>
     cloudflare := (cloudflare c)\<lparr>account_id := canonical_id (account_id (cloudflare c))\<rparr>,
     records := map canonicalize_record (records c),
     ipv4 := canonicalize_discovery (ipv4 c),
     ipv6 := canonicalize_discovery (ipv6 c)\<rparr>"

section \<open>Validation\<close>

definition validate_range :: "string \<Rightarrow> nat \<Rightarrow> nat \<Rightarrow> nat \<Rightarrow> (unit, config_error) result" where
  "validate_range field value lo hi =
     ensure (lo \<le> value \<and> value \<le> hi)
       (Validation field (''must be between '' @ show_nat lo @ '' and '' @ show_nat hi @ '', inclusive''))"

text \<open>One round of the provider loop of \<open>validate_discovery\<close>; it returns the set of URLs seen.\<close>

definition validate_provider ::
  "url_parser \<Rightarrow> string \<Rightarrow> string list \<Rightarrow> string \<Rightarrow> (string list, config_error) result" where
  "validate_provider parse field seen provider =
     bind_res (ensure (length provider \<le> 2048) (Validation field ''URL is too long'')) (\<lambda>_.
     bind_res (map_err (\<lambda>e. Validation field (''invalid URL: '' @ e)) (parse provider)) (\<lambda>url.
     bind_res (ensure (url_scheme url = ''https'')
       (Validation field ''only HTTPS provider URLs are allowed'')) (\<lambda>_.
     bind_res (ensure (url_host url \<noteq> None) (Validation field ''URL must include a host'')) (\<lambda>_.
     bind_res (ensure (url_username url = [] \<and> url_password url = None)
       (Validation field ''URL must not contain embedded credentials'')) (\<lambda>_.
     bind_res (ensure (url_fragment url = None)
       (Validation field ''URL fragments are not allowed'')) (\<lambda>_.
     bind_res (ensure (url_text url \<notin> set seen) (Validation field ''duplicate provider URL'')) (\<lambda>_.
     Inr (url_text url # seen))))))))"

fun validate_providers ::
  "url_parser \<Rightarrow> string \<Rightarrow> nat \<Rightarrow> string list \<Rightarrow> string list \<Rightarrow> (unit, config_error) result" where
  "validate_providers parse field i seen [] = Inr ()"
| "validate_providers parse field i seen (p # ps) =
     bind_res (validate_provider parse (field @ ''.providers['' @ show_nat i @ '']'') seen p)
       (\<lambda>seen'. validate_providers parse field (Suc i) seen' ps)"

definition validate_discovery ::
  "url_parser \<Rightarrow> string \<Rightarrow> ip_discovery_config \<Rightarrow> (unit, config_error) result" where
  "validate_discovery parse field d =
     bind_res (ensure (\<not> (enabled d \<and> providers d = []))
       (Validation (field @ ''.providers'')
          ''must contain at least one provider when discovery is enabled'')) (\<lambda>_.
     bind_res (ensure (length (providers d) \<le> MAX_PROVIDERS_PER_FAMILY)
       (Validation (field @ ''.providers'')
          (''at most '' @ show_nat MAX_PROVIDERS_PER_FAMILY @ '' providers are allowed''))) (\<lambda>_.
     validate_providers parse field 0 [] (providers d)))"

definition validate_label :: "bool \<Rightarrow> nat \<Rightarrow> string \<Rightarrow> (unit, string) result" where
  "validate_label allow_wildcard i label =
     bind_res (ensure (label \<noteq> []) ''must not contain empty labels'') (\<lambda>_.
     if allow_wildcard \<and> i = 0 \<and> label = ''*'' then Inr ()
     else
       bind_res (ensure (length label \<le> 63) ''each label must not exceed 63 bytes'') (\<lambda>_.
       bind_res (ensure (\<not> (starts_with label ''-'' \<or> ends_with label ''-''))
         ''labels must not start or end with a hyphen'') (\<lambda>_.
       ensure (list_all (\<lambda>c. is_ascii_alphanumeric c \<or> c = CHR ''-'') label)
         ''must contain only ASCII letters, digits, hyphens, and dots'')))"

definition validate_dns_name :: "string \<Rightarrow> bool \<Rightarrow> (unit, string) result" where
  "validate_dns_name s allow_wildcard =
     bind_res (ensure (s \<noteq> []) ''must not be empty'') (\<lambda>_.
     bind_res (ensure (length s \<le> 253) ''must not exceed 253 bytes'') (\<lambda>_.
     for_each (validate_label allow_wildcard) 0 (split_char (CHR ''.'') s)))"

text \<open>The checks of an optional 32-digit identifier (\<open>zone_id\<close>, \<open>account_id\<close>).\<close>

definition validate_id :: "string \<Rightarrow> string option \<Rightarrow> (unit, config_error) result" where
  "validate_id field i =
     (case i of
        None \<Rightarrow> Inr ()
      | Some v \<Rightarrow>
          bind_res (ensure (v = to_ascii_lowercase (trim v))
            (Validation field ''must already be lowercase and trimmed'')) (\<lambda>_.
          ensure (length v = 32 \<and> list_all is_ascii_hexdigit v)
            (Validation field ''must be exactly 32 hexadecimal characters'')))"

definition belongs_to_zone :: "string \<Rightarrow> string \<Rightarrow> bool" where
  "belongs_to_zone n z \<longleftrightarrow> n = z \<or> ends_with n (''.'' @ z)"

definition validate_record :: "record_config \<Rightarrow> string \<Rightarrow> (unit, config_error) result" where
  "validate_record r field =
     (let z = canonical_dns_name (zone r); n = canonical_dns_name (name r) in
     bind_res (ensure (zone r = z) (Validation (field @ ''.zone'')
       ''must already be lowercase, trimmed, and without a trailing dot'')) (\<lambda>_.
     bind_res (ensure (name r = n) (Validation (field @ ''.name'')
       ''must already be lowercase, trimmed, and without a trailing dot'')) (\<lambda>_.
     bind_res (map_err (Validation (field @ ''.zone'')) (validate_dns_name z False)) (\<lambda>_.
     bind_res (map_err (Validation (field @ ''.name'')) (validate_dns_name n True)) (\<lambda>_.
     bind_res (ensure (belongs_to_zone n z) (Validation (field @ ''.name'')
       (name r @ '' does not belong to zone '' @ zone r))) (\<lambda>_.
     bind_res (validate_id (field @ ''.zone_id'') (zone_id r)) (\<lambda>_.
     bind_res (ensure (ttl r = 1 \<or> (60 \<le> ttl r \<and> ttl r \<le> 86400)) (Validation (field @ ''.ttl'')
       ''must be 1 (automatic) or between 60 and 86400 seconds'')) (\<lambda>_.
     ensure (proxied r \<longrightarrow> ttl r = 1) (Validation (field @ ''.ttl'')
       ''must be 1 (automatic) when proxied is true'')))))))))"

definition family_enabled :: "config \<Rightarrow> address_family \<Rightarrow> bool" where
  "family_enabled c f = (case f of Ipv4 \<Rightarrow> enabled (ipv4 c) | Ipv6 \<Rightarrow> enabled (ipv6 c))"

definition record_key :: "record_config \<Rightarrow> string \<times> string \<times> record_type" where
  "record_key r = (canonical_dns_name (zone r), canonical_dns_name (name r), record_type r)"

fun validate_records :: "config \<Rightarrow> nat \<Rightarrow> (string \<times> string \<times> record_type) list
    \<Rightarrow> record_config list \<Rightarrow> (unit, config_error) result" where
  "validate_records c i seen [] = Inr ()"
| "validate_records c i seen (r # rs) =
     (let field = ''records['' @ show_nat i @ '']'' in
     bind_res (validate_record r field) (\<lambda>_.
     bind_res (ensure (family_enabled c (record_family (record_type r)))
       (Validation (field @ ''.type'') (record_type_str (record_type r) @ '' records require the '' @
          family_str (record_family (record_type r)) @ '' discovery section to be enabled''))) (\<lambda>_.
     bind_res (ensure (record_key r \<notin> set seen)
       (Validation field (''duplicate '' @ record_type_str (record_type r) @ '' record for '' @ name r @
          '' in zone '' @ zone r))) (\<lambda>_.
     validate_records c (Suc i) (record_key r # seen) rs))))"

definition validate :: "url_parser \<Rightarrow> config \<Rightarrow> (unit, config_error) result" where
  "validate parse c =
     bind_res (validate_range ''interval_seconds'' (interval_seconds c)
       MIN_INTERVAL_SECONDS MAX_INTERVAL_SECONDS) (\<lambda>_.
     bind_res (validate_range ''request_timeout_seconds'' (request_timeout_seconds c)
       MIN_REQUEST_TIMEOUT_SECONDS MAX_REQUEST_TIMEOUT_SECONDS) (\<lambda>_.
     bind_res (ensure (starts_with (api_token_file (cloudflare c)) ''/'')
       (Validation ''cloudflare.api_token_file'' ''must be an absolute path'')) (\<lambda>_.
     bind_res (validate_id ''cloudflare.account_id'' (account_id (cloudflare c))) (\<lambda>_.
     bind_res (ensure (records c \<noteq> []) (Validation ''records'' ''at least one record is required'')) (\<lambda>_.
     bind_res (ensure (length (records c) \<le> MAX_RECORDS)
       (Validation ''records'' (''at most '' @ show_nat MAX_RECORDS @ '' records are allowed''))) (\<lambda>_.
     bind_res (validate_discovery parse ''ipv4'' (ipv4 c)) (\<lambda>_.
     bind_res (validate_discovery parse ''ipv6'' (ipv6 c)) (\<lambda>_.
     validate_records c 0 [] (records c)))))))))"

section \<open>Parsing\<close>

text \<open>
  The error position: the line is the number of newline-separated pieces of the prefix, the
  column the distance from the last newline.
\<close>

definition newlines :: "string \<Rightarrow> nat" where
  "newlines s = length (filter (\<lambda>c. c = CHR 0x0A) s)"

definition safe_parse_position :: "string \<Rightarrow> nat \<Rightarrow> string" where
  "safe_parse_position contents off =
     (let offset = min off (length contents);
          pre = take offset contents;
          line = length (split_char (CHR 0x0A) pre);
          after = length (takeWhile (\<lambda>c. c \<noteq> CHR 0x0A) (rev pre));
          column = (if CHR 0x0A \<in> set pre then offset - (offset - 1 - after) else offset + 1)
      in '' at line '' @ show_nat line @ '', byte column '' @ show_nat column)"

text \<open>
  The deserialiser is a parameter: it yields the configuration with the defaults filled in, or
  an error with the start of its span, if it has one.
\<close>

type_synonym toml_parser = "string \<Rightarrow> (config, nat option) result"

definition config_parse ::
  "toml_parser \<Rightarrow> url_parser \<Rightarrow> string \<Rightarrow> string option \<Rightarrow> (config, config_error) result" where
  "config_parse toml parse contents path =
     (if length contents > MAX_CONFIG_BYTES then Inl (ConfigTooLarge path)
      else
        bind_res (map_err (\<lambda>span. Parse path
            (case span of None \<Rightarrow> [] | Some start \<Rightarrow> safe_parse_position contents start))
          (toml contents)) (\<lambda>raw.
        let c = canonicalize raw in
        bind_res (validate parse c) (\<lambda>_. Inr c)))"

definition from_toml :: "toml_parser \<Rightarrow> url_parser \<Rightarrow> string \<Rightarrow> (config, config_error) result" where
  "from_toml toml parse contents = config_parse toml parse contents None"

section \<open>What a valid configuration is\<close>

definition valid_label :: "string \<Rightarrow> bool" where
  "valid_label l \<longleftrightarrow> l \<noteq> [] \<and> length l \<le> 63 \<and> hd l \<noteq> CHR ''-'' \<and> last l \<noteq> CHR ''-'' \<and>
     list_all (\<lambda>c. is_ascii_alphanumeric c \<or> c = CHR ''-'') l"

definition valid_dns_name :: "bool \<Rightarrow> string \<Rightarrow> bool" where
  "valid_dns_name wildcard s \<longleftrightarrow> length s \<le> 253 \<and>
     (case split_char (CHR ''.'') s of
        [] \<Rightarrow> False
      | l # ls \<Rightarrow> (valid_label l \<or> (wildcard \<and> l = ''*'')) \<and> list_all valid_label ls)"

definition valid_id :: "string option \<Rightarrow> bool" where
  "valid_id i \<longleftrightarrow> (case i of None \<Rightarrow> True
     | Some v \<Rightarrow> v = to_ascii_lowercase (trim v) \<and> length v = 32 \<and> list_all is_ascii_hexdigit v)"

definition valid_record :: "record_config \<Rightarrow> bool" where
  "valid_record r \<longleftrightarrow>
     zone r = canonical_dns_name (zone r) \<and> name r = canonical_dns_name (name r) \<and>
     valid_dns_name False (zone r) \<and> valid_dns_name True (name r) \<and>
     belongs_to_zone (name r) (zone r) \<and> valid_id (zone_id r) \<and>
     (ttl r = 1 \<or> (60 \<le> ttl r \<and> ttl r \<le> 86400)) \<and> (proxied r \<longrightarrow> ttl r = 1)"

definition valid_provider :: "url_parser \<Rightarrow> string \<Rightarrow> bool" where
  "valid_provider parse p \<longleftrightarrow> length p \<le> 2048 \<and>
     (case parse p of
        Inl _ \<Rightarrow> False
      | Inr url \<Rightarrow> url_scheme url = ''https'' \<and> url_host url \<noteq> None \<and> url_username url = [] \<and>
          url_password url = None \<and> url_fragment url = None)"

definition provider_text :: "url_parser \<Rightarrow> string \<Rightarrow> string" where
  "provider_text parse p = (case parse p of Inl _ \<Rightarrow> [] | Inr url \<Rightarrow> url_text url)"

definition valid_discovery :: "url_parser \<Rightarrow> ip_discovery_config \<Rightarrow> bool" where
  "valid_discovery parse d \<longleftrightarrow> (enabled d \<longrightarrow> providers d \<noteq> []) \<and>
     length (providers d) \<le> MAX_PROVIDERS_PER_FAMILY \<and> list_all (valid_provider parse) (providers d) \<and>
     distinct (map (provider_text parse) (providers d))"

definition valid_config :: "url_parser \<Rightarrow> config \<Rightarrow> bool" where
  "valid_config parse c \<longleftrightarrow>
     60 \<le> interval_seconds c \<and> interval_seconds c \<le> 86400 \<and>
     1 \<le> request_timeout_seconds c \<and> request_timeout_seconds c \<le> 120 \<and>
     starts_with (api_token_file (cloudflare c)) ''/'' \<and>
     valid_id (account_id (cloudflare c)) \<and>
     records c \<noteq> [] \<and> length (records c) \<le> MAX_RECORDS \<and>
     valid_discovery parse (ipv4 c) \<and> valid_discovery parse (ipv6 c) \<and>
     list_all valid_record (records c) \<and>
     list_all (\<lambda>r. family_enabled c (record_family (record_type r))) (records c) \<and>
     distinct (map record_key (records c))"

section \<open>Validation decides it\<close>

lemma validate_label_iff [config_checks]:
  "validate_label w i l = Inr () \<longleftrightarrow> valid_label l \<or> (w \<and> i = 0 \<and> l = ''*'')"
proof (cases "l = []")
  case False
  then obtain c cs d ds where l: "l = c # cs" "l = ds @ [d]"
    by (metis neq_Nil_conv rev_exhaust)
  have "starts_with l ''-'' \<longleftrightarrow> hd l = CHR ''-''"
    unfolding l(1) by auto
  moreover have "ends_with l ''-'' \<longleftrightarrow> last l = CHR ''-''"
    unfolding l(2) by (auto simp: suffix_def)
  ultimately show ?thesis
    using False by (auto simp: validate_label_def valid_label_def bind_res_Inr_iff)
qed (simp add: validate_label_def valid_label_def)

lemma validate_dns_name_iff [config_checks]:
  "validate_dns_name s w = Inr () \<longleftrightarrow> valid_dns_name w s"
proof -
  obtain l ls where ls: "split_char (CHR ''.'') s = l # ls"
    by (cases "split_char (CHR ''.'') s") simp_all
  have "for_each (validate_label w) 0 (l # ls) = Inr () \<longleftrightarrow>
      (valid_label l \<or> (w \<and> l = ''*'')) \<and> list_all valid_label ls"
    by (auto simp: bind_res_Inr_iff for_each_Inr_iff config_checks list_all_length)
  moreover have "s \<noteq> []" if "valid_label l \<or> (w \<and> l = ''*'')"
    using that ls by (auto simp: valid_label_def)
  ultimately show ?thesis
    by (auto simp: validate_dns_name_def valid_dns_name_def bind_res_Inr_iff ls)
qed

lemma validate_id_iff [config_checks]: "validate_id field i = Inr () \<longleftrightarrow> valid_id i"
  by (auto simp: validate_id_def valid_id_def bind_res_Inr_iff split: option.splits)

lemma validate_record_iff [config_checks]: "validate_record r field = Inr () \<longleftrightarrow> valid_record r"
  by (auto simp: validate_record_def valid_record_def Let_def bind_res_Inr_iff config_checks)

lemma validate_provider_iff:
  "validate_provider parse field seen p = Inr seen' \<longleftrightarrow>
     valid_provider parse p \<and> provider_text parse p \<notin> set seen \<and> seen' = provider_text parse p # seen"
  by (cases "parse p")
     (auto simp: validate_provider_def valid_provider_def provider_text_def bind_res_Inr_iff)

lemma validate_providers_iff:
  "validate_providers parse field i seen ps = Inr () \<longleftrightarrow>
     list_all (valid_provider parse) ps \<and> distinct (map (provider_text parse) ps) \<and>
     set (map (provider_text parse) ps) \<inter> set seen = {}"
  by (induction ps arbitrary: i seen) (auto simp: bind_res_Inr_iff validate_provider_iff)

lemma validate_discovery_iff [config_checks]:
  "validate_discovery parse field d = Inr () \<longleftrightarrow> valid_discovery parse d"
  by (auto simp: validate_discovery_def valid_discovery_def bind_res_Inr_iff validate_providers_iff)

lemma validate_records_iff:
  "validate_records c i seen rs = Inr () \<longleftrightarrow>
     list_all valid_record rs \<and> list_all (\<lambda>r. family_enabled c (record_family (record_type r))) rs \<and>
     distinct (map record_key rs) \<and> set (map record_key rs) \<inter> set seen = {}"
  by (induction rs arbitrary: i seen) (auto simp: Let_def bind_res_Inr_iff config_checks)

lemma validate_iff_valid: "validate parse c = Inr () \<longleftrightarrow> valid_config parse c"
  by (auto simp: validate_def valid_config_def validate_range_def bind_res_Inr_iff config_checks
      validate_records_iff MIN_INTERVAL_SECONDS_def MAX_INTERVAL_SECONDS_def
      MIN_REQUEST_TIMEOUT_SECONDS_def MAX_REQUEST_TIMEOUT_SECONDS_def)

lemma config_parse_Inr_iff:
  "config_parse toml parse contents path = Inr c \<longleftrightarrow>
     length contents \<le> MAX_CONFIG_BYTES \<and>
     (\<exists>raw. toml contents = Inr raw \<and> c = canonicalize raw) \<and> valid_config parse c"
  by (auto simp: config_parse_def bind_res_Inr_iff Let_def validate_iff_valid)

section \<open>Consequences the updater relies on\<close>

lemma to_lower_not_upper: "\<not> (65 \<le> byte (to_lower c) \<and> byte (to_lower c) \<le> 90)"
  by (auto simp: byte_to_lower)

lemma canonical_name_lowercase: "s = canonical_dns_name s \<Longrightarrow> to_ascii_lowercase s = s"
  unfolding canonical_dns_name_def by (metis to_ascii_lowercase_idem)

lemma canonical_dns_name_eqI:
  "s = canonical_dns_name s \<Longrightarrow> t = canonical_dns_name t \<Longrightarrow> eq_ignore_ascii_case s t \<Longrightarrow> s = t"
  by (metis canonical_name_lowercase eq_ignore_ascii_case_def)

lemma valid_config_records_distinct:
  assumes "valid_config parse c" and "r \<in> set (records c)" and "r' \<in> set (records c)"
    and "eq_ignore_ascii_case (name r) (name r')" and "eq_ignore_ascii_case (zone r) (zone r')"
    and "record_type r = record_type r'"
  shows "r = r'"
proof -
  have v: "valid_record r" "valid_record r'"
    using assms by (auto simp: valid_config_def list_all_iff)
  have "name r = name r'" "zone r = zone r'"
    using canonical_dns_name_eqI v assms(4,5) unfolding valid_record_def by blast+
  then have "record_key r = record_key r'"
    using assms(6) by (simp add: record_key_def)
  moreover have "inj_on record_key (set (records c))"
    using assms(1) by (simp add: valid_config_def distinct_map)
  ultimately show ?thesis
    using assms(2,3) by (auto dest: inj_onD)
qed

lemma valid_config_bounds:
  assumes "valid_config parse c"
  shows "0 < request_timeout c" and "request_timeout c \<le> from_secs 120"
    and "from_secs 60 \<le> interval c" and "interval c \<le> from_secs 86400"
  using assms by (auto simp: valid_config_def request_timeout_def interval_def)

section \<open>Error positions\<close>

lemma length_split_char: "length (split_char d s) = Suc (length (filter (\<lambda>c. c = d) s))"
  by (induction s) (simp, simp add: split_char_Cons_eq del: split_char.simps)

definition newline_layout :: "string \<Rightarrow> bool list" where
  "newline_layout s = map (\<lambda>c. c = CHR 0x0A) s"

lemma safe_parse_position_layout:
  assumes "newline_layout s = newline_layout t"
  shows "safe_parse_position s off = safe_parse_position t off"
proof -
  have len: "length s = length t"
    using assms by (metis length_map newline_layout_def)
  have layout: "map (\<lambda>c. c = CHR 0x0A) (take k s) = map (\<lambda>c. c = CHR 0x0A) (take k t)" for k
    using assms by (simp add: newline_layout_def flip: take_map)
  have lines: "length (split_char (CHR 0x0A) u) = Suc (length (filter id (map (\<lambda>c. c = CHR 0x0A) u)))" for u
    by (simp add: length_split_char filter_map o_def)
  have after: "length (takeWhile (\<lambda>c. c \<noteq> CHR 0x0A) (rev u)) =
      length (takeWhile Not (rev (map (\<lambda>c. c = CHR 0x0A) u)))" for u
    by (simp add: rev_map takeWhile_map o_def)
  have mem: "CHR 0x0A \<in> set u \<longleftrightarrow> True \<in> set (map (\<lambda>c. c = CHR 0x0A) u)" for u
    by auto
  show ?thesis
    unfolding safe_parse_position_def Let_def len lines after mem layout ..
qed

lemma safe_parse_position_value:
  assumes "off \<le> length s"
  shows "safe_parse_position s off =
    '' at line '' @ show_nat (Suc (newlines (take off s))) @ '', byte column '' @
    show_nat (Suc (length (takeWhile (\<lambda>c. c \<noteq> CHR 0x0A) (rev (take off s)))))"
proof -
  let ?n = "length (takeWhile (\<lambda>c. c \<noteq> CHR 0x0A) (rev (take off s)))"
  have "?n < off" if "CHR 0x0A \<in> set (take off s)"
  proof -
    have "takeWhile (\<lambda>c. c \<noteq> CHR 0x0A) (rev (take off s)) \<noteq> rev (take off s)"
      using that by (auto simp: takeWhile_eq_all_conv)
    then have "?n \<noteq> length (rev (take off s))"
      by (metis takeWhile_eq_take take_all_iff order_refl)
    moreover have "?n \<le> length (rev (take off s))"
      by (rule length_takeWhile_le)
    ultimately show ?thesis using assms by simp
  qed
  moreover have "?n = off" if "CHR 0x0A \<notin> set (take off s)"
    using that assms by (subst takeWhile_eq_all_conv [THEN iffD2]) auto
  ultimately have "(if CHR 0x0A \<in> set (take off s) then off - (off - 1 - ?n) else off + 1) = Suc ?n"
    by auto
  then show ?thesis
    using assms by (simp add: safe_parse_position_def Let_def newlines_def length_split_char min_absorb1)
qed


section \<open>A sample configuration\<close>

definition sample_url_parser :: url_parser where
  "sample_url_parser s = Inr \<lparr>url_scheme = ''https'', url_host = Some ''h'', url_username = [],
     url_password = None, url_fragment = None, url_path = ''/'', url_text = s, url_origin = ''https://h''\<rparr>"

definition sample_record :: record_config where
  "sample_record = \<lparr>zone = ''example.com'', zone_id = None, name = ''home.example.com'',
     record_type = A, ttl = 120, proxied = False, create_if_missing = False\<rparr>"

definition sample_config :: config where
  "sample_config = default_config\<lparr>records := [sample_record]\<rparr>"

lemma canonical_visible:
  "visible_ascii s \<Longrightarrow> canonical_dns_name s = to_ascii_lowercase (trim_end_char (CHR ''.'') s)"
  by (simp add: canonical_dns_name_def trim_visible_ascii)

lemma sample_names_canonical [simp]:
  "canonical_dns_name ''example.com'' = ''example.com''"
  "canonical_dns_name ''home.example.com'' = ''home.example.com''"
  by (subst canonical_visible; simp add: is_ascii_def is_whitespace_def trim_end_char_def
      to_ascii_lowercase_def to_lower_def)+

lemma sample_record_valid: "valid_record sample_record"
  unfolding valid_record_def sample_record_def
  by (simp add: valid_dns_name_def valid_label_def belongs_to_zone_def valid_id_def
      is_ascii_alphanumeric_def is_ascii_digit_def is_ascii_lowercase_def suffix_def)

lemma sample_config_valid: "valid_config sample_url_parser sample_config"
  by (simp add: valid_config_def sample_config_def default_config_def default_cloudflare_def
      sample_record_valid valid_id_def valid_discovery_def valid_provider_def provider_text_def
      sample_url_parser_def family_enabled_def MAX_RECORDS_def MAX_PROVIDERS_PER_FAMILY_def
      DEFAULT_INTERVAL_SECONDS_def DEFAULT_REQUEST_TIMEOUT_SECONDS_def DEFAULT_TOKEN_PATH_def)
     (simp add: sample_record_def)

section \<open>Properties\<close>

text \<open>
  C24: \<open>Config::validate\<close> accepts exactly the configurations described by \<open>valid_config\<close>:
  ranges, absolute token path, identifiers, 1 to 50 records with canonical names that belong to
  their zone, HTTPS providers without credentials or duplicates, families enabled for the record
  types, and no two records with the same zone, name and type.
\<close>

theorem validate_decides_valid_config:
  "validate parse c = Inr () \<longleftrightarrow> valid_config parse c"
  by (rule validate_iff_valid)

text \<open>
  Parsing succeeds exactly on texts within the size limit that the TOML reader accepts and
  whose canonical form is valid, and returns that canonical form.
\<close>

lemma config_parse_accepts:
  "config_parse toml parse contents path = Inr c \<longleftrightarrow>
     length contents \<le> MAX_CONFIG_BYTES \<and>
     (\<exists>raw. toml contents = Inr raw \<and> c = canonicalize raw) \<and> valid_config parse c"
  by (rule config_parse_Inr_iff)

text \<open>
  A TOML error reveals nothing of the text but its length and line breaks: two texts with
  the same newline layout, rejected at the same offset, give the same error, which names the
  line and byte column of the offset.
\<close>

lemma parse_error_hides_contents:
  assumes "newline_layout s = newline_layout t"
    and "toml s = Inl (Some off)" and "toml t = Inl (Some off)"
    and "off \<le> length s" and "length s \<le> MAX_CONFIG_BYTES"
  shows "config_parse toml parse s path = config_parse toml parse t path \<and>
    config_parse toml parse s path = Inl (Parse path ('' at line '' @ show_nat (Suc (newlines (take off s))) @
      '', byte column '' @
      show_nat (Suc (length (takeWhile (\<lambda>c. c \<noteq> CHR 0x0A) (rev (take off s)))))))"
proof -
  have "length s = length t"
    using assms(1) by (metis length_map newline_layout_def)
  then show ?thesis
    using assms safe_parse_position_layout [OF assms(1)] safe_parse_position_value [OF assms(4)]
    by (simp add: config_parse_def)
qed

theorem parse_error_hides_contents_witness:
  "config_parse (\<lambda>_. Inl (Some 2)) sample_url_parser ''a=b'' None =
   config_parse (\<lambda>_. Inl (Some 2)) sample_url_parser ''x y'' None"
  using parse_error_hides_contents [of "''a=b''" "''x y''" "\<lambda>_. Inl (Some 2)" 2 sample_url_parser None]
  by (simp add: newline_layout_def MAX_CONFIG_BYTES_def)

text \<open>
  In a valid configuration two entries that agree on zone, name (ignoring ASCII case) and
  type are the same entry, and every name lies in its zone.
\<close>

lemma valid_records_unique:
  assumes "validate parse c = Inr ()" and "r \<in> set (records c)" and "r' \<in> set (records c)"
    and "eq_ignore_ascii_case (name r) (name r')" and "eq_ignore_ascii_case (zone r) (zone r')"
    and "record_type r = record_type r'"
  shows "r = r' \<and> (name r = zone r \<or> ends_with (name r) (''.'' @ zone r))"
proof
  show "r = r'"
    using valid_config_records_distinct assms by (simp add: validate_iff_valid)
  show "name r = zone r \<or> ends_with (name r) (''.'' @ zone r)"
    using assms(1,2)
    by (auto simp: validate_iff_valid valid_config_def list_all_iff valid_record_def belongs_to_zone_def)
qed

lemma valid_records_unique_witness:
  "sample_record = sample_record \<and> ends_with (name sample_record) (''.'' @ zone sample_record)"
  using valid_records_unique [of sample_url_parser sample_config sample_record sample_record]
    sample_config_valid
  by (simp add: validate_iff_valid sample_config_def) (simp add: sample_record_def)

end
