(* ===== verification/Cf_Error.thy ===== *)
theory Cf_Error
  imports Config
begin

text \<open>
  \<open>cloudflare.rs\<close>: the error type of the API client with its text and classification, and the
  cleaning of remote text before it may appear in a message: control characters and white space
  are collapsed, the length is bounded and the API token is redacted.
\<close>

section \<open>Errors\<close>

datatype cloudflare_error =
    InvalidBaseUrl
  | CfInvalidToken
  | AccountIdRequired
  | InvalidAccountId
  | UserTokenAccountMismatch
  | GlobalApiKeyUnsupported
  | UnsupportedCredentialType
  | CfInvalidTimeout
  | CfClientBuild string
  | CfRequest string string
  | Authentication http_status string "api_error_detail list"
  | PermissionDenied http_status string "api_error_detail list"
  | RateLimited "duration option" string string "api_error_detail list"
  | Api string http_status "duration option" string string "api_error_detail list"
  | CfMalformedResponse string string
  | CfResponseTooLarge string nat
  | MissingResult string
  | ZoneNotFound string
  | AmbiguousZone string
  | ZoneNameMismatch string string string
  | ZoneIdMismatch string string
  | ZoneNotActive string string
  | RecordNotFound string string
  | AmbiguousRecord string string
  | TokenInactive string
  | PaginationLimit string

fun cloudflare_error_text :: "cloudflare_error \<Rightarrow> string" where
  "cloudflare_error_text InvalidBaseUrl = ''invalid Cloudflare API base URL''"
| "cloudflare_error_text CfInvalidToken = ''Cloudflare API token contains invalid characters''"
| "cloudflare_error_text AccountIdRequired =
     ''Cloudflare account API tokens require cloudflare.account_id (the 32-character Account ID)''"
| "cloudflare_error_text InvalidAccountId =
     ''Cloudflare account ID must be exactly 32 hexadecimal characters''"
| "cloudflare_error_text UserTokenAccountMismatch =
     ''cloudflare.account_id must be omitted when using a cfut_ user API token''"
| "cloudflare_error_text GlobalApiKeyUnsupported =
     ''Cloudflare Global API Keys are unsupported; use a restricted API token''"
| "cloudflare_error_text UnsupportedCredentialType =
     ''unsupported Cloudflare credential type; use a cfut_ or cfat_ API token''"
| "cloudflare_error_text CfInvalidTimeout = ''Cloudflare request timeout must be nonzero''"
| "cloudflare_error_text (CfClientBuild e) = ''could not construct Cloudflare HTTP client: '' @ e"
| "cloudflare_error_text (CfRequest operation source) =
     ''Cloudflare request failed while '' @ operation @ '': '' @ source"
| "cloudflare_error_text (Authentication status message _) =
     ''Cloudflare authentication failed ('' @ st_text status @ ''): '' @ message"
| "cloudflare_error_text (PermissionDenied status message _) =
     ''Cloudflare permission denied ('' @ st_text status @ ''): '' @ message"
| "cloudflare_error_text (RateLimited _ sfx message _) =
     ''Cloudflare rate limit exceeded'' @ sfx @ '': '' @ message"
| "cloudflare_error_text (Api operation status _ sfx message _) =
     ''Cloudflare API error while '' @ operation @ '' ('' @ st_text status @ '')'' @ sfx @ '': '' @ message"
| "cloudflare_error_text (CfMalformedResponse operation reason) =
     ''malformed Cloudflare response while '' @ operation @ '': '' @ reason"
| "cloudflare_error_text (CfResponseTooLarge operation limit) =
     ''Cloudflare response exceeded the '' @ show_nat limit @ ''-byte safety limit while '' @ operation"
| "cloudflare_error_text (MissingResult operation) =
     ''Cloudflare response omitted its result while '' @ operation"
| "cloudflare_error_text (ZoneNotFound z) = ''Cloudflare zone not found: '' @ z"
| "cloudflare_error_text (AmbiguousZone z) =
     ''multiple Cloudflare zones matched '' @ z @ ''; configure an explicit zone_id''"
| "cloudflare_error_text (ZoneNameMismatch expected actual zid) =
     ''Cloudflare zone ID '' @ zid @ '' belongs to '' @ actual @ '', not configured zone '' @ expected"
| "cloudflare_error_text (ZoneIdMismatch expected actual) =
     ''Cloudflare explicit-zone response returned ID '' @ actual @ '', expected '' @ expected"
| "cloudflare_error_text (ZoneNotActive z status) =
     ''Cloudflare zone '' @ z @ '' is not active (status: '' @ status @ '')''"
| "cloudflare_error_text (RecordNotFound t n) =
     ''Cloudflare '' @ t @ '' record '' @ n @ '' does not exist and creation is disabled''"
| "cloudflare_error_text (AmbiguousRecord t n) =
     ''multiple Cloudflare '' @ t @ '' records matched '' @ n"
| "cloudflare_error_text (TokenInactive status) =
     ''Cloudflare API token is not active (status: '' @ status @ '')''"
| "cloudflare_error_text (PaginationLimit operation) =
     ''Cloudflare pagination exceeded the safety limit while '' @ operation"

fun cf_retry_after :: "cloudflare_error \<Rightarrow> duration option" where
  "cf_retry_after (RateLimited r _ _ _) = r"
| "cf_retry_after (Api _ _ r _ _ _) = r"
| "cf_retry_after _ = None"

fun is_authentication_failure :: "cloudflare_error \<Rightarrow> bool" where
  "is_authentication_failure (Authentication _ _ _) = True"
| "is_authentication_failure (TokenInactive _) = True"
| "is_authentication_failure _ = False"

fun is_permission_denied :: "cloudflare_error \<Rightarrow> bool" where
  "is_permission_denied (PermissionDenied _ _ _) = True"
| "is_permission_denied _ = False"

fun is_rate_limited :: "cloudflare_error \<Rightarrow> bool" where
  "is_rate_limited (RateLimited _ _ _ _) = True"
| "is_rate_limited _ = False"

fun is_not_found :: "cloudflare_error \<Rightarrow> bool" where
  "is_not_found (Api _ status _ _ _ _) = (st_code status = 404)"
| "is_not_found _ = False"

fun is_transient :: "cloudflare_error \<Rightarrow> bool" where
  "is_transient (CfRequest _ _) = True"
| "is_transient (RateLimited _ _ _ _) = True"
| "is_transient (CfMalformedResponse _ _) = True"
| "is_transient (CfResponseTooLarge _ _) = True"
| "is_transient (MissingResult _) = True"
| "is_transient (Api _ status _ _ _ _) =
     (st_server_error status \<or> st_code status = 408 \<or> st_code status = 409)"
| "is_transient _ = False"

section \<open>Cleaning remote text\<close>

definition MAX_ERROR_DETAILS :: nat where "MAX_ERROR_DETAILS = 4"
definition MAX_ERROR_MESSAGE_BYTES :: nat where "MAX_ERROR_MESSAGE_BYTES = 256"
definition MAX_ERROR_SUMMARY_BYTES :: nat where "MAX_ERROR_SUMMARY_BYTES = 1024"

text \<open>
  The loop over the characters: \<open>acc\<close> is the buffer as a list of characters, newest first,
  \<open>sp\<close> the flag \<open>previous_space\<close>; the result carries \<open>truncated\<close>.
\<close>

definition clean_char :: "string \<Rightarrow> string" where
  "clean_char c = (if is_control c \<or> is_whitespace c then '' '' else c)"

definition buffer_len :: "string list \<Rightarrow> nat" where
  "buffer_len acc = length (concat acc)"

fun sanitize_loop :: "nat \<Rightarrow> string list \<Rightarrow> bool \<Rightarrow> string list \<Rightarrow> string list \<times> bool" where
  "sanitize_loop max_bytes acc sp [] = (acc, False)"
| "sanitize_loop max_bytes acc sp (c # cs) =
     (let ch = clean_char c in
      if ch = '' '' \<and> (sp \<or> acc = []) then sanitize_loop max_bytes acc sp cs
      else if buffer_len acc + length ch > max_bytes then (acc, True)
      else sanitize_loop max_bytes (ch # acc) (ch = '' '') cs)"

text \<open>\<open>String::pop\<close> until the buffer ends in no space, or is short enough.\<close>

definition pop_spaces :: "string list \<Rightarrow> string list" where
  "pop_spaces acc = dropWhile (\<lambda>c. c = '' '') acc"

fun pop_to :: "nat \<Rightarrow> string list \<Rightarrow> string list" where
  "pop_to limit [] = []"
| "pop_to limit (c # acc) = (if buffer_len (c # acc) > limit then pop_to limit acc else c # acc)"

definition ELLIPSIS :: string where "ELLIPSIS = ''...''"

definition sanitize_and_truncate :: "string \<Rightarrow> nat \<Rightarrow> string" where
  "sanitize_and_truncate v max_bytes =
     (case sanitize_loop max_bytes [] False (chars (trim v)) of (acc, truncated) \<Rightarrow>
        if truncated then
          let suffix_length = min (length ELLIPSIS) max_bytes;
              content_limit = max_bytes - suffix_length
          in concat (rev (pop_spaces (pop_to content_limit (pop_spaces acc)))) @ take suffix_length ELLIPSIS
        else concat (rev (pop_spaces acc)))"

definition sanitize_remote_value :: "string \<Rightarrow> string \<Rightarrow> nat \<Rightarrow> string" where
  "sanitize_remote_value v sensitive max_bytes =
     (if sensitive = [] \<or> \<not> str_contains v sensitive then sanitize_and_truncate v max_bytes
      else sanitize_and_truncate (str_replace sensitive ''[redacted]'' v) max_bytes)"

text \<open>The loop of \<open>error_summary\<close>: the summaries so far, oldest first, and \<open>omitted\<close>.\<close>

fun summarize_errors :: "string \<Rightarrow> string list \<Rightarrow> api_error_detail list \<Rightarrow> string list \<times> bool" where
  "summarize_errors sensitive acc [] = (acc, False)"
| "summarize_errors sensitive acc (e # es) =
     (let m = sanitize_remote_value (ed_message e) sensitive MAX_ERROR_MESSAGE_BYTES in
      if m = [] then summarize_errors sensitive acc es
      else if length acc = MAX_ERROR_DETAILS then (acc, True)
      else summarize_errors sensitive
        (acc @ [case ed_code e of Some code \<Rightarrow> m @ '' ('' @ show_int code @ '')'' | None \<Rightarrow> m]) es)"

definition error_summary :: "api_error_detail list \<Rightarrow> http_status \<Rightarrow> string \<Rightarrow> string" where
  "error_summary errors status sensitive =
     (case summarize_errors sensitive [] errors of (summaries, omitted) \<Rightarrow>
        let summary = sanitize_and_truncate
              (str_join ''; '' summaries @ (if omitted then ''; ...'' else [])) MAX_ERROR_SUMMARY_BYTES
        in if summary = [] then
             (case st_reason status of Some r \<Rightarrow> r | None \<Rightarrow> ''unspecified Cloudflare error'')
           else summary)"

definition clean_detail :: "string \<Rightarrow> api_error_detail \<Rightarrow> api_error_detail option" where
  "clean_detail sensitive e =
     (let m = sanitize_remote_value (ed_message e) sensitive MAX_ERROR_MESSAGE_BYTES in
      if ed_code e \<noteq> None \<or> m \<noteq> [] then Some \<lparr>ed_code = ed_code e, ed_message = m\<rparr> else None)"

definition prepare_error_details ::
  "api_error_detail list \<Rightarrow> http_status \<Rightarrow> string \<Rightarrow> string \<times> api_error_detail list" where
  "prepare_error_details errors status sensitive =
     (error_summary errors status sensitive,
      take MAX_ERROR_DETAILS (List.map_filter (clean_detail sensitive) errors))"

text \<open>\<open>contextualize_account_verification_error\<close>\<close>

definition ACCOUNT_ID_HINT :: string where
  "ACCOUNT_ID_HINT = ''verify that cloudflare.account_id is the token'' @ [CHR 0x27] @ ''s owning account''"

fun contextualize_account_verification_error :: "cloudflare_error \<Rightarrow> cloudflare_error" where
  "contextualize_account_verification_error (Authentication status message errors) =
     Authentication status
       (sanitize_and_truncate (message @ ''; '' @ ACCOUNT_ID_HINT) MAX_ERROR_SUMMARY_BYTES) errors"
| "contextualize_account_verification_error (PermissionDenied status message errors) =
     PermissionDenied status
       (sanitize_and_truncate (message @ ''; '' @ ACCOUNT_ID_HINT) MAX_ERROR_SUMMARY_BYTES) errors"
| "contextualize_account_verification_error other = other"

section \<open>Credentials\<close>

datatype verification_target = User | Account string

definition has_scannable_credential_prefix :: "string \<Rightarrow> bool" where
  "has_scannable_credential_prefix token =
     (case split_once (CHR ''_'') token of
        None \<Rightarrow> False
      | Some (pre, _) \<Rightarrow> 3 \<le> length pre \<and> length pre \<le> 12 \<and> starts_with pre ''cf'' \<and>
          list_all is_ascii_lowercase pre)"

definition normalize_account_id :: "string option \<Rightarrow> (string option, cloudflare_error) result" where
  "normalize_account_id i =
     (case i of
        None \<Rightarrow> Inr None
      | Some v \<Rightarrow>
          if trim v = [] then Inr None
          else if length (trim v) = 32 \<and> list_all is_ascii_hexdigit (trim v)
          then Inr (Some (to_ascii_lowercase (trim v)))
          else Inl InvalidAccountId)"

definition select_verification_target ::
  "string \<Rightarrow> string option \<Rightarrow> (verification_target, cloudflare_error) result" where
  "select_verification_target token i =
     bind_res (normalize_account_id i) (\<lambda>aid.
       if starts_with token ''cfat_'' then
         (case aid of Some a \<Rightarrow> Inr (Account a) | None \<Rightarrow> Inl AccountIdRequired)
       else if starts_with token ''cfut_'' then
         (if aid \<noteq> None then Inl UserTokenAccountMismatch else Inr User)
       else if starts_with token ''cfk_'' then Inl GlobalApiKeyUnsupported
       else if has_scannable_credential_prefix token then Inl UnsupportedCredentialType
       else Inr (case aid of None \<Rightarrow> User | Some a \<Rightarrow> Account a))"

section \<open>Length and shape of cleaned text\<close>

lemma buffer_len_simps [simp]: "buffer_len [] = 0" "buffer_len (c # acc) = length c + buffer_len acc"
  by (simp_all add: buffer_len_def)

lemma length_concat_rev: "length (concat (rev acc)) = buffer_len acc"
  by (induction acc) simp_all

lemma buffer_len_rev [simp]: "buffer_len (rev acc) = buffer_len acc"
  by (simp add: buffer_len_def)

lemma str_replace_match:
  "p \<noteq> [] \<Longrightarrow> prefix p s \<Longrightarrow> str_replace p r s = r @ str_replace p r (drop (length p) s)"
  by (subst str_replace.simps) (auto split: list.split)

lemma str_replace_skip:
  "\<not> (p \<noteq> [] \<and> prefix p (c # cs)) \<Longrightarrow> str_replace p r (c # cs) = c # str_replace p r cs"
  by (subst str_replace.simps) auto

lemma buffer_len_dropWhile: "buffer_len (dropWhile P acc) \<le> buffer_len acc"
  by (induction acc) auto

lemma sanitize_loop_len:
  "buffer_len acc \<le> n \<Longrightarrow> buffer_len (fst (sanitize_loop n acc sp cs)) \<le> n"
  by (induction n acc sp cs rule: sanitize_loop.induct) (auto simp: Let_def)

lemma pop_to_len: "buffer_len (pop_to limit acc) \<le> limit"
  by (induction limit acc rule: pop_to.induct) auto

lemma length_sanitize_and_truncate: "length (sanitize_and_truncate v n) \<le> n"
proof -
  obtain acc tr where l: "sanitize_loop n [] False (chars (trim v)) = (acc, tr)"
    by (cases "sanitize_loop n [] False (chars (trim v))")
  have acc: "buffer_len acc \<le> n"
    using sanitize_loop_len [of "[]" n False "chars (trim v)"] by (simp add: l)
  have "buffer_len (pop_spaces (pop_to k (pop_spaces acc))) \<le> k" for k
    unfolding pop_spaces_def by (rule order_trans [OF buffer_len_dropWhile pop_to_len])
  moreover have "buffer_len (pop_spaces acc) \<le> n"
    unfolding pop_spaces_def using acc buffer_len_dropWhile order_trans by blast
  moreover from calculation(1) [of "n - min (length ELLIPSIS) n"]
  have "buffer_len (pop_spaces (pop_to (n - min (length ELLIPSIS) n) (pop_spaces acc))) + min (length ELLIPSIS) n \<le> n"
    by linarith
  ultimately show ?thesis
    unfolding sanitize_and_truncate_def l
    by (simp add: Let_def buffer_len_def [symmetric])
qed

text \<open>
  A clean buffer (newest first): every entry is one space or neither control nor white space,
  no two spaces are adjacent, and the oldest entry is no space.
\<close>

definition clean_entry :: "string \<Rightarrow> bool" where
  "clean_entry c \<longleftrightarrow> c = '' '' \<or> \<not> (is_control c \<or> is_whitespace c)"

fun clean_buffer :: "string list \<Rightarrow> bool" where
  "clean_buffer [] = True"
| "clean_buffer [c] = (clean_entry c \<and> c \<noteq> '' '')"
| "clean_buffer (c # d # acc) = (clean_entry c \<and> \<not> (c = '' '' \<and> d = '' '') \<and> clean_buffer (d # acc))"

lemma clean_entry_clean_char [simp]: "clean_entry (clean_char c)"
  by (simp add: clean_entry_def clean_char_def)

lemma clean_buffer_Cons:
  "clean_buffer acc \<Longrightarrow> clean_entry c \<Longrightarrow> c = '' '' \<longrightarrow> acc \<noteq> [] \<and> hd acc \<noteq> '' '' \<Longrightarrow> clean_buffer (c # acc)"
  by (cases acc) auto

lemma clean_buffer_tl: "clean_buffer (c # acc) \<Longrightarrow> clean_buffer acc"
  by (cases acc) auto

lemma sanitize_loop_clean:
  "clean_buffer acc \<Longrightarrow> (acc \<noteq> [] \<longrightarrow> (sp \<longleftrightarrow> hd acc = '' '')) \<Longrightarrow>
     clean_buffer (fst (sanitize_loop n acc sp cs))"
proof (induction n acc sp cs rule: sanitize_loop.induct)
  case (2 n acc sp c cs)
  then show ?case
    using clean_buffer_Cons [of acc "clean_char c"] by (auto simp: Let_def)
qed simp

lemma clean_buffer_pop: "clean_buffer acc \<Longrightarrow> clean_buffer (dropWhile P acc)"
  by (induction acc) (auto dest: clean_buffer_tl)

lemma clean_buffer_pop_to: "clean_buffer acc \<Longrightarrow> clean_buffer (pop_to k acc)"
  by (induction k acc rule: pop_to.induct) (auto dest: clean_buffer_tl)

section \<open>Nothing new is spelled out\<close>

definition space_free_tail :: "string \<Rightarrow> string" where
  "space_free_tail xs = rev (takeWhile (\<lambda>c. c \<noteq> CHR '' '') (rev xs))"

definition spelled_by :: "string \<Rightarrow> string \<Rightarrow> bool" where
  "spelled_by out inp \<longleftrightarrow> (\<forall>w. sublist w out \<longrightarrow> CHR '' '' \<notin> set w \<longrightarrow> sublist w inp)"

lemma suffix_space_free:
  assumes "suffix w xs" and "CHR '' '' \<notin> set w"
  shows "suffix w (space_free_tail xs)"
proof -
  from assms(1) have "prefix (rev w) (rev xs)"
    by (simp add: suffix_to_prefix)
  moreover have "takeWhile (\<lambda>c. c \<noteq> CHR '' '') (rev w @ ys) = rev w @ takeWhile (\<lambda>c. c \<noteq> CHR '' '') ys" for ys
    using assms(2) by (intro takeWhile_append2) auto
  ultimately show ?thesis
    by (auto simp: space_free_tail_def suffix_to_prefix prefix_def)
qed

lemma suffix_space_free_tail: "suffix (space_free_tail xs) xs"
  unfolding space_free_tail_def suffix_to_prefix by (simp add: takeWhile_is_prefix)

lemma space_free_tail_append: "suffix (space_free_tail (xs @ c)) (space_free_tail xs @ c)"
proof (cases "CHR '' '' \<in> set c")
  case True
  then have "space_free_tail (xs @ c) = space_free_tail c"
    by (simp add: space_free_tail_def takeWhile_append1)
  then show ?thesis
    using suffix_space_free_tail [of c] by (simp add: suffix_appendI)
next
  case False
  then have "takeWhile (\<lambda>d. d \<noteq> CHR '' '') (rev c @ rev xs) = rev c @ takeWhile (\<lambda>d. d \<noteq> CHR '' '') (rev xs)"
    by (intro takeWhile_append2) auto
  then have "space_free_tail (xs @ c) = space_free_tail xs @ c"
    by (simp add: space_free_tail_def)
  then show ?thesis by simp
qed

lemma spelled_by_append:
  assumes "spelled_by out inp" and "suffix (space_free_tail out) inp"
  shows "spelled_by (out @ c) (inp @ c)"
  unfolding spelled_by_def
proof (intro allI impI)
  fix w assume w: "sublist w (out @ c)" and free: "CHR '' '' \<notin> set w"
  from w consider "sublist w out" | "sublist w c"
    | w1 w2 where "w = w1 @ w2" "suffix w1 out" "prefix w2 c"
    by (auto simp: sublist_append)
  then show "sublist w (inp @ c)"
  proof cases
    case 1
    then show ?thesis using assms(1) free by (auto simp: spelled_by_def sublist_append)
  next
    case 2
    then show ?thesis by (simp add: sublist_append)
  next
    case 3
    then have "suffix w1 inp"
      using suffix_space_free [of w1 out] free assms(2) suffix_order.order_trans by auto
    with 3 show ?thesis by (auto simp: sublist_append)
  qed
qed

lemma spelled_by_mono: "spelled_by out inp \<Longrightarrow> sublist inp inp' \<Longrightarrow> spelled_by out inp'"
  by (auto simp: spelled_by_def intro: sublist_order.order_trans)

lemma spelled_by_space: "spelled_by out inp \<Longrightarrow> spelled_by (out @ '' '') inp"
  by (auto simp: spelled_by_def sublist_append suffix_Cons prefix_Cons sublist_Cons_right
      intro: suffix_imp_sublist)

lemma sanitize_loop_spelled:
  assumes "spelled_by (concat (rev acc)) inp" and "suffix (space_free_tail (concat (rev acc))) inp"
    and "sp \<longrightarrow> space_free_tail (concat (rev acc)) = []"
  shows "spelled_by (concat (rev (fst (sanitize_loop n acc sp cs)))) (inp @ concat cs)"
  using assms
proof (induction n acc sp cs arbitrary: inp rule: sanitize_loop.induct)
  case (1 n acc sp)
  then show ?case by simp
next
  case (2 n acc sp c cs)
  let ?ch = "clean_char c" and ?out = "concat (rev acc)"
  show ?case
  proof (cases "?ch = '' '' \<and> (sp \<or> acc = [])")
    case True
    then have "space_free_tail ?out = []"
      using "2.prems"(3) by (auto simp: space_free_tail_def)
    moreover have "spelled_by ?out (inp @ c)"
      by (rule spelled_by_mono [OF "2.prems"(1)]) simp
    ultimately show ?thesis
      using "2.IH"(1) [OF refl True, of "inp @ c"] True by (simp add: Let_def)
  next
    case False
    note skip = False
    show ?thesis
    proof (cases "buffer_len acc + length ?ch > n")
      case True
      then show ?thesis
        using spelled_by_mono [OF "2.prems"(1), of "inp @ c @ concat cs"]
        by (simp only: sanitize_loop.simps Let_def if_not_P [OF skip] if_P [OF True]) simp
    next
      case False
      have "spelled_by (?out @ ?ch) (inp @ c) \<and> suffix (space_free_tail (?out @ ?ch)) (inp @ c) \<and>
          (?ch = '' '' \<longrightarrow> space_free_tail (?out @ ?ch) = [])"
      proof (cases "?ch = '' ''")
        case True
        then show ?thesis
          using spelled_by_space [OF spelled_by_mono [OF "2.prems"(1), of "inp @ c"]]
          by (simp add: space_free_tail_def)
      next
        case False
        then have c: "?ch = c"
          by (auto simp: clean_char_def split: if_splits)
        have "suffix (space_free_tail ?out @ c) (inp @ c)"
          using "2.prems"(2) by (auto simp: suffix_def)
        then have "suffix (space_free_tail (?out @ c)) (inp @ c)"
          by (rule suffix_order.order_trans [OF space_free_tail_append])
        then show ?thesis
          using spelled_by_append [OF "2.prems"(1,2), of c] False c by simp
      qed
      then show ?thesis
        using "2.IH"(2) [OF refl skip False, of "inp @ c"]
        by (simp only: sanitize_loop.simps Let_def if_not_P [OF skip] if_not_P [OF False]) simp
    qed
  qed
qed


lemma sublist_trim: "sublist (trim v) v"
proof -
  have "sublist (concat (trim_chars cs)) (concat cs)" for cs
  proof -
    let ?d = "dropWhile is_whitespace cs"
    have "suffix ?d cs" by (rule suffix_dropWhile)
    moreover have "prefix (trim_chars cs) ?d"
      unfolding trim_chars_def by (metis rev_rev_ident suffix_dropWhile suffix_to_prefix)
    ultimately obtain xs ys where "cs = xs @ trim_chars cs @ ys"
      by (auto simp: suffix_def prefix_def)
    then have "concat cs = concat xs @ concat (trim_chars cs) @ concat ys"
      by (metis concat_append)
    then show ?thesis by (simp add: sublist_def) blast
  qed
  from this [of "chars v"] show ?thesis
    by (simp add: trim_def)
qed

lemma pop_to_suffix: "suffix (pop_to k acc) acc"
  by (induction k acc rule: pop_to.induct) (auto simp: suffix_Cons)

lemma prefix_concat_rev: "suffix ys acc \<Longrightarrow> prefix (concat (rev ys)) (concat (rev acc))"
  by (auto simp: suffix_def)

lemma sublist_before_dots:
  "sublist w (xs @ take k ''...'') \<Longrightarrow> CHR ''.'' \<notin> set w \<Longrightarrow> sublist w xs"
proof -
  assume w: "sublist w (xs @ take k ''...'')" "CHR ''.'' \<notin> set w"
  have dots: "set (take k ''...'') \<subseteq> {CHR ''.''}"
    using set_take_subset [of k "''...''"] by auto
  from w(1) consider "sublist w xs" | "sublist w (take k ''...'')"
    | w1 w2 where "w = w1 @ w2" "suffix w1 xs" "prefix w2 (take k ''...'')"
    by (auto simp: sublist_append)
  then show ?thesis
  proof cases
    case 2
    then have "set w \<subseteq> {CHR ''.''}"
      using dots set_mono_sublist by blast
    with w(2) show ?thesis by (cases w) auto
  next
    case 3
    then have "set w2 \<subseteq> {CHR ''.''}"
      using dots set_mono_prefix by blast
    with w(2) 3(1) have "w2 = []" by (cases w2) auto
    with 3 show ?thesis by (auto intro: suffix_imp_sublist)
  qed
qed

lemma sanitize_spells_nothing_new:
  assumes "sublist w (sanitize_and_truncate v n)" and "CHR '' '' \<notin> set w" and "CHR ''.'' \<notin> set w"
  shows "sublist w v"
proof -
  obtain acc tr where l: "sanitize_loop n [] False (chars (trim v)) = (acc, tr)"
    by (cases "sanitize_loop n [] False (chars (trim v))")
  have "spelled_by (concat (rev acc)) (trim v)"
    using sanitize_loop_spelled [of "[]" "[]" False n "chars (trim v)"]
    by (simp add: l spelled_by_def space_free_tail_def)
  then have sp: "spelled_by (concat (rev acc)) v"
    by (rule spelled_by_mono) (rule sublist_trim)
  have pop: "prefix (concat (rev (pop_spaces acc'))) (concat (rev acc'))" for acc'
    unfolding pop_spaces_def by (intro prefix_concat_rev suffix_dropWhile)
  have "prefix (concat (rev (pop_spaces (pop_to k (pop_spaces acc))))) (concat (rev acc))" for k
    using pop prefix_concat_rev [OF pop_to_suffix] prefix_order.order_trans by blast
  then have "sublist w (concat (rev acc))"
    using assms(1,3) pop [of acc] unfolding sanitize_and_truncate_def l ELLIPSIS_def
    by (auto simp: Let_def split: if_splits dest!: sublist_before_dots
        intro: sublist_order.order_trans [OF _ prefix_imp_sublist])
  then show ?thesis
    using sp assms(2) by (simp add: spelled_by_def)
qed

section \<open>Redaction\<close>

lemma replace_prefix:
  "prefix u (str_replace p ''[redacted]'' s) \<Longrightarrow> CHR ''['' \<notin> set u \<Longrightarrow> prefix u s"
proof (induction s arbitrary: u rule: length_induct)
  case (1 s)
  show ?case
  proof (cases s)
    case Nil
    with 1 show ?thesis by (simp add: str_replace.simps)
  next
    case (Cons c cs)
    show ?thesis
    proof (cases "p \<noteq> [] \<and> prefix p s")
      case True
      then have "str_replace p ''[redacted]'' s = CHR ''['' # ''redacted]'' @ str_replace p ''[redacted]'' (drop (length p) s)"
        by (simp add: str_replace_match)
      with 1(2,3) show ?thesis by (cases u) auto
    next
      case False
      then have "str_replace p ''[redacted]'' s = c # str_replace p ''[redacted]'' cs"
        using Cons by (simp add: str_replace_skip)
      with 1 Cons show ?thesis by (cases u) auto
    qed
  qed
qed

lemma replace_removes:
  assumes "p \<noteq> []" and "CHR ''['' \<notin> set p" and "CHR '']'' \<notin> set p" and "\<not> sublist p ''redacted''"
  shows "\<not> sublist p (str_replace p ''[redacted]'' s)"
proof (induction s rule: length_induct)
  case (1 s)
  show ?case
  proof (cases s)
    case Nil
    with assms(1) show ?thesis by (simp add: str_replace.simps)
  next
    case (Cons c cs)
    show ?thesis
    proof (cases "prefix p s")
      case True
      let ?o = "str_replace p ''[redacted]'' (drop (length p) s)"
      have eq: "str_replace p ''[redacted]'' s = CHR ''['' # ''redacted'' @ CHR '']'' # ?o"
        using True assms(1) by (simp add: str_replace_match)
      have "length (drop (length p) s) < length s"
        using Cons assms(1) by simp
      then have IH: "\<not> sublist p ?o"
        using 1 by blast
      have "\<not> sublist p (''redacted'' @ CHR '']'' # ?o)"
      proof
        assume "sublist p (''redacted'' @ CHR '']'' # ?o)"
        then consider "sublist p ''redacted''" | "sublist p (CHR '']'' # ?o)"
          | p1 p2 where "p = p1 @ p2" "suffix p1 ''redacted''" "prefix p2 (CHR '']'' # ?o)"
          unfolding sublist_append by blast
        then show False
        proof cases
          case 2
          then show ?thesis
            using IH assms(1,3) by (cases p) (auto simp: sublist_Cons_right)
        next
          case 3
          then have "p2 = []" using assms(3) by (cases p2) auto
          with 3 assms(4) show ?thesis by (auto dest: suffix_imp_sublist)
        qed (use assms(4) in blast)
      qed
      then show ?thesis
        unfolding eq using assms(1,2) by (cases p) (auto simp: sublist_Cons_right)
    next
      case False
      have eq: "str_replace p ''[redacted]'' s = c # str_replace p ''[redacted]'' cs"
        using Cons False by (simp add: str_replace_skip)
      show ?thesis
      proof
        assume "sublist p (str_replace p ''[redacted]'' s)"
        then have "prefix p (str_replace p ''[redacted]'' s)"
          using 1 Cons unfolding eq by (auto simp: sublist_Cons_right)
        then show False
          using replace_prefix [of p p s] assms(2) False by blast
      qed
    qed
  qed
qed

text \<open>What every usable token is like: visible text without brackets or dots.\<close>

definition redactable :: "string \<Rightarrow> bool" where
  "redactable token \<longleftrightarrow> token \<noteq> [] \<and> CHR ''['' \<notin> set token \<and> CHR '']'' \<notin> set token \<and>
     CHR ''.'' \<notin> set token \<and> CHR '' '' \<notin> set token \<and> \<not> sublist token ''redacted''"

lemma sanitize_remote_value_redacts:
  "redactable token \<Longrightarrow> \<not> sublist token (sanitize_remote_value v token n)"
proof
  assume r: "redactable token" and "sublist token (sanitize_remote_value v token n)"
  then have s: "sublist token (sanitize_and_truncate
      (if str_contains v token then str_replace token ''[redacted]'' v else v) n)"
    by (simp add: sanitize_remote_value_def redactable_def split: if_splits)
  have "sublist token (if str_contains v token then str_replace token ''[redacted]'' v else v)"
    using r by (intro sanitize_spells_nothing_new [OF s]) (simp_all add: redactable_def)
  then show False
    using replace_removes [of token v] r by (simp add: redactable_def split: if_splits)
qed


text \<open>
  The summary that is displayed also holds separators and error codes. A token in which none of
  their characters occur, and that is not a number, is not spelled by them.
\<close>

definition plain_token :: "string \<Rightarrow> bool" where
  "plain_token token \<longleftrightarrow> redactable token \<and> CHR '';'' \<notin> set token \<and> CHR ''('' \<notin> set token \<and>
     CHR '')'' \<notin> set token \<and> \<not> set token \<subseteq> set ''-0123456789''"

lemma sublist_split: "c \<notin> set w \<Longrightarrow> sublist w (xs @ c # ys) \<Longrightarrow> sublist w xs \<or> sublist w ys"
  by (auto simp: sublist_append sublist_Cons_right prefix_Cons dest: suffix_imp_sublist)

lemma set_show_nat: "set (show_nat n) \<subseteq> set ''0123456789''"
proof -
  obtain ds where ds: "show_nat n = map digit_char ds" "\<forall>d \<in> set ds. d < 10"
    using show_base_digits [of 10 n] unfolding show_nat_def by auto
  have "digit_char d \<in> set ''0123456789''" if "d < 10" for d
  proof -
    have "d \<in> {0, 1, 2, 3, 4, 5, 6, 7, 8, 9}" using that by auto
    then show ?thesis by (elim insertE) (simp_all add: digit_char_def char_of_def bit_0)
  qed
  then show ?thesis using ds by auto
qed

lemma set_show_int: "set (show_int k) \<subseteq> set ''-0123456789''"
proof -
  have d: "set ''0123456789'' \<subseteq> set ''-0123456789''" by (simp only: list.set) blast
  have m: "CHR ''-'' \<in> set ''-0123456789''" by (simp only: list.set) blast
  show ?thesis
    using subset_trans [OF set_show_nat d] m unfolding show_int_def by (simp only: list.set insert_subset split: if_split) metis
qed

lemma sublist_str_join:
  assumes "CHR '';'' \<notin> set w" and "CHR '' '' \<notin> set w" and "w \<noteq> []"
  shows "\<forall>x \<in> set xs. \<not> sublist w x \<Longrightarrow> \<not> sublist w (str_join ''; '' xs)"
proof (induction "''; ''" xs rule: str_join.induct)
  case (3 x y xs)
  have eq: "str_join ''; '' (x # y # xs) = x @ CHR '';'' # [] @ CHR '' '' # str_join ''; '' (y # xs)" by simp
  have "\<not> sublist w x" "\<not> sublist w (str_join ''; '' (y # xs))" using 3 by simp_all
  moreover have "\<not> sublist w []" using assms(3) by simp
  ultimately show ?case
    unfolding eq using sublist_split assms(1,2) by metis
qed (use assms(3) in simp_all)

lemma summarize_errors_redacts:
  assumes "plain_token token"
  shows "\<forall>x \<in> set acc. \<not> sublist token x \<Longrightarrow> \<forall>x \<in> set (fst (summarize_errors token acc es)). \<not> sublist token x"
proof (induction es arbitrary: acc)
  case (Cons e es)
  let ?m = "sanitize_remote_value (ed_message e) token MAX_ERROR_MESSAGE_BYTES"
  define part where "part = (case ed_code e of Some code \<Rightarrow> ?m @ '' ('' @ show_int code @ '')'' | None \<Rightarrow> ?m)"
  have t: "redactable token" "token \<noteq> []" "CHR '' '' \<notin> set token" "CHR ''('' \<notin> set token" "CHR '')'' \<notin> set token"
    "\<not> set token \<subseteq> set ''-0123456789''"
    using assms by (simp_all add: plain_token_def redactable_def)
  have m: "\<not> sublist token ?m" by (rule sanitize_remote_value_redacts [OF t(1)])
  have none: "\<not> sublist token []" using t(2) by simp
  have "\<not> sublist token (?m @ '' ('' @ show_int code @ '')'')" for code
  proof -
    have eq: "?m @ '' ('' @ show_int code @ '')'' = ?m @ CHR '' '' # [] @ CHR ''('' # show_int code @ CHR '')'' # []" by simp
    have "\<not> sublist token (show_int code)"
      using set_mono_sublist [of token "show_int code"] set_show_int [of code] t(6) by blast
    then show ?thesis
      unfolding eq using sublist_split t(3-5) m none by metis
  qed
  then have "\<not> sublist token part" using m by (simp add: part_def split: option.split)
  then have acc: "\<forall>x \<in> set (acc @ [part]). \<not> sublist token x" using Cons.prems by simp
  show ?case
    using Cons.IH [OF Cons.prems] Cons.IH [OF acc] Cons.prems
    unfolding summarize_errors.simps Let_def part_def [symmetric] by simp
qed simp

lemma error_summary_redacts:
  assumes "plain_token token"
    and "\<not> sublist token (case st_reason status of Some r \<Rightarrow> r | None \<Rightarrow> ''unspecified Cloudflare error'')"
  shows "\<not> sublist token (error_summary errors status token)"
proof -
  obtain parts omitted where parts: "summarize_errors token [] errors = (parts, omitted)"
    by (cases "summarize_errors token [] errors")
  have t: "token \<noteq> []" "CHR '';'' \<notin> set token" "CHR '' '' \<notin> set token" "CHR ''.'' \<notin> set token"
    using assms(1) by (simp_all add: plain_token_def redactable_def)
  have "\<forall>x \<in> set parts. \<not> sublist token x"
    using summarize_errors_redacts [OF assms(1), of "[]" errors] parts by simp
  then have join: "\<not> sublist token (str_join ''; '' parts)" using sublist_str_join [OF t(2,3,1)] by blast
  have "\<not> sublist token (str_join ''; '' parts @ (if omitted then ''; ...'' else []))"
    using join sublist_split [OF t(2), of "str_join ''; '' parts" "'' ...''"] sublist_split [OF t(3), of "[]" "''...''"]
      set_mono_sublist [of token "''...''"] t by (cases token) auto
  then have "\<not> sublist token (sanitize_and_truncate (str_join ''; '' parts @ (if omitted then ''; ...'' else [])) n)" for n
    using sanitize_spells_nothing_new t(3,4) by blast
  then show ?thesis
    using assms(2) by (auto simp: error_summary_def parts Let_def)
qed


section \<open>Properties\<close>

text \<open>
  Text taken from a response is bounded and clean before it enters a message: at most
  \<open>n\<close> bytes, made of characters that are neither control characters nor white space and of
  single spaces between them, followed by an ellipsis (cut to the limit) only when shortened.
\<close>

lemma sanitized_text_clean:
  "length (sanitize_and_truncate v n) \<le> n \<and>
   (\<exists>buf. clean_buffer buf \<and> (buf = [] \<or> hd buf \<noteq> '' '') \<and>
     (sanitize_and_truncate v n = concat (rev buf) \<or>
      sanitize_and_truncate v n = concat (rev buf) @ take n ''...''))"
proof
  show "length (sanitize_and_truncate v n) \<le> n"
    by (rule length_sanitize_and_truncate)
next
  obtain acc tr where l: "sanitize_loop n [] False (chars (trim v)) = (acc, tr)"
    by (cases "sanitize_loop n [] False (chars (trim v))")
  have acc: "clean_buffer acc"
    using sanitize_loop_clean [of "[]" False n "chars (trim v)"] by (simp add: l)
  have hd_pop: "pop_spaces xs = [] \<or> hd (pop_spaces xs) \<noteq> '' ''" for xs
    using hd_dropWhile [of "\<lambda>c. c = '' ''" xs] by (auto simp: pop_spaces_def)
  have clean: "clean_buffer (pop_spaces xs)" if "clean_buffer xs" for xs
    using that by (simp add: pop_spaces_def clean_buffer_pop)
  have dots: "take (min (length ELLIPSIS) n) ELLIPSIS = take n ''...''"
    by (simp add: ELLIPSIS_def min_def)
  show "\<exists>buf. clean_buffer buf \<and> (buf = [] \<or> hd buf \<noteq> '' '') \<and>
     (sanitize_and_truncate v n = concat (rev buf) \<or>
      sanitize_and_truncate v n = concat (rev buf) @ take n ''...'')"
    unfolding sanitize_and_truncate_def l Let_def dots
    using hd_pop clean clean_buffer_pop_to acc by (cases tr) (simp_all, blast+)
qed

theorem sanitized_text_clean_witness:
  "length (sanitize_and_truncate ''many  words'' 8) \<le> 8 \<and>
   (\<exists>buf. clean_buffer buf \<and> (buf = [] \<or> hd buf \<noteq> '' ''))"
  using sanitized_text_clean [of "''many  words''" 8] by blast

text \<open>
  C26: what a response says never shows the API token, whatever the server echoes and however the text is
  cut: neither the message that is displayed, nor the details kept with it, nor any other
  cleaned value. That holds for every token without brackets, parentheses, dots, semicolons and spaces that is not
  a number and not a piece of the replacement text or of the status phrase. The details are at most four, of
  bounded length.
\<close>

theorem token_is_redacted:
  assumes "plain_token token"
    and "\<not> sublist token (case st_reason status of Some r \<Rightarrow> r | None \<Rightarrow> ''unspecified Cloudflare error'')"
  shows "\<not> sublist token (sanitize_remote_value v token n) \<and>
    \<not> sublist token (fst (prepare_error_details errors status token)) \<and>
    (\<forall>e \<in> set (snd (prepare_error_details errors status token)).
       \<not> sublist token (ed_message e) \<and> length (ed_message e) \<le> MAX_ERROR_MESSAGE_BYTES) \<and>
    length (snd (prepare_error_details errors status token)) \<le> MAX_ERROR_DETAILS"
proof -
  have r: "redactable token" using assms(1) by (simp add: plain_token_def)
  have "\<not> sublist token (ed_message e) \<and> length (ed_message e) \<le> MAX_ERROR_MESSAGE_BYTES"
    if "e \<in> set (snd (prepare_error_details errors status token))" for e
  proof -
    have "e \<in> set (List.map_filter (clean_detail token) errors)"
      using that unfolding prepare_error_details_def snd_conv by (rule in_set_takeD)
    then obtain d where "clean_detail token d = Some e"
      by (auto simp: List.map_filter_def)
    then have "ed_message e = sanitize_remote_value (ed_message d) token MAX_ERROR_MESSAGE_BYTES"
      by (auto simp: clean_detail_def Let_def split: if_splits)
    then show ?thesis
      using sanitize_remote_value_redacts [OF r] length_sanitize_and_truncate
      by (simp add: sanitize_remote_value_def)
  qed
  then show ?thesis
    using sanitize_remote_value_redacts [OF r] error_summary_redacts [OF assms] by (simp add: prepare_error_details_def)
qed

theorem token_is_redacted_witness:
  "\<not> sublist ''cfut_k3y'' (fst (prepare_error_details [\<lparr>ed_code = Some 1000, ed_message = ''bad token cfut_k3y''\<rparr>]
     \<lparr>st_code = 403, st_success = False, st_server_error = False, st_reason = Some ''Forbidden'', st_text = ''403 Forbidden''\<rparr>
     ''cfut_k3y''))"
proof -
  have "plain_token ''cfut_k3y''"
    by (simp add: plain_token_def redactable_def sublist_Cons_right)
  moreover have "\<not> sublist ''cfut_k3y'' ''Forbidden''" by (simp add: sublist_Cons_right)
  ultimately show ?thesis
    using token_is_redacted [of "''cfut_k3y''"] by simp
qed

text \<open>
  Which endpoint verifies the token. An account token needs a 32-digit account ID and is
  verified there, a user token must come without one, global API keys and every other
  \<open>cf\<dots>_\<close> prefix are refused, and an unprefixed token follows the account ID.
\<close>

lemma verification_target_table:
  "select_verification_target token i =
     (case normalize_account_id i of
        Inl e \<Rightarrow> Inl InvalidAccountId
      | Inr aid \<Rightarrow>
          (case split_once (CHR ''_'') token of
             Some (pre, _) \<Rightarrow>
               if pre = ''cfat'' then (case aid of Some a \<Rightarrow> Inr (Account a) | None \<Rightarrow> Inl AccountIdRequired)
               else if pre = ''cfut'' then (case aid of Some _ \<Rightarrow> Inl UserTokenAccountMismatch | None \<Rightarrow> Inr User)
               else if pre = ''cfk'' then Inl GlobalApiKeyUnsupported
               else if 3 \<le> length pre \<and> length pre \<le> 12 \<and> starts_with pre ''cf'' \<and> list_all is_ascii_lowercase pre
               then Inl UnsupportedCredentialType
               else Inr (case aid of None \<Rightarrow> User | Some a \<Rightarrow> Account a)
           | None \<Rightarrow> Inr (case aid of None \<Rightarrow> User | Some a \<Rightarrow> Account a)))"
proof -
  have pre: "starts_with token (p @ ''_'') \<longleftrightarrow> (\<exists>rest. split_once (CHR ''_'') token = Some (p, rest))"
    if "CHR ''_'' \<notin> set p" for p
  proof
    assume "starts_with token (p @ ''_'')"
    then obtain rest where "token = p @ CHR ''_'' # rest" by (auto simp: prefix_def)
    moreover have "takeWhile (\<lambda>c. c \<noteq> CHR ''_'') (p @ CHR ''_'' # rest) = p"
      "dropWhile (\<lambda>c. c \<noteq> CHR ''_'') (p @ CHR ''_'' # rest) = CHR ''_'' # rest"
      using that by (induction p) auto
    ultimately show "\<exists>rest. split_once (CHR ''_'') token = Some (p, rest)"
      by (simp add: split_once_def)
  next
    assume "\<exists>rest. split_once (CHR ''_'') token = Some (p, rest)"
    then obtain c rest where "dropWhile (\<lambda>c. c \<noteq> CHR ''_'') token = c # rest"
      "takeWhile (\<lambda>c. c \<noteq> CHR ''_'') token = p"
      by (auto simp: split_once_def split: list.splits)
    moreover from this have "c = CHR ''_''"
      using hd_dropWhile [of "\<lambda>c. c \<noteq> CHR ''_''" token] by auto
    ultimately have "token = p @ CHR ''_'' # rest"
      by (metis takeWhile_dropWhile_id)
    then show "starts_with token (p @ ''_'')" by simp
  qed
  have pres: "starts_with token ''cfat_'' \<longleftrightarrow> (\<exists>rest. split_once (CHR ''_'') token = Some (''cfat'', rest))"
    "starts_with token ''cfut_'' \<longleftrightarrow> (\<exists>rest. split_once (CHR ''_'') token = Some (''cfut'', rest))"
    "starts_with token ''cfk_'' \<longleftrightarrow> (\<exists>rest. split_once (CHR ''_'') token = Some (''cfk'', rest))"
    using pre [of "''cfat''"] pre [of "''cfut''"] pre [of "''cfk''"] by simp_all
  have err: "normalize_account_id i = Inl e \<Longrightarrow> e = InvalidAccountId" for e
    by (auto simp: normalize_account_id_def split: option.splits if_splits)
  show ?thesis
    unfolding select_verification_target_def pres has_scannable_credential_prefix_def
    using err by (auto split: sum.split option.split)
qed

end
