(* ===== verification/Cloudflare.thy ===== *)
theory Cloudflare
  imports Cf_Error
begin

text \<open>
  \<open>cloudflare.rs\<close>: the API client. Requests run through \<open>await\<close>; the shared zone cache is
  part of the process state. Decoding JSON, checking a header value, building the HTTP client
  and parsing URLs are parameters.
\<close>

section \<open>The client\<close>

definition API_BASE :: string where "API_BASE = ''https://api.cloudflare.com/client/v4/''"
definition ZONE_PAGE_SIZE :: nat where "ZONE_PAGE_SIZE = 50"
definition RECORD_PAGE_SIZE :: nat where "RECORD_PAGE_SIZE = 100"
definition MAX_PAGES :: nat where "MAX_PAGES = 100"
definition CF_MAX_RESPONSE_BYTES :: nat where "CF_MAX_RESPONSE_BYTES = 1024 * 1024"
definition MAX_RETRY_AFTER :: duration where "MAX_RETRY_AFTER = from_secs (60 * 60)"

record cloudflare_client =
  cc_api_base :: url
  cc_api_token :: string
  cc_verification_target :: verification_target
  cc_request_timeout :: duration

text \<open>
  \<open>CloudflareClient::with_api_base\<close>. \<open>header_ok\<close> is the HTTP library's test of a header
  value, \<open>builder_error\<close> the outcome of its client builder, \<open>parse\<close> its URL parser.
\<close>

definition with_api_base :: "(string \<Rightarrow> bool) \<Rightarrow> string option \<Rightarrow> url_parser \<Rightarrow> string \<Rightarrow> string option
    \<Rightarrow> duration \<Rightarrow> string \<Rightarrow> (cloudflare_client, cloudflare_error) result" where
  "with_api_base header_ok builder_error parse token aid timeout base =
     bind_res (ensure (timeout \<noteq> 0) CfInvalidTimeout) (\<lambda>_.
     bind_res (select_verification_target token aid) (\<lambda>target.
     bind_res (ensure (header_ok (''Bearer '' @ token)) CfInvalidToken) (\<lambda>_.
     bind_res (case builder_error of Some e \<Rightarrow> Inl (CfClientBuild e) | None \<Rightarrow> Inr ()) (\<lambda>_.
     bind_res (map_err (\<lambda>_. InvalidBaseUrl) (parse base)) (\<lambda>url.
     let url' = (if ends_with (url_path url) ''/'' then url else url\<lparr>url_path := url_path url @ ''/''\<rparr>) in
     Inr \<lparr>cc_api_base = url', cc_api_token = token, cc_verification_target = target,
          cc_request_timeout = timeout\<rparr>)))))"

definition cf_new :: "(string \<Rightarrow> bool) \<Rightarrow> string option \<Rightarrow> url_parser \<Rightarrow> string \<Rightarrow> duration
    \<Rightarrow> (cloudflare_client, cloudflare_error) result" where
  "cf_new header_ok builder_error parse token timeout =
     with_api_base header_ok builder_error parse token None timeout API_BASE"

definition cf_new_with_account_id :: "(string \<Rightarrow> bool) \<Rightarrow> string option \<Rightarrow> url_parser \<Rightarrow> string \<Rightarrow> string
    \<Rightarrow> duration \<Rightarrow> (cloudflare_client, cloudflare_error) result" where
  "cf_new_with_account_id header_ok builder_error parse token aid timeout =
     with_api_base header_ok builder_error parse token (Some aid) timeout API_BASE"

text \<open>
  \<open>endpoint\<close>: the base URL's path segments, without a last empty one, extended by the given
  ones. The base is an \<open>https\<close> URL, which always has path segments. The URL library leaves out an
  added segment that is \<open>.\<close> or \<open>..\<close>; this is not modelled, for no configured identifier is one (\<open>valid_id\<close>),
  and the others come from the service.
\<close>

definition endpoint :: "cloudflare_client \<Rightarrow> string list \<Rightarrow> http_url" where
  "endpoint client segs =
     (let base = split_char (CHR ''/'') (drop 1 (url_path (cc_api_base client)))
      in ApiUrl (url_origin (cc_api_base client)) ((if last base = [] then butlast base else base) @ segs))"

section \<open>Responses\<close>

definition has_next_page :: "nat \<Rightarrow> nat \<Rightarrow> nat \<Rightarrow> result_info option \<Rightarrow> bool" where
  "has_next_page page result_count page_size info =
     (case (case info of None \<Rightarrow> None | Some i \<Rightarrow> ri_total_pages i) of
        None \<Rightarrow> result_count = page_size
      | Some total_pages \<Rightarrow> page < total_pages)"

definition parse_retry_after :: "string option \<Rightarrow> duration option" where
  "parse_retry_after header =
     (case header of
        None \<Rightarrow> None
      | Some v \<Rightarrow> (case parse_u64 (trim v) of None \<Rightarrow> None
          | Some n \<Rightarrow> Some (min (from_secs n) MAX_RETRY_AFTER)))"

definition retry_suffix :: "duration option \<Rightarrow> string" where
  "retry_suffix r = (case r of None \<Rightarrow> [] | Some d \<Rightarrow> '' (retry after '' @ show_nat (as_secs d) @ ''s)'')"

definition read_response_body ::
  "string \<Rightarrow> http_response \<Rightarrow> (http_status \<times> duration option \<times> string, cloudflare_error) result" where
  "read_response_body operation response =
     bind_res
       (map_err (\<lambda>e. case e of
            BodyTooLarge \<Rightarrow> CfResponseTooLarge operation CF_MAX_RESPONSE_BYTES
          | BodyTransport t \<Rightarrow> CfRequest operation t)
         (limited_body CF_MAX_RESPONSE_BYTES response))
       (\<lambda>body. Inr (rs_status response, parse_retry_after (rs_retry_after response), body))"

definition envelope_errors :: "('a api_envelope, string) result \<Rightarrow> api_error_detail list" where
  "envelope_errors parsed = (case parsed of Inl _ \<Rightarrow> [] | Inr e \<Rightarrow> ae_errors e)"

text \<open>The part of \<open>send\<close> after the body was read and decoded.\<close>

definition classify_response :: "cloudflare_client \<Rightarrow> string \<Rightarrow> http_status \<Rightarrow> duration option
    \<Rightarrow> ('a api_envelope, string) result \<Rightarrow> ('a api_response, cloudflare_error) result" where
  "classify_response client operation status retry_after parsed =
     (case prepare_error_details (envelope_errors parsed) status (cc_api_token client) of
        (message, errors) \<Rightarrow>
          if st_code status = 401 then Inl (Authentication status message errors)
          else if st_code status = 403 then Inl (PermissionDenied status message errors)
          else if st_code status = 429 then
            Inl (RateLimited retry_after (retry_suffix retry_after) message errors)
          else if \<not> st_success status then
            Inl (Api operation status retry_after (retry_suffix retry_after) message errors)
          else
            (case parsed of
               Inl source \<Rightarrow> Inl (CfMalformedResponse operation
                 (sanitize_remote_value source (cc_api_token client) MAX_ERROR_SUMMARY_BYTES))
             | Inr envelope \<Rightarrow>
                 if \<not> ae_success envelope then
                   Inl (Api operation status retry_after (retry_suffix retry_after) message errors)
                 else (case ae_result envelope of
                     None \<Rightarrow> Inl (MissingResult operation)
                   | Some r \<Rightarrow> Inr \<lparr>ar_result = r, ar_result_info = ae_result_info envelope\<rparr>)))"

definition handle_response :: "cloudflare_client \<Rightarrow> 'a decoder \<Rightarrow> string
    \<Rightarrow> (http_response, string) result \<Rightarrow> ('a api_response, cloudflare_error) result" where
  "handle_response client decode operation outcome =
     bind_res (map_err (CfRequest operation) outcome) (\<lambda>response.
     bind_res (read_response_body operation response) (\<lambda>(status, retry_after, body).
     classify_response client operation status retry_after (decode body)))"

definition send :: "'w env \<Rightarrow> cloudflare_client \<Rightarrow> 'a decoder \<Rightarrow> http_request \<Rightarrow> string
    \<Rightarrow> ('w, ('a api_response, cloudflare_error) result) io" where
  "send env client decode request operation =
     bind_io (await env request) (\<lambda>outcome. ret (handle_response client decode operation outcome))"

definition cf_sanitize :: "cloudflare_client \<Rightarrow> string \<Rightarrow> string" where
  "cf_sanitize client v = sanitize_remote_value v (cc_api_token client) MAX_ERROR_MESSAGE_BYTES"

section \<open>Token verification\<close>

definition verify_endpoint :: "cloudflare_client \<Rightarrow> http_url" where
  "verify_endpoint client =
     (case cc_verification_target client of
        User \<Rightarrow> endpoint client [''user'', ''tokens'', ''verify'']
      | Account aid \<Rightarrow> endpoint client [''accounts'', aid, ''tokens'', ''verify''])"

definition verify_token :: "'w env \<Rightarrow> cloudflare_client \<Rightarrow> ('w, (unit, cloudflare_error) result) io" where
  "verify_token env client =
     bind_io (send env client (ev_json_token env) (get_request (verify_endpoint client) [])
         ''verifying the API token'')
       (\<lambda>r. ret (case r of
          Inl e \<Rightarrow> Inl (case cc_verification_target client of
              Account _ \<Rightarrow> contextualize_account_verification_error e | User \<Rightarrow> e)
        | Inr response \<Rightarrow>
            if eq_ignore_ascii_case (tv_status (ar_result response)) ''active'' then Inr ()
            else Inl (TokenInactive (cf_sanitize client (tv_status (ar_result response))))))"

section \<open>Zones\<close>

definition cache_zone :: "string \<Rightarrow> string \<Rightarrow> ('w, unit) io" where
  "cache_zone key zid = modify_sys (\<lambda>s. s\<lparr>zone_cache := (zone_cache s)(key \<mapsto> zid)\<rparr>)"

definition explicit_key :: "string \<Rightarrow> string \<Rightarrow> string" where
  "explicit_key zname zid = ''id:'' @ to_ascii_lowercase zid @ '':'' @ to_ascii_lowercase zname"

definition named_key :: "string \<Rightarrow> string" where
  "named_key zname = ''name:'' @ to_ascii_lowercase zname"

definition check_explicit_zone ::
  "cloudflare_client \<Rightarrow> string \<Rightarrow> string \<Rightarrow> zone_info \<Rightarrow> (unit, cloudflare_error) result" where
  "check_explicit_zone client zname zid z =
     (if \<not> eq_ignore_ascii_case (zi_name z) zname then
        Inl (ZoneNameMismatch zname (cf_sanitize client (zi_name z)) zid)
      else if \<not> eq_ignore_ascii_case (zi_id z) zid then
        Inl (ZoneIdMismatch zid (cf_sanitize client (zi_id z)))
      else if \<not> eq_ignore_ascii_case (zi_status z) ''active'' then
        Inl (ZoneNotActive zname (cf_sanitize client (zi_status z)))
      else Inr ())"

definition resolve_explicit_zone_id ::
  "'w env \<Rightarrow> cloudflare_client \<Rightarrow> string \<Rightarrow> string \<Rightarrow> ('w, (string, cloudflare_error) result) io" where
  "resolve_explicit_zone_id env client zname zid =
     bind_io get_sys (\<lambda>s.
       case zone_cache s (explicit_key zname zid) of
         Some cached \<Rightarrow> ret (Inr cached)
       | None \<Rightarrow>
           bind_ok (send env client (ev_json_zone env) (get_request (endpoint client [''zones'', zid]) [])
               ''verifying an explicit zone ID'') (\<lambda>response.
             case check_explicit_zone client zname zid (ar_result response) of
               Inl e \<Rightarrow> ret (Inl e)
             | Inr _ \<Rightarrow> bind_io (cache_zone (explicit_key zname zid) zid) (\<lambda>_. ret (Inr zid))))"

text \<open>The loop over one page of zones: the active match and the first inactive status so far.\<close>

fun scan_zones :: "cloudflare_client \<Rightarrow> string \<Rightarrow> string option \<Rightarrow> string option \<Rightarrow> zone_info list
    \<Rightarrow> (string option \<times> string option, cloudflare_error) result" where
  "scan_zones client zname exact inactive [] = Inr (exact, inactive)"
| "scan_zones client zname exact inactive (z # zs) =
     (if eq_ignore_ascii_case (zi_name z) zname then
        if eq_ignore_ascii_case (zi_status z) ''active'' then
          if exact \<noteq> None then Inl (AmbiguousZone zname)
          else scan_zones client zname (Some (zi_id z)) inactive zs
        else scan_zones client zname exact
          (if inactive = None then Some (cf_sanitize client (zi_status z)) else inactive) zs
      else scan_zones client zname exact inactive zs)"

definition zone_page_request :: "cloudflare_client \<Rightarrow> string \<Rightarrow> nat \<Rightarrow> http_request" where
  "zone_page_request client zname page =
     get_request (endpoint client [''zones''])
       [(''name'', zname), (''page'', show_nat page), (''per_page'', show_nat ZONE_PAGE_SIZE)]"

definition no_zone :: "string \<Rightarrow> string option \<Rightarrow> cloudflare_error" where
  "no_zone zname inactive =
     (case inactive of Some status \<Rightarrow> ZoneNotActive zname status | None \<Rightarrow> ZoneNotFound zname)"

text \<open>
  The page loop, on the number of pages still allowed: with \<open>Suc k\<close> left the page number is
  \<open>MAX_PAGES - k\<close>, and with none left the page number would exceed \<open>MAX_PAGES\<close>.
\<close>

fun zone_pages :: "'w env \<Rightarrow> cloudflare_client \<Rightarrow> string \<Rightarrow> string option \<Rightarrow> string option \<Rightarrow> nat
    \<Rightarrow> ('w, (string, cloudflare_error) result) io" where
  "zone_pages env client zname exact inactive 0 = ret (Inl (PaginationLimit ''looking up a zone''))"
| "zone_pages env client zname exact inactive (Suc k) =
     bind_ok (send env client (ev_json_zones env) (zone_page_request client zname (MAX_PAGES - k))
         ''looking up a zone'') (\<lambda>response.
       case scan_zones client zname exact inactive (ar_result response) of
         Inl e \<Rightarrow> ret (Inl e)
       | Inr (exact', inactive') \<Rightarrow>
           if has_next_page (MAX_PAGES - k) (length (ar_result response)) ZONE_PAGE_SIZE (ar_result_info response)
           then zone_pages env client zname exact' inactive' k
           else (case exact' of
               None \<Rightarrow> ret (Inl (no_zone zname inactive'))
             | Some zid \<Rightarrow> bind_io (cache_zone (named_key zname) zid) (\<lambda>_. ret (Inr zid))))"

definition resolve_named_zone_id ::
  "'w env \<Rightarrow> cloudflare_client \<Rightarrow> string \<Rightarrow> ('w, (string, cloudflare_error) result) io" where
  "resolve_named_zone_id env client zname =
     bind_io get_sys (\<lambda>s.
       case zone_cache s (named_key zname) of
         Some zid \<Rightarrow> ret (Inr zid)
       | None \<Rightarrow> zone_pages env client zname None None MAX_PAGES)"

definition resolve_zone_id ::
  "'w env \<Rightarrow> cloudflare_client \<Rightarrow> string \<Rightarrow> string option \<Rightarrow> ('w, (string, cloudflare_error) result) io" where
  "resolve_zone_id env client zname explicit =
     (case explicit of
        Some zid \<Rightarrow> resolve_explicit_zone_id env client zname zid
      | None \<Rightarrow> resolve_named_zone_id env client zname)"

section \<open>Records\<close>

definition evict_zone :: "string \<Rightarrow> (string \<Rightarrow> string option) \<Rightarrow> string \<Rightarrow> string option" where
  "evict_zone zid cache k =
     (case cache k of
        None \<Rightarrow> None
      | Some cached \<Rightarrow> if eq_ignore_ascii_case cached zid then None else Some cached)"

definition invalidate_zone_after_not_found :: "string \<Rightarrow> cloudflare_error \<Rightarrow> ('w, unit) io" where
  "invalidate_zone_after_not_found zid e =
     (if is_not_found e then modify_sys (\<lambda>s. s\<lparr>zone_cache := evict_zone zid (zone_cache s)\<rparr>) else ret ())"

text \<open>The \<open>match self.send(\<dots>)\<close> of the record operations: evict the zone, then return the error.\<close>

definition send_in_zone :: "'w env \<Rightarrow> cloudflare_client \<Rightarrow> 'a decoder \<Rightarrow> http_request \<Rightarrow> string \<Rightarrow> string
    \<Rightarrow> ('w, ('a api_response, cloudflare_error) result) io" where
  "send_in_zone env client decode request operation zid =
     bind_io (send env client decode request operation) (\<lambda>r.
       case r of
         Inr response \<Rightarrow> ret (Inr response)
       | Inl e \<Rightarrow> bind_io (invalidate_zone_after_not_found zid e) (\<lambda>_. ret (Inl e)))"

definition record_matches :: "string \<Rightarrow> string \<Rightarrow> dns_record \<Rightarrow> bool" where
  "record_matches rtype rname r \<longleftrightarrow>
     eq_ignore_ascii_case (dr_name r) rname \<and> eq_ignore_ascii_case (dr_record_type r) rtype"

fun scan_records :: "string \<Rightarrow> string \<Rightarrow> dns_record option \<Rightarrow> dns_record list
    \<Rightarrow> (dns_record option, cloudflare_error) result" where
  "scan_records rtype rname exact [] = Inr exact"
| "scan_records rtype rname exact (r # rs) =
     (if record_matches rtype rname r then
        if exact \<noteq> None then Inl (AmbiguousRecord rtype rname)
        else scan_records rtype rname (Some r) rs
      else scan_records rtype rname exact rs)"

definition record_page_request ::
  "cloudflare_client \<Rightarrow> string \<Rightarrow> string \<Rightarrow> string \<Rightarrow> nat \<Rightarrow> http_request" where
  "record_page_request client zid rtype rname page =
     get_request (endpoint client [''zones'', zid, ''dns_records''])
       [(''name.exact'', rname), (''type'', rtype), (''match'', ''all''),
        (''page'', show_nat page), (''per_page'', show_nat RECORD_PAGE_SIZE)]"

fun record_pages :: "'w env \<Rightarrow> cloudflare_client \<Rightarrow> string \<Rightarrow> string \<Rightarrow> string \<Rightarrow> dns_record option \<Rightarrow> nat
    \<Rightarrow> ('w, (dns_record option, cloudflare_error) result) io" where
  "record_pages env client zid rtype rname exact 0 =
     ret (Inl (PaginationLimit ''looking up a DNS record''))"
| "record_pages env client zid rtype rname exact (Suc k) =
     bind_ok (send_in_zone env client (ev_json_records env)
         (record_page_request client zid rtype rname (MAX_PAGES - k)) ''looking up a DNS record'' zid)
       (\<lambda>response.
          case scan_records rtype rname exact (ar_result response) of
            Inl e \<Rightarrow> ret (Inl e)
          | Inr exact' \<Rightarrow>
              if has_next_page (MAX_PAGES - k) (length (ar_result response)) RECORD_PAGE_SIZE (ar_result_info response)
              then record_pages env client zid rtype rname exact' k
              else ret (Inr exact'))"

definition find_record :: "'w env \<Rightarrow> cloudflare_client \<Rightarrow> string \<Rightarrow> string \<Rightarrow> string
    \<Rightarrow> ('w, (dns_record option, cloudflare_error) result) io" where
  "find_record env client zid rtype rname = record_pages env client zid rtype rname None MAX_PAGES"

definition send_record :: "'w env \<Rightarrow> cloudflare_client \<Rightarrow> http_request \<Rightarrow> string \<Rightarrow> string
    \<Rightarrow> ('w, (dns_record, cloudflare_error) result) io" where
  "send_record env client request operation zid =
     bind_ok (send_in_zone env client (ev_json_record env) request operation zid)
       (\<lambda>response. ret (Inr (ar_result response)))"

definition update_request :: "cloudflare_client \<Rightarrow> string \<Rightarrow> string \<Rightarrow> record_payload \<Rightarrow> http_request" where
  "update_request client zid rid payload =
     json_request PATCH (endpoint client [''zones'', zid, ''dns_records'', rid]) (PayloadBody payload)"

definition probe_request :: "cloudflare_client \<Rightarrow> string \<Rightarrow> dns_record \<Rightarrow> http_request" where
  "probe_request client zid r =
     json_request PATCH (endpoint client [''zones'', zid, ''dns_records'', dr_id r])
       (ProbeBody \<lparr>ep_record_type = dr_record_type r, ep_name = dr_name r, ep_ttl = dr_ttl r\<rparr>)"

definition create_request :: "cloudflare_client \<Rightarrow> string \<Rightarrow> record_payload \<Rightarrow> http_request" where
  "create_request client zid payload =
     json_request POST (endpoint client [''zones'', zid, ''dns_records'']) (PayloadBody payload)"

definition update_record :: "'w env \<Rightarrow> cloudflare_client \<Rightarrow> string \<Rightarrow> string \<Rightarrow> record_payload
    \<Rightarrow> ('w, (dns_record, cloudflare_error) result) io" where
  "update_record env client zid rid payload =
     send_record env client (update_request client zid rid payload) ''updating a DNS record'' zid"

definition probe_record_edit :: "'w env \<Rightarrow> cloudflare_client \<Rightarrow> string \<Rightarrow> dns_record
    \<Rightarrow> ('w, (dns_record, cloudflare_error) result) io" where
  "probe_record_edit env client zid r =
     send_record env client (probe_request client zid r) ''probing DNS edit permission'' zid"

definition create_record :: "'w env \<Rightarrow> cloudflare_client \<Rightarrow> string \<Rightarrow> record_payload
    \<Rightarrow> ('w, (dns_record, cloudflare_error) result) io" where
  "create_record env client zid payload =
     send_record env client (create_request client zid payload) ''creating a DNS record'' zid"

section \<open>Frames of the client operations\<close>

lemma page_requests_get:
  "zone_page_request client zname page = get_request (endpoint client [''zones''])
     [(''name'', zname), (''page'', show_nat page), (''per_page'', show_nat ZONE_PAGE_SIZE)]"
  "record_page_request client zid rtype rname page = get_request (endpoint client [''zones'', zid, ''dns_records''])
     [(''name.exact'', rname), (''type'', rtype), (''match'', ''all''),
      (''page'', show_nat page), (''per_page'', show_nat RECORD_PAGE_SIZE)]"
  by (simp_all add: zone_page_request_def record_page_request_def)

context read_frame
begin

lemma frame_send: "frame R (send env client decode (get_request u q) op)"
  unfolding send_def by (intro frame_intros)

lemma frame_verify_token: "frame R (verify_token env client)"
  unfolding verify_token_def by (intro frame_intros frame_send)

lemma frame_cache_zone: "frame R (cache_zone key zid)"
  unfolding cache_zone_def by (rule frame_cache)

lemma frame_resolve_explicit: "frame R (resolve_explicit_zone_id env client zname zid)"
  unfolding resolve_explicit_zone_id_def
  by (intro frame_get_sys) (auto intro!: frame_intros frame_send frame_cache_zone split: option.split sum.split)

lemma frame_zone_pages: "frame R (zone_pages env client zname exact inactive k)"
  by (induction k arbitrary: exact inactive)
     (auto intro!: frame_intros frame_send frame_cache_zone simp: page_requests_get split: option.split sum.split)

lemma frame_resolve_zone_id: "frame R (resolve_zone_id env client zname explicit)"
  unfolding resolve_zone_id_def resolve_named_zone_id_def
  by (auto intro!: frame_intros frame_resolve_explicit frame_zone_pages split: option.split)

lemma frame_invalidate: "frame R (invalidate_zone_after_not_found zid e)"
  unfolding invalidate_zone_after_not_found_def by (intro frame_intros)

lemma frame_send_in_zone: "frame R (send_in_zone env client decode (get_request u q) op zid)"
  unfolding send_in_zone_def
  by (auto intro!: frame_intros frame_send frame_invalidate split: sum.split)

lemma frame_record_pages: "frame R (record_pages env client zid rtype rname exact k)"
  by (induction k arbitrary: exact)
     (auto intro!: frame_intros frame_send_in_zone simp: page_requests_get split: sum.split)

lemma frame_find_record: "frame R (find_record env client zid rtype rname)"
  unfolding find_record_def by (rule frame_record_pages)

lemma frame_query_provider: "frame R (query_provider env p family)"
  unfolding query_provider_def by (intro frame_intros)

lemma frame_discover_from: "frame R (discover_from env client family started ps fs)"
  by (induction ps arbitrary: fs)
     (auto intro!: frame_intros frame_query_provider simp: Let_def split: option.split sum.split)

lemma frame_discover: "frame R (discover env client family ps)"
  unfolding discover_def by (intro frame_intros frame_discover_from)

end

text \<open>A record request, mutation or not, is one suspension and perhaps an eviction.\<close>

lemma send_record_steps:
  assumes "send_record env client r op zid s = (x, s')"
  obtains y t where "await env r s = (y, t)" "s' = t \<or> s' = t\<lparr>zone_cache := evict_zone zid (zone_cache t)\<rparr>"
  using assms
  by (auto simp: send_record_def send_in_zone_def send_def invalidate_zone_after_not_found_def bind_ok_def
      bind_io_def ret_def modify_sys_def split: prod.splits fut.splits sum.splits if_splits)

lemma send_record_in_flight:
  assumes "timers s = []" and "mutation_in_flight (control s)"
  shows "\<exists>res s'. send_record env client r op zid s = (Done res, s')"
proof -
  obtain y t where t: "await env r s = (y, t)" by (cases "await env r s")
  then obtain outcome where "y = Done outcome"
    using await_in_flight_Done [OF assms t] by blast
  with t show ?thesis
    by (auto simp: send_record_def send_in_zone_def send_def invalidate_zone_after_not_found_def bind_ok_def
        bind_io_def ret_def modify_sys_def split: sum.split)
qed

context write_frame
begin

lemma send_record_step:
  assumes "timers s = []" and "mutation_in_flight (control s)" and "send_record env client r op zid s = (x, s')"
  shows "R False s s' \<and> timers s' = [] \<and> \<not> dropped x"
proof -
  obtain y t where t: "await env r s = (y, t)"
    and s': "s' = t \<or> s' = t\<lparr>zone_cache := evict_zone zid (zone_cache t)\<rparr>"
    using assms(3) by (rule send_record_steps)
  have "R False s t" "timers t = []"
    using await_mutation [OF assms(1,2) t] await_frame(1) [OF t] assms(1) by simp_all
  moreover have "\<not> dropped x"
    using send_record_in_flight [OF assms(1,2), of env client r op zid] assms(3) by auto
  ultimately show ?thesis
    using s' trans [OF _ cache] by auto
qed

lemma top_send_record: "frame_top R (guarded (send_record env client r op zid))"
  by (rule top_guarded) (rule send_record_step)

end

section \<open>Pagination and classification\<close>

lemma parse_retry_after_bound: "parse_retry_after h = Some d \<Longrightarrow> d \<le> from_secs 3600"
  by (auto simp: parse_retry_after_def MAX_RETRY_AFTER_def split: option.splits)

text \<open>The scan over all pages is the scan over their concatenation.\<close>

lemma scan_records_append:
  "scan_records rtype rname exact (rs @ rs') =
     bind_res (scan_records rtype rname exact rs) (\<lambda>e. scan_records rtype rname e rs')"
  by (induction rs arbitrary: exact) auto

lemma scan_records_Some:
  "scan_records rtype rname (Some r) rs =
     (if filter (record_matches rtype rname) rs = [] then Inr (Some r) else Inl (AmbiguousRecord rtype rname))"
  by (induction rs) auto

lemma scan_records_None:
  "scan_records rtype rname None rs =
     (case filter (record_matches rtype rname) rs of
        [] \<Rightarrow> Inr None
      | [r] \<Rightarrow> Inr (Some r)
      | _ \<Rightarrow> Inl (AmbiguousRecord rtype rname))"
  by (induction rs) (auto simp: scan_records_Some split: list.splits)

text \<open>
  A listing served page by page: whatever the world, the request for page \<open>p\<close> is answered in
  time by a decodable response with page \<open>p\<close> of the listing and the number of pages.
\<close>

definition serves_records :: "'w env \<Rightarrow> cloudflare_client \<Rightarrow> string \<Rightarrow> string \<Rightarrow> string
    \<Rightarrow> dns_record list list \<Rightarrow> bool" where
  "serves_records env client zid rtype rname pages \<longleftrightarrow>
     (\<forall>p s. 1 \<le> p \<longrightarrow> p \<le> length pages \<longrightarrow>
        (\<exists>outcome s'. await env (record_page_request client zid rtype rname p) s = (Done outcome, s') \<and>
           handle_response client (ev_json_records env) ''looking up a DNS record'' outcome =
             Inr \<lparr>ar_result = pages ! (p - 1), ar_result_info = Some \<lparr>ri_total_pages = Some (length pages)\<rparr>\<rparr>))"

lemma record_pages_step:
  assumes "serves_records env client zid rtype rname pages"
    and "1 \<le> MAX_PAGES - k" and "MAX_PAGES - k \<le> length pages"
  shows "\<exists>t. record_pages env client zid rtype rname exact (Suc k) s =
    (case scan_records rtype rname exact (pages ! (MAX_PAGES - k - 1)) of
       Inl e \<Rightarrow> (Done (Inl e), t)
     | Inr e' \<Rightarrow> if MAX_PAGES - k < length pages then record_pages env client zid rtype rname e' k t
         else (Done (Inr e'), t))"
proof -
  obtain outcome t where "await env (record_page_request client zid rtype rname (MAX_PAGES - k)) s = (Done outcome, t)"
    "handle_response client (ev_json_records env) ''looking up a DNS record'' outcome =
       Inr \<lparr>ar_result = pages ! (MAX_PAGES - k - 1), ar_result_info = Some \<lparr>ri_total_pages = Some (length pages)\<rparr>\<rparr>"
    using assms unfolding serves_records_def by blast
  then show ?thesis
    by (intro exI [of _ t])
       (simp add: bind_ok_def send_in_zone_def send_def bind_io_def ret_def has_next_page_def split: sum.split)
qed

lemma record_pages_served:
  assumes serves: "serves_records env client zid rtype rname pages"
    and len: "length pages \<le> MAX_PAGES"
  shows "k < MAX_PAGES \<Longrightarrow> MAX_PAGES - k \<le> length pages \<Longrightarrow>
    \<exists>s'. record_pages env client zid rtype rname exact (Suc k) s =
      (Done (scan_records rtype rname exact (concat (drop (MAX_PAGES - k - 1) pages))), s')"
proof (induction k arbitrary: exact s)
  case 0
  then have "drop (MAX_PAGES - 0 - 1) pages = [pages ! (MAX_PAGES - 0 - 1)]"
    using len by (metis Cons_nth_drop_Suc Suc_pred' diff_zero drop_all le_antisym less_Suc_eq_le not_less_eq order_refl)
  moreover obtain t where "record_pages env client zid rtype rname exact (Suc 0) s =
    (case scan_records rtype rname exact (pages ! (MAX_PAGES - 0 - 1)) of
       Inl e \<Rightarrow> (Done (Inl e), t) | Inr e' \<Rightarrow> if MAX_PAGES - 0 < length pages
         then record_pages env client zid rtype rname e' 0 t else (Done (Inr e'), t))"
    using record_pages_step [OF serves, of 0 exact s] 0 by auto
  ultimately show ?case
    using len by (auto split: sum.splits)
next
  case (Suc k)
  let ?p = "MAX_PAGES - Suc k"
  have drop: "drop (?p - 1) pages = pages ! (?p - 1) # drop ?p pages"
    using Suc.prems by (metis Cons_nth_drop_Suc Suc_diff_1 less_le_trans zero_less_diff diff_less zero_less_one)
  obtain t where t: "record_pages env client zid rtype rname exact (Suc (Suc k)) s =
    (case scan_records rtype rname exact (pages ! (?p - 1)) of
       Inl e \<Rightarrow> (Done (Inl e), t)
     | Inr e' \<Rightarrow> if ?p < length pages then record_pages env client zid rtype rname e' (Suc k) t
         else (Done (Inr e'), t))"
    using record_pages_step [OF serves _ Suc.prems(2)] Suc.prems(1) unfolding One_nat_def Suc_le_eq zero_less_diff by blast
  show ?case
  proof (cases "scan_records rtype rname exact (pages ! (?p - 1))")
    case (Inl e)
    then show ?thesis
      unfolding drop t by (simp add: scan_records_append)
  next
    case (Inr e')
    show ?thesis
    proof (cases "?p < length pages")
      case True
      then obtain s' where "record_pages env client zid rtype rname e' (Suc k) t =
          (Done (scan_records rtype rname e' (concat (drop (MAX_PAGES - k - 1) pages))), s')"
        using Suc.IH [of e' t] Suc.prems(1) Suc_diff_Suc [of k MAX_PAGES] by (metis Suc_leI Suc_lessD)
      moreover have "MAX_PAGES - k - 1 = ?p" by simp
      ultimately show ?thesis
        unfolding drop t using Inr True by (simp add: scan_records_append del: record_pages.simps)
    next
      case False
      then have "drop ?p pages = []" by simp
      then show ?thesis
        unfolding drop t using Inr False by (simp add: scan_records_append)
    qed
  qed
qed

lemma find_record_served:
  assumes "serves_records env client zid rtype rname pages"
    and "pages \<noteq> []" and "length pages \<le> MAX_PAGES"
  shows "\<exists>s'. find_record env client zid rtype rname s =
    (Done (scan_records rtype rname None (concat pages)), s')"
proof -
  have "MAX_PAGES = Suc 99" by (simp add: MAX_PAGES_def)
  then show ?thesis
    using record_pages_served [OF assms(1,3), of 99 None s] assms(2)
    by (cases pages) (simp_all add: find_record_def)
qed

text \<open>The requests a lookup sends: pages in order, from the current one, at most as many as are left.\<close>

lemma bind_ok_cases:
  assumes "bind_ok m f s = (r, s')"
  obtains (ok) a t where "m s = (Done (Inr a), t)" "f a t = (r, s')"
    | (err) e where "m s = (Done (Inl e), s')" "r = Done (Inl e)"
    | (cut) x where "m s = (x, s')" "\<nexists>a. x = Done a" "\<nexists>a. r = Done a"
  using assms by (auto simp: bind_ok_def bind_io_def ret_def split: prod.splits fut.splits sum.splits)

lemma send_in_zone_trace:
  assumes "send_in_zone env client decode r op zid s = (x, s')"
  shows "map le_request (trace s') = r # map le_request (trace s)"
proof -
  obtain y t where "await env r s = (y, t)" "trace s' = trace t"
    using assms by (auto simp: send_in_zone_def send_def invalidate_zone_after_not_found_def
        bind_io_def ret_def modify_sys_def split: prod.splits fut.splits sum.splits if_splits)
  then show ?thesis
    using await_frame(5) [of env r s y t] by auto
qed

lemma record_pages_requests:
  "record_pages env client zid rtype rname exact k s = (x, s') \<Longrightarrow> k \<le> MAX_PAGES \<Longrightarrow>
     \<exists>n \<le> k. map le_request (trace s') =
       rev (map (record_page_request client zid rtype rname) [MAX_PAGES - k + 1 ..< MAX_PAGES - k + 1 + n])
         @ map le_request (trace s)"
proof (induction k arbitrary: exact s)
  case 0
  then show ?case by (simp add: ret_def)
next
  case (Suc k)
  let ?p = "MAX_PAGES - k"
  have p: "MAX_PAGES - Suc k + 1 = ?p"
    using Suc.prems(2) by simp
  from Suc.prems(1) show ?case
    unfolding record_pages.simps
  proof (cases rule: bind_ok_cases)
    case (err e)
    then show ?thesis
      using send_in_zone_trace [OF err(1)] unfolding p by (intro exI [of _ 1]) simp
  next
    case (cut y)
    then show ?thesis
      using send_in_zone_trace [OF cut(1)] unfolding p by (intro exI [of _ 1]) simp
  next
    case (ok response t)
    note tr = send_in_zone_trace [OF ok(1)]
    consider "trace s' = trace t" | e' where "record_pages env client zid rtype rname e' k t = (x, s')"
      using ok(2) by (auto simp: ret_def split: sum.splits if_splits)
    then show ?thesis
    proof cases
      case 1
      then show ?thesis
        using tr unfolding p by (intro exI [of _ 1]) simp
    next
      case 2
      obtain n where n: "n \<le> k" "map le_request (trace s') =
          rev (map (record_page_request client zid rtype rname) [?p + 1 ..< ?p + 1 + n]) @ map le_request (trace t)"
        using Suc.IH [OF 2] Suc.prems(2) by auto
      have "[?p ..< ?p + Suc n] = ?p # [?p + 1 ..< ?p + 1 + n]"
        by (simp add: upt_conv_Cons)
      then show ?thesis
        using n tr unfolding p by (intro exI [of _ "Suc n"]) simp
    qed
  qed
qed


section \<open>Classification, eviction and the cache\<close>

lemma classify_response_Inr:
  "classify_response client op status retry parsed = Inr r \<longleftrightarrow>
     st_code status \<notin> {401, 403, 429} \<and> st_success status \<and>
     (\<exists>e. parsed = Inr e \<and> ae_success e \<and> ae_result e = Some (ar_result r) \<and>
        ae_result_info e = ar_result_info r)"
  by (cases r) (auto simp: classify_response_def split: prod.splits if_splits sum.splits option.splits)

lemma classify_response_Inl:
  assumes "classify_response client op status retry parsed = Inl e"
  shows "is_authentication_failure e \<longleftrightarrow> st_code status = 401"
    and "is_permission_denied e \<longleftrightarrow> st_code status = 403"
    and "is_rate_limited e \<longleftrightarrow> st_code status = 429"
    and "is_not_found e \<longrightarrow> st_code status = 404"
    and "cf_retry_after e = Some d \<longrightarrow> retry = Some d"
  using assms
  by (auto simp: classify_response_def split: prod.splits if_splits sum.splits option.splits)

lemma handle_response_cases:
  "handle_response client decode op outcome =
     (case outcome of
        Inl t \<Rightarrow> Inl (CfRequest op t)
      | Inr response \<Rightarrow>
          (case limited_body CF_MAX_RESPONSE_BYTES response of
             Inl BodyTooLarge \<Rightarrow> Inl (CfResponseTooLarge op CF_MAX_RESPONSE_BYTES)
           | Inl (BodyTransport t) \<Rightarrow> Inl (CfRequest op t)
           | Inr body \<Rightarrow> classify_response client op (rs_status response)
               (parse_retry_after (rs_retry_after response)) (decode body)))"
  by (simp add: handle_response_def read_response_body_def split: sum.split body_error.split)

lemma send_in_zone_cache:
  assumes "send_in_zone env client decode r op zid s = (Done x, s')"
  shows "zone_cache s' =
    (case x of Inl e \<Rightarrow> if is_not_found e then evict_zone zid (zone_cache s) else zone_cache s
     | Inr _ \<Rightarrow> zone_cache s)"
  using assms await_frame(2) [of env r s]
  by (auto simp: send_in_zone_def send_def invalidate_zone_after_not_found_def bind_io_def ret_def
      modify_sys_def split: prod.splits fut.splits sum.splits if_splits)

lemma evict_zone_spec: "evict_zone zid cache k = Some v \<longleftrightarrow> cache k = Some v \<and> \<not> eq_ignore_ascii_case v zid"
  by (auto simp: evict_zone_def split: option.splits)

lemma record_pages_cache:
  "record_pages env client zid rtype rname exact k s = (Done x, s') \<Longrightarrow>
     zone_cache s' = (case x of Inl e \<Rightarrow> if is_not_found e then evict_zone zid (zone_cache s) else zone_cache s
       | Inr _ \<Rightarrow> zone_cache s)"
proof (induction k arbitrary: exact s)
  case 0
  then show ?case by (auto simp: ret_def)
next
  case (Suc k)
  have scan_err: "scan_records rtype rname ex rs = Inl e \<Longrightarrow> \<not> is_not_found e" for ex rs e
    by (induction rs arbitrary: ex) (auto split: if_splits)
  from Suc.prems show ?case
    unfolding record_pages.simps
  proof (cases rule: bind_ok_cases)
    case (err e)
    then show ?thesis
      using send_in_zone_cache [OF err(1)] by simp
  next
    case (ok response t)
    have "zone_cache t = zone_cache s"
      using send_in_zone_cache [OF ok(1)] by simp
    then show ?thesis
      using ok(2) Suc.IH by (auto simp: ret_def scan_err split: sum.splits if_splits)
  qed simp
qed

lemma send_record_cache:
  assumes "send_record env client r op zid s = (Done x, s')"
  shows "zone_cache s' =
    (case x of Inl e \<Rightarrow> if is_not_found e then evict_zone zid (zone_cache s) else zone_cache s
     | Inr _ \<Rightarrow> zone_cache s)"
  using assms unfolding send_record_def
  by (auto simp: bind_ok_Done_iff ret_def dest!: send_in_zone_cache)

lemma send_Done:
  "send env client decode r op s = (Done x, t) \<longleftrightarrow>
     (\<exists>outcome. await env r s = (Done outcome, t) \<and> x = handle_response client decode op outcome)"
  by (auto simp: send_def bind_io_Done_iff ret_def)

lemma zone_pages_cached:
  "zone_pages env client zname exact inactive k s = (Done (Inr zid), s') \<Longrightarrow> zone_cache s' (named_key zname) = Some zid"
proof (induction k arbitrary: exact inactive s)
  case 0
  then show ?case by (simp add: ret_def)
next
  case (Suc k)
  from Suc.prems show ?case
    unfolding zone_pages.simps
  proof (cases rule: bind_ok_cases)
    case (ok response t)
    then show ?thesis
      using Suc.IH
      by (auto simp: ret_def bind_io_def cache_zone_def modify_sys_def split: sum.splits option.splits if_splits)
  qed simp_all
qed

text \<open>What an explicit zone ID was checked against when it was not in the cache.\<close>

lemma resolve_explicit_fresh:
  assumes "resolve_explicit_zone_id env client zname i s = (Done (Inr zid), s')"
    and "zone_cache s (explicit_key zname i) = None"
  obtains outcome t response where
    "await env (get_request (endpoint client [''zones'', i]) []) s = (Done outcome, t)"
    "handle_response client (ev_json_zone env) ''verifying an explicit zone ID'' outcome = Inr response"
    "check_explicit_zone client zname i (ar_result response) = Inr ()"
    "zid = i" "s' = t\<lparr>zone_cache := (zone_cache t)(explicit_key zname i \<mapsto> i)\<rparr>"
proof -
  have "bind_ok (send env client (ev_json_zone env) (get_request (endpoint client [''zones'', i]) [])
      ''verifying an explicit zone ID'') (\<lambda>response.
        case check_explicit_zone client zname i (ar_result response) of
          Inl e \<Rightarrow> ret (Inl e)
        | Inr _ \<Rightarrow> bind_io (cache_zone (explicit_key zname i) i) (\<lambda>_. ret (Inr i))) s = (Done (Inr zid), s')"
    using assms by (simp add: resolve_explicit_zone_id_def async_simps)
  then show ?thesis
  proof (cases rule: bind_ok_cases)
    case (ok response t)
    obtain outcome where "await env (get_request (endpoint client [''zones'', i]) []) s = (Done outcome, t)"
      "handle_response client (ev_json_zone env) ''verifying an explicit zone ID'' outcome = Inr response"
      using ok(1) by (auto simp: send_Done)
    moreover have "check_explicit_zone client zname i (ar_result response) = Inr ()"
      using ok(2) by (cases "check_explicit_zone client zname i (ar_result response)") (auto simp: ret_def)
    moreover from this have "zid = i" "s' = t\<lparr>zone_cache := (zone_cache t)(explicit_key zname i \<mapsto> i)\<rparr>"
      using ok(2) by (auto simp: ret_def bind_io_def cache_zone_def modify_sys_def)
    ultimately show ?thesis
      by (rule that)
  qed simp_all
qed

lemma resolve_zone_id_cached:
  assumes "resolve_zone_id env client zname explicit s = (Done (Inr zid), s')"
  shows "zone_cache s' (case explicit of None \<Rightarrow> named_key zname | Some i \<Rightarrow> explicit_key zname i) = Some zid"
proof (cases explicit)
  case None
  then show ?thesis
    using assms zone_pages_cached
    by (fastforce simp: resolve_zone_id_def resolve_named_zone_id_def async_simps split: option.splits)
next
  case (Some i)
  then have r: "resolve_explicit_zone_id env client zname i s = (Done (Inr zid), s')"
    using assms by (simp add: resolve_zone_id_def)
  show ?thesis
  proof (cases "zone_cache s (explicit_key zname i)")
    case None
    then show ?thesis
      using Some by (auto elim!: resolve_explicit_fresh [OF r])
  next
    case (Some cached)
    then show ?thesis
      using r \<open>explicit = Some i\<close> by (auto simp: resolve_explicit_zone_id_def async_simps)
  qed
qed

lemma resolve_zone_id_hit:
  "zone_cache s (case explicit of None \<Rightarrow> named_key zname | Some i \<Rightarrow> explicit_key zname i) = Some zid \<Longrightarrow>
     resolve_zone_id env client zname explicit s = (Done (Inr zid), s)"
  by (cases explicit)
     (simp_all add: resolve_zone_id_def resolve_named_zone_id_def resolve_explicit_zone_id_def async_simps)


section \<open>A sample service\<close>

text \<open>An environment that answers every request at once with the same body.\<close>

definition prompt :: "string \<Rightarrow> nat env" where
  "prompt body = (scripted (\<lambda>_ _. Inr (ok_response body)))\<lparr>ev_expires := (\<lambda>_ _ _. None)\<rparr>"

definition sample_client :: cloudflare_client where
  "sample_client = \<lparr>cc_api_base = \<lparr>url_scheme = ''https'', url_host = Some ''api'', url_username = [],
       url_password = None, url_fragment = None, url_path = ''/v4/'', url_text = ''https://api/v4/'',
       url_origin = ''https://api''\<rparr>,
     cc_api_token = ''cfut_k3y'', cc_verification_target = User, cc_request_timeout = from_secs 15\<rparr>"

definition ok_envelope :: "'a \<Rightarrow> 'a api_envelope" where
  "ok_envelope r = \<lparr>ae_success = True, ae_errors = [], ae_result = Some r,
     ae_result_info = Some \<lparr>ri_total_pages = Some 1\<rparr>\<rparr>"

definition sample_dns_record :: dns_record where
  "sample_dns_record = \<lparr>dr_id = ''r1'', dr_record_type = ''A'', dr_name = ''home.example.com'',
     dr_content = ''8.8.4.4'', dr_ttl = 120, dr_proxied = False\<rparr>"

definition sample_service :: "dns_record list \<Rightarrow> nat env" where
  "sample_service rs = (prompt ''{}'')\<lparr>ev_json_records := (\<lambda>_. Inr (ok_envelope rs)),
     ev_json_zone := (\<lambda>_. Inr (ok_envelope \<lparr>zi_id = ''z1'', zi_name = ''example.com'', zi_status = ''active''\<rparr>)),
     ev_json_record := (\<lambda>_. Inr (ok_envelope sample_dns_record))\<rparr>"

lemma await_sample_service_Done:
  "\<exists>t. await (sample_service rs) r s = (Done (Inr (ok_response ''{}'')), t)"
  by (auto simp: await_def complete_request_def sample_service_def prompt_def scripted_def)

lemma handle_ok_response:
  "decode ''{}'' = Inr (ok_envelope r) \<Longrightarrow>
     handle_response client decode op (Inr (ok_response ''{}'')) =
       Inr \<lparr>ar_result = r, ar_result_info = Some \<lparr>ri_total_pages = Some 1\<rparr>\<rparr>"
  by (simp add: handle_response_cases ok_response_def limited_body_def CF_MAX_RESPONSE_BYTES_def
      classify_response_Inr ok_envelope_def)

lemma sample_service_serves: "serves_records (sample_service rs) client zid rtype rname [rs]"
  unfolding serves_records_def
proof (intro allI impI)
  fix p and s :: "nat sys"
  assume "1 \<le> p" "p \<le> length [rs]"
  then have "p = 1" by simp
  obtain t where "await (sample_service rs) (record_page_request client zid rtype rname p) s
      = (Done (Inr (ok_response ''{}'')), t)"
    using await_sample_service_Done by blast
  moreover have "handle_response client (ev_json_records (sample_service rs)) ''looking up a DNS record''
      (Inr (ok_response ''{}'')) =
      Inr \<lparr>ar_result = [rs] ! (p - 1), ar_result_info = Some \<lparr>ri_total_pages = Some (length [rs])\<rparr>\<rparr>"
    using handle_ok_response [of "ev_json_records (sample_service rs)" rs] \<open>p = 1\<close>
    by (simp add: sample_service_def)
  ultimately show "\<exists>outcome s'. await (sample_service rs) (record_page_request client zid rtype rname p) s
      = (Done outcome, s') \<and> handle_response client (ev_json_records (sample_service rs))
        ''looking up a DNS record'' outcome =
      Inr \<lparr>ar_result = [rs] ! (p - 1), ar_result_info = Some \<lparr>ri_total_pages = Some (length [rs])\<rparr>\<rparr>"
    by blast
qed

section \<open>Properties\<close>

text \<open>
  C40: against a service that answers page requests with a fixed listing of up to 100 pages,
  \<open>find_record\<close> returns the one record of the whole listing that has the name and type
  (ignoring ASCII case), nothing when there is none, and an ambiguity error when there are
  several, also when they are on different pages.
\<close>

theorem find_record_searches_all_pages:
  assumes "serves_records env client zid rtype rname pages"
    and "pages \<noteq> []" and "length pages \<le> MAX_PAGES"
  shows "\<exists>s'. find_record env client zid rtype rname s =
    (Done (case filter (record_matches rtype rname) (concat pages) of
        [] \<Rightarrow> Inr None
      | [r] \<Rightarrow> Inr (Some r)
      | _ \<Rightarrow> Inl (AmbiguousRecord rtype rname)), s')"
  using find_record_served [OF assms] unfolding scan_records_None .

theorem find_record_searches_all_pages_witness:
  "\<exists>s'. find_record (sample_service [sample_dns_record]) sample_client ''z1'' ''A'' ''home.example.com'' (idle_sys 0) =
    (Done (Inr (Some sample_dns_record)), s')"
proof -
  have "record_matches ''A'' ''home.example.com'' sample_dns_record"
    by (simp add: record_matches_def sample_dns_record_def eq_ignore_ascii_case_def to_ascii_lowercase_def to_lower_def)
  then show ?thesis
    using find_record_searches_all_pages [OF sample_service_serves [of "[sample_dns_record]" sample_client "''z1''"
        "''A''" "''home.example.com''"], of "idle_sys 0"]
    by (simp add: MAX_PAGES_def)
qed

text \<open>
  A record lookup sends nothing but \<open>GET\<close> requests for the pages 1, 2, \<dots> of that name
  and type, in order, and at most 100 of them, whatever the service answers.
\<close>

lemma find_record_requests:
  assumes "find_record env client zid rtype rname s = (x, s')"
  shows "\<exists>n \<le> 100. map le_request (trace s') =
    rev (map (record_page_request client zid rtype rname) [1 ..< n + 1]) @ map le_request (trace s)"
  using record_pages_requests [of env client zid rtype rname None MAX_PAGES s x s'] assms
  by (auto simp: find_record_def MAX_PAGES_def)

theorem find_record_requests_witness:
  "\<exists>n \<le> 100. map le_request (trace (snd (find_record (sample_service []) sample_client ''z1'' ''A'' ''a'' (idle_sys 0)))) =
    rev (map (record_page_request sample_client ''z1'' ''A'' ''a'') [1 ..< n + 1])"
  using find_record_requests [of "sample_service []" sample_client "''z1''" "''A''" "''a''" "idle_sys 0",
      OF surjective_pairing] by simp

text \<open>
  A resolved zone is cached: resolving the same zone again answers the same identifier
  without a request and without changing the state. An explicit identifier that was not cached
  is accepted only after the API returned that very zone, with the configured name, active.
\<close>

lemma resolved_zone_is_cached:
  assumes "resolve_zone_id env client zname explicit s = (Done (Inr zid), s')"
  shows "resolve_zone_id env client zname explicit s' = (Done (Inr zid), s') \<and>
    (\<forall>i. explicit = Some i \<longrightarrow> zone_cache s (explicit_key zname i) = None \<longrightarrow>
       zid = i \<and> (\<exists>outcome t response.
         await env (get_request (endpoint client [''zones'', i]) []) s = (Done outcome, t) \<and>
         handle_response client (ev_json_zone env) ''verifying an explicit zone ID'' outcome = Inr response \<and>
         eq_ignore_ascii_case (zi_name (ar_result response)) zname \<and>
         eq_ignore_ascii_case (zi_id (ar_result response)) i \<and>
         eq_ignore_ascii_case (zi_status (ar_result response)) ''active''))"
proof (intro conjI allI impI)
  show "resolve_zone_id env client zname explicit s' = (Done (Inr zid), s')"
    by (rule resolve_zone_id_hit [OF resolve_zone_id_cached [OF assms]])
next
  fix i
  assume i: "explicit = Some i" "zone_cache s (explicit_key zname i) = None"
  have r: "resolve_explicit_zone_id env client zname i s = (Done (Inr zid), s')"
    using assms i(1) by (simp add: resolve_zone_id_def)
  show "zid = i"
    by (rule resolve_explicit_fresh [OF r i(2)])
  show "\<exists>outcome t response.
      await env (get_request (endpoint client [''zones'', i]) []) s = (Done outcome, t) \<and>
      handle_response client (ev_json_zone env) ''verifying an explicit zone ID'' outcome = Inr response \<and>
      eq_ignore_ascii_case (zi_name (ar_result response)) zname \<and>
      eq_ignore_ascii_case (zi_id (ar_result response)) i \<and>
      eq_ignore_ascii_case (zi_status (ar_result response)) ''active''"
    by (rule resolve_explicit_fresh [OF r i(2)])
       (auto simp: check_explicit_zone_def split: if_splits)
qed

lemma sample_zone_resolves:
  "\<exists>s'. resolve_zone_id (sample_service []) sample_client ''example.com'' (Some ''z1'') (idle_sys 0) = (Done (Inr ''z1''), s')"
proof -
  obtain t where "await (sample_service []) (get_request (endpoint sample_client [''zones'', ''z1'']) []) (idle_sys 0)
      = (Done (Inr (ok_response ''{}'')), t)"
    using await_sample_service_Done by blast
  moreover have "handle_response sample_client (ev_json_zone (sample_service [])) ''verifying an explicit zone ID''
      (Inr (ok_response ''{}'')) = Inr \<lparr>ar_result = \<lparr>zi_id = ''z1'', zi_name = ''example.com'', zi_status = ''active''\<rparr>,
        ar_result_info = Some \<lparr>ri_total_pages = Some 1\<rparr>\<rparr>"
    by (rule handle_ok_response) (simp add: sample_service_def)
  ultimately show ?thesis
    by (simp add: resolve_zone_id_def resolve_explicit_zone_id_def get_sys_def ret_def bind_ok_def bind_io_def
        send_def check_explicit_zone_def cache_zone_def modify_sys_def)
qed

lemma resolved_zone_is_cached_witness:
  "\<exists>s'. resolve_zone_id (sample_service []) sample_client ''example.com'' (Some ''z1'') s' = (Done (Inr ''z1''), s')"
  using sample_zone_resolves resolved_zone_is_cached by blast

text \<open>
  When a record operation in a zone reports that the resource does not exist, every cached
  entry for that zone identifier is evicted and no other; with any other outcome the cache is
  left alone.
\<close>

lemma stale_zone_is_evicted:
  assumes "find_record env client zid rtype rname s = (Done x, s') \<or>
    (send_record env client r op zid s = (Done y, s') \<and> x = map_sum id Some y)"
  shows "zone_cache s' =
    (if (\<exists>e. x = Inl e \<and> is_not_found e)
     then (\<lambda>k. case zone_cache s k of
        Some v \<Rightarrow> if eq_ignore_ascii_case v zid then None else Some v | None \<Rightarrow> None)
     else zone_cache s)"
proof -
  have "(\<lambda>k. case zone_cache s k of
        Some v \<Rightarrow> if eq_ignore_ascii_case v zid then None else Some v | None \<Rightarrow> None) = evict_zone zid (zone_cache s)"
    by (auto simp: evict_zone_def split: option.split)
  then show ?thesis
    using assms record_pages_cache [of env client zid rtype rname None MAX_PAGES s x s']
      send_record_cache [of env client r op zid s y s']
    by (auto simp: find_record_def split: sum.splits)
qed

theorem stale_zone_is_evicted_witness:
  "\<exists>s'. find_record (sample_service []) sample_client ''z1'' ''A'' ''a'' (idle_sys 0) = (Done (Inr None), s')
     \<and> zone_cache s' = (\<lambda>_. None)"
proof -
  obtain s' where "find_record (sample_service []) sample_client ''z1'' ''A'' ''a'' (idle_sys 0) = (Done (Inr None), s')"
    using find_record_served [OF sample_service_serves [of "[]" sample_client "''z1''" "''A''" "''a''"], of "idle_sys 0"]
    by (auto simp: MAX_PAGES_def)
  then show ?thesis
    using stale_zone_is_evicted [of "sample_service []" sample_client "''z1''" "''A''" "''a''" "idle_sys 0"
        "Inr None" s'] by auto
qed

text \<open>
  C37: how an API answer is classified. A success is a success status, none of 401, 403 and 429,
  with a decodable envelope that says success and has a result. The error kinds that steer the
  callers mirror the status: authentication is 401, permission 403, rate limit 429, not found
  at most 404; and a server-requested delay is never above one hour.
\<close>

theorem response_classification:
  assumes "limited_body CF_MAX_RESPONSE_BYTES response = Inr body"
  shows "(\<forall>r. handle_response client decode op (Inr response) = Inr r \<longleftrightarrow>
      st_code (rs_status response) \<notin> {401, 403, 429} \<and> st_success (rs_status response) \<and>
      (\<exists>e. decode body = Inr e \<and> ae_success e \<and> ae_result e = Some (ar_result r) \<and>
         ae_result_info e = ar_result_info r)) \<and>
    (\<forall>e. handle_response client decode op (Inr response) = Inl e \<longrightarrow>
      (is_authentication_failure e \<longleftrightarrow> st_code (rs_status response) = 401) \<and>
      (is_permission_denied e \<longleftrightarrow> st_code (rs_status response) = 403) \<and>
      (is_rate_limited e \<longleftrightarrow> st_code (rs_status response) = 429) \<and>
      (is_not_found e \<longrightarrow> st_code (rs_status response) = 404) \<and>
      (\<forall>d. cf_retry_after e = Some d \<longrightarrow> d \<le> from_secs 3600))"
proof -
  have h: "handle_response client decode op (Inr response) =
      classify_response client op (rs_status response) (parse_retry_after (rs_retry_after response)) (decode body)"
    by (simp add: handle_response_cases assms)
  show ?thesis
    unfolding h
  proof (intro conjI allI impI)
    fix e d
    assume "classify_response client op (rs_status response) (parse_retry_after (rs_retry_after response)) (decode body) = Inl e"
      and "cf_retry_after e = Some d"
    then show "d \<le> from_secs 3600"
      using classify_response_Inl(5) parse_retry_after_bound by blast
  qed (simp_all only: classify_response_Inr, auto dest: classify_response_Inl)
qed

theorem response_classification_witness:
  "\<exists>r. handle_response sample_client (\<lambda>_. Inr (ok_envelope (3 :: nat))) ''op'' (Inr (ok_response ''{}'')) = Inr r"
proof -
  have "limited_body CF_MAX_RESPONSE_BYTES (ok_response ''{}'') = Inr ''{}''"
    by (simp add: limited_body_def ok_response_def CF_MAX_RESPONSE_BYTES_def)
  note c = conjunct1 [OF response_classification [OF this, of sample_client "\<lambda>_. Inr (ok_envelope (3 :: nat))" "''op''"]]
  show ?thesis
    by (rule exI [of _ "\<lparr>ar_result = 3, ar_result_info = Some \<lparr>ri_total_pages = Some 1\<rparr>\<rparr>"])
       (subst c [rule_format], simp add: ok_response_def ok_envelope_def)
qed

end
