(* ===== verification/Secure_Files.thy ===== *)
theory Secure_Files
  imports Config
begin

unbundle bit_operations_syntax

text \<open>
  \<open>config.rs\<close>: opening the configuration file and the token file, and what a token may
  look like. Every system call of one attempt to open a path has its own answer in the record
  \<open>file_view\<close>, so what the descriptor shows and what the path shows later may differ: a file
  that is replaced between two calls is covered. The model is the Linux build.
\<close>

section \<open>What the operating system answers\<close>

record metadata =
  md_is_file :: bool
  md_is_dir :: bool
  md_is_symlink :: bool
  md_dev :: nat
  md_ino :: nat
  md_mode :: u32
  md_uid :: nat
  md_gid :: nat
  md_nlink :: nat
  md_len :: nat

text \<open>The error numbers of the attribute call that the program tells apart.\<close>

datatype errno = NODATA | NOTSUP | RANGE | OtherErrno io_error

text \<open>
  One attempt on a path: \<open>open\<close> with \<open>O_NOFOLLOW | O_CLOEXEC | O_NONBLOCK\<close>, \<open>fstat\<close> of
  the descriptor, \<open>lstat\<close> of the path, the access-ACL attribute, \<open>take(n).read_to_string\<close>,
  and the process's effective identifiers.
\<close>

record file_view =
  fv_open :: "(unit, io_error) result"
  fv_fstat :: "(metadata, io_error) result"
  fv_lstat :: "(metadata, io_error) result"
  fv_acl :: "(nat, errno) result"
  fv_read :: "nat \<Rightarrow> (string, io_error) result"
  fv_euid :: nat
  fv_egid :: nat

definition LINUX_ELOOP :: int where
  "LINUX_ELOOP = 40"

definition permission_bits :: "metadata \<Rightarrow> u32" where
  "permission_bits m = md_mode m AND 0xFFF"

definition mode_text :: "u32 \<Rightarrow> string" where
  "mode_text mode = pad_zero 4 (show_oct (unat mode))"

definition same_file :: "metadata \<Rightarrow> metadata \<Rightarrow> bool" where
  "same_file a b \<longleftrightarrow> md_dev a = md_dev b \<and> md_ino a = md_ino b"

section \<open>The configuration file\<close>

definition open_config_file :: "string \<Rightarrow> file_view \<Rightarrow> (metadata, config_error) result" where
  "open_config_file path v =
     bind_res (map_err (\<lambda>e. if io_raw_os_error e = Some LINUX_ELOOP
         then InsecureConfigFile path ''symbolic links are not accepted''
         else Read path e) (fv_open v)) (\<lambda>_.
     bind_res (map_err (Read path) (fv_fstat v)) (\<lambda>opened.
     bind_res (ensure (md_is_file opened)
       (InsecureConfigFile path ''path must refer to a regular file'')) (\<lambda>_.
     bind_res (map_err (Read path) (fv_lstat v)) (\<lambda>named.
     bind_res (ensure (\<not> md_is_symlink named)
       (InsecureConfigFile path ''symbolic links are not accepted'')) (\<lambda>_.
     bind_res (ensure (same_file named opened)
       (InsecureConfigFile path ''path changed while the configuration was being opened'')) (\<lambda>_.
     let mode = permission_bits opened; owner = md_uid opened in
     bind_res (ensure (mode AND 0x12 = 0)
       (InsecureConfigFile path (''mode '' @ mode_text mode @
          '' permits group or other users to modify DNS configuration''))) (\<lambda>_.
     bind_res (ensure (owner = 0 \<or> owner = fv_euid v)
       (InsecureConfigFile path (''owner UID '' @ show_nat owner @
          '' is neither root nor the current effective UID''))) (\<lambda>_.
     bind_res (ensure (md_len opened \<le> MAX_CONFIG_BYTES) (ConfigTooLarge (Some path))) (\<lambda>_.
     Inr opened)))))))))"

definition config_load ::
  "toml_parser \<Rightarrow> url_parser \<Rightarrow> string \<Rightarrow> file_view \<Rightarrow> (config, config_error) result" where
  "config_load toml parse path v =
     bind_res (open_config_file path v) (\<lambda>_.
     bind_res (map_err (Read path) (fv_read v (MAX_CONFIG_BYTES + 1))) (\<lambda>contents.
     bind_res (ensure (length contents \<le> MAX_CONFIG_BYTES) (ConfigTooLarge (Some path))) (\<lambda>_.
     config_parse toml parse contents (Some path))))"

section \<open>Tokens\<close>

datatype token_source = Environment | File

fun source_description :: "token_source \<Rightarrow> string" where
  "source_description Environment = TOKEN_ENV_VAR"
| "source_description File = ''the configured token file''"

definition secret_from_text :: "string \<Rightarrow> token_source \<Rightarrow> (string, config_error) result" where
  "secret_from_text t source =
     (if length t > MAX_TOKEN_BYTES then Inl (TokenValueTooLarge (source_description source))
      else
        let token = trim t in
        if token = [] then Inl (EmptyToken (source_description source))
        else if list_ex (\<lambda>c. is_whitespace c \<or> is_control c) (chars token)
        then Inl (InvalidToken (source_description source))
        else Inr token)"

section \<open>The token file\<close>

definition validate_opened_token_path ::
  "string \<Rightarrow> file_view \<Rightarrow> metadata \<Rightarrow> (unit, config_error) result" where
  "validate_opened_token_path path v opened =
     bind_res (map_err (TokenMetadata path) (fv_lstat v)) (\<lambda>named.
     bind_res (ensure (\<not> md_is_symlink named)
       (InsecureTokenFile path ''symbolic links are not accepted'')) (\<lambda>_.
     ensure (same_file named opened)
       (InsecureTokenFile path ''path changed while the token file was being opened'')))"

definition reject_token_access_acl :: "string \<Rightarrow> file_view \<Rightarrow> (unit, config_error) result" where
  "reject_token_access_acl path v =
     (case fv_acl v of
        Inl NODATA \<Rightarrow> Inr ()
      | Inl NOTSUP \<Rightarrow> Inr ()
      | Inr _ \<Rightarrow> Inl (InsecureTokenFile path ''extended POSIX access ACLs are not accepted'')
      | Inl RANGE \<Rightarrow> Inl (InsecureTokenFile path ''extended POSIX access ACLs are not accepted'')
      | Inl (OtherErrno source) \<Rightarrow> Inl (TokenMetadata path source))"

definition validate_token_metadata ::
  "string \<Rightarrow> file_view \<Rightarrow> metadata \<Rightarrow> (unit, config_error) result" where
  "validate_token_metadata path v m =
     bind_res (ensure (md_is_file m) (InsecureTokenFile path ''path must refer to a regular file'')) (\<lambda>_.
     let mode = permission_bits m in
     bind_res (ensure (mode AND NOT 0x1A0 = 0 \<and> mode AND 0x100 \<noteq> 0)
       (InsecureTokenFile path (''mode '' @ mode_text mode @
          '' is too permissive; use 0600 or root:service 0640''))) (\<lambda>_.
     bind_res (ensure (md_uid m = 0)
       (InsecureTokenFile path (''mode '' @ mode_text mode @ '' token must be owned by root''))) (\<lambda>_.
     bind_res (ensure (mode AND 0x20 \<noteq> 0 \<longrightarrow> md_gid m = fv_egid v)
       (InsecureTokenFile path (''group-readable token GID '' @ show_nat (md_gid m) @
          '' does not match effective GID '' @ show_nat (fv_egid v)))) (\<lambda>_.
     reject_token_access_acl path v))))"

definition load_token_file :: "string \<Rightarrow> file_view \<Rightarrow> (string, config_error) result" where
  "load_token_file path v =
     bind_res (map_err (\<lambda>e. if io_raw_os_error e = Some LINUX_ELOOP
         then InsecureTokenFile path ''symbolic links are not accepted''
         else TokenRead path e) (fv_open v)) (\<lambda>_.
     bind_res (map_err (TokenMetadata path) (fv_fstat v)) (\<lambda>m.
     bind_res (validate_opened_token_path path v m) (\<lambda>_.
     bind_res (validate_token_metadata path v m) (\<lambda>_.
     bind_res (ensure (md_len m \<le> MAX_TOKEN_BYTES) (TokenTooLarge path)) (\<lambda>_.
     bind_res (map_err (TokenRead path) (fv_read v (MAX_TOKEN_BYTES + 1))) (\<lambda>contents.
     bind_res (ensure (length contents \<le> MAX_TOKEN_BYTES) (TokenTooLarge path)) (\<lambda>_.
     secret_from_text contents File)))))))"

text \<open>
  The environment variable: absent, not Unicode, or a string.
\<close>

datatype env_var = Unset | NotUnicode | VarText string

definition load_api_token :: "config \<Rightarrow> env_var \<Rightarrow> file_view \<Rightarrow> (string, config_error) result" where
  "load_api_token c var v =
     (case var of
        NotUnicode \<Rightarrow> Inl NonUnicodeEnvironmentToken
      | VarText t \<Rightarrow> secret_from_text t Environment
      | Unset \<Rightarrow> load_token_file (api_token_file (cloudflare c)) v)"

section \<open>Files pinned to their path\<close>

text \<open>
  The contract the two loaders share: what is accepted was opened as a regular file, the path
  named no symbolic link, and the path still led to the opened file.
\<close>

locale pinned_file =
  fixes accepts :: "file_view \<Rightarrow> bool"
  assumes accepted: "accepts v \<Longrightarrow> \<exists>opened named. fv_open v = Inr () \<and> fv_fstat v = Inr opened \<and>
    fv_lstat v = Inr named \<and> md_is_file opened \<and> \<not> md_is_symlink named \<and> same_file named opened"
begin

lemma swapped_refused:
  "fv_fstat v = Inr opened \<Longrightarrow> fv_lstat v = Inr named \<Longrightarrow> \<not> same_file named opened \<Longrightarrow> \<not> accepts v"
  using accepted by fastforce

lemma symlink_refused: "fv_lstat v = Inr named \<Longrightarrow> md_is_symlink named \<Longrightarrow> \<not> accepts v"
  using accepted by fastforce

lemma special_refused: "fv_fstat v = Inr opened \<Longrightarrow> \<not> md_is_file opened \<Longrightarrow> \<not> accepts v"
  using accepted by fastforce

lemma unopened_refused: "fv_open v = Inl e \<Longrightarrow> \<not> accepts v"
  using accepted by fastforce

end

definition config_accepts :: "string \<Rightarrow> file_view \<Rightarrow> bool" where
  "config_accepts path v \<longleftrightarrow> (\<exists>m. open_config_file path v = Inr m)"

definition token_accepts :: "string \<Rightarrow> file_view \<Rightarrow> bool" where
  "token_accepts path v \<longleftrightarrow> (\<exists>t. load_token_file path v = Inr t)"

lemma open_config_file_Inr:
  "open_config_file path v = Inr m \<longleftrightarrow>
     fv_open v = Inr () \<and> fv_fstat v = Inr m \<and> md_is_file m \<and>
     (\<exists>named. fv_lstat v = Inr named \<and> \<not> md_is_symlink named \<and> same_file named m) \<and>
     permission_bits m AND 0x12 = 0 \<and> (md_uid m = 0 \<or> md_uid m = fv_euid v) \<and>
     md_len m \<le> MAX_CONFIG_BYTES"
  by (auto simp: open_config_file_def bind_res_Inr_iff Let_def)

lemma reject_token_access_acl_Inr:
  "reject_token_access_acl path v = Inr () \<longleftrightarrow> fv_acl v = Inl NODATA \<or> fv_acl v = Inl NOTSUP"
  by (auto simp: reject_token_access_acl_def split: sum.splits errno.splits)

lemma validate_token_metadata_Inr:
  "validate_token_metadata path v m = Inr () \<longleftrightarrow> md_is_file m \<and>
     permission_bits m AND NOT 0x1A0 = 0 \<and> permission_bits m AND 0x100 \<noteq> 0 \<and> md_uid m = 0 \<and>
     (permission_bits m AND 0x20 \<noteq> 0 \<longrightarrow> md_gid m = fv_egid v) \<and>
     (fv_acl v = Inl NODATA \<or> fv_acl v = Inl NOTSUP)"
  by (auto simp: validate_token_metadata_def bind_res_Inr_iff Let_def reject_token_access_acl_Inr)

lemma secret_from_text_Inr:
  "secret_from_text t source = Inr token \<longleftrightarrow> length t \<le> MAX_TOKEN_BYTES \<and> token = trim t \<and>
     token \<noteq> [] \<and> (\<forall>c \<in> set (chars token). \<not> is_whitespace c \<and> \<not> is_control c)"
  by (auto simp: secret_from_text_def Let_def list_ex_iff)

lemma load_token_file_Inr:
  "load_token_file path v = Inr token \<longleftrightarrow>
     (\<exists>m named contents. fv_open v = Inr () \<and> fv_fstat v = Inr m \<and> fv_lstat v = Inr named \<and>
        \<not> md_is_symlink named \<and> same_file named m \<and> validate_token_metadata path v m = Inr () \<and>
        md_len m \<le> MAX_TOKEN_BYTES \<and> fv_read v (MAX_TOKEN_BYTES + 1) = Inr contents \<and>
        length contents \<le> MAX_TOKEN_BYTES \<and> secret_from_text contents File = Inr token)"
  by (auto simp: load_token_file_def validate_opened_token_path_def bind_res_Inr_iff)

interpretation config_file: pinned_file "config_accepts path" for path
  by unfold_locales (auto simp: config_accepts_def open_config_file_Inr)

interpretation token_file: pinned_file "token_accepts path" for path
  by unfold_locales (auto simp: token_accepts_def load_token_file_Inr validate_token_metadata_Inr)

section \<open>Permission bits\<close>

lemma and_single_bit: "(w :: u32) AND push_bit n 1 = (if bit w n then push_bit n 1 else 0)"
  by (rule bit_eqI) (auto simp: bit_simps)

lemma private_modes:
  assumes "(w :: u32) AND NOT 0x1A0 = 0" and "w AND 0x100 \<noteq> 0"
  shows "w \<in> {0x100, 0x120, 0x180, 0x1A0}"
proof -
  have bits: "(0x100 :: u32) = push_bit 8 1" "(0x80 :: u32) = push_bit 7 1" "(0x20 :: u32) = push_bit 5 1"
    by simp_all
  have "w = w AND 0x1A0"
    using assms(1) by (metis bit.conj_disj_distrib bit.disj_cancel_right bit.disj_zero_right bit.conj_one_right)
  also have "\<dots> = (w AND 0x100) OR ((w AND 0x80) OR (w AND 0x20))"
    unfolding bit.conj_disj_distrib [symmetric] by simp
  finally have w: "w = (w AND 0x100) OR ((w AND 0x80) OR (w AND 0x20))" .
  have "w AND 0x100 = 0x100"
    using assms(2) unfolding bits and_single_bit by (simp split: if_splits)
  moreover have "w AND 0x80 \<in> {0, 0x80}" "w AND 0x20 \<in> {0, 0x20}"
    unfolding bits and_single_bit by simp_all
  ultimately show ?thesis
    using w by auto
qed

section \<open>Properties\<close>

text \<open>
  C25: when the token file is accepted, the descriptor was a root-owned regular file with mode
  0400, 0440, 0600 or 0640 and no access ACL, readable by the group only when that is the
  process's own group; the path was no symbolic link and led to that file; the token is the
  trimmed contents, nonempty, within the size limit and free of white space and control
  characters.
\<close>

theorem token_file_trusted:
  assumes "load_token_file path v = Inr token"
  shows "\<exists>m named contents. fv_fstat v = Inr m \<and> fv_lstat v = Inr named \<and>
      md_is_file m \<and> md_uid m = 0 \<and> permission_bits m \<in> {0x100, 0x120, 0x180, 0x1A0} \<and>
      (permission_bits m \<in> {0x120, 0x1A0} \<longrightarrow> md_gid m = fv_egid v) \<and>
      (fv_acl v = Inl NODATA \<or> fv_acl v = Inl NOTSUP) \<and>
      \<not> md_is_symlink named \<and> same_file named m \<and>
      fv_read v (MAX_TOKEN_BYTES + 1) = Inr contents \<and> length contents \<le> MAX_TOKEN_BYTES \<and>
      token = trim contents \<and> token \<noteq> [] \<and>
      (\<forall>c \<in> set (chars token). \<not> is_whitespace c \<and> \<not> is_control c)"
proof -
  obtain m named contents where m: "fv_fstat v = Inr m" "fv_lstat v = Inr named"
    "\<not> md_is_symlink named" "same_file named m" "validate_token_metadata path v m = Inr ()"
    "fv_read v (MAX_TOKEN_BYTES + 1) = Inr contents" "length contents \<le> MAX_TOKEN_BYTES"
    "secret_from_text contents File = Inr token"
    using assms by (auto simp: load_token_file_Inr)
  note v = m(5) [unfolded validate_token_metadata_Inr]
  have mode: "permission_bits m \<in> {0x100, 0x120, 0x180, 0x1A0}"
    using v private_modes by blast
  moreover have "md_gid m = fv_egid v" if "permission_bits m \<in> {0x120, 0x1A0}"
    using that v by auto
  ultimately show ?thesis
    using m v by (auto simp: secret_from_text_Inr)
qed

definition sample_metadata :: metadata where
  "sample_metadata = \<lparr>md_is_file = True, md_is_dir = False, md_is_symlink = False, md_dev = 1,
     md_ino = 7, md_mode = 0x81A0, md_uid = 0, md_gid = 990, md_nlink = 1, md_len = 5\<rparr>"

definition sample_token_view :: file_view where
  "sample_token_view = \<lparr>fv_open = Inr (), fv_fstat = Inr sample_metadata, fv_lstat = Inr sample_metadata,
     fv_acl = Inl NODATA, fv_read = (\<lambda>n. Inr ''abcd ''), fv_euid = 990, fv_egid = 990\<rparr>"

lemma sample_token_loads: "load_token_file ''/t'' sample_token_view = Inr ''abcd''"
proof -
  have "trim ''abcd '' = ''abcd''"
    using trim_surrounded [of "[]" "'' ''" "''abcd''"] by (simp add: is_ascii_def is_whitespace_def)
  then show ?thesis
    by (simp add: load_token_file_Inr validate_token_metadata_Inr secret_from_text_Inr sample_token_view_def
        sample_metadata_def permission_bits_def same_file_def MAX_TOKEN_BYTES_def utf8_width_def is_whitespace_def is_control_def)
qed

theorem token_file_trusted_witness:
  "\<exists>m. fv_fstat sample_token_view = Inr m \<and> md_uid m = 0"
  using token_file_trusted [OF sample_token_loads] by blast

text \<open>
  What loading the configuration checks: the descriptor is a regular file within the
  size limit, owned by root or the effective user, not writable by group or others, the
  path is no symbolic link and leads to it, and the contents are read and parse.
\<close>

lemma config_file_trusted:
  "config_load toml parse path v = Inr c \<longleftrightarrow>
     (\<exists>m named contents. fv_open v = Inr () \<and> fv_fstat v = Inr m \<and> fv_lstat v = Inr named \<and>
        md_is_file m \<and> \<not> md_is_symlink named \<and> same_file named m \<and>
        permission_bits m AND 0x12 = 0 \<and> (md_uid m = 0 \<or> md_uid m = fv_euid v) \<and>
        md_len m \<le> MAX_CONFIG_BYTES \<and> fv_read v (MAX_CONFIG_BYTES + 1) = Inr contents \<and>
        config_parse toml parse contents (Some path) = Inr c)"
  by (auto simp: config_load_def bind_res_Inr_iff open_config_file_Inr config_parse_Inr_iff)

text \<open>
  Neither file is accepted through a path that is a symbolic link, or that leads to another
  file than the one opened, or to something that is not a regular file.
\<close>

lemma swapped_files_refused:
  assumes "fv_fstat v = Inr opened" and "fv_lstat v = Inr named"
    and "md_is_symlink named \<or> \<not> same_file named opened \<or> \<not> md_is_file opened"
  shows "\<not> token_accepts path v \<and> \<not> config_accepts path v"
  using assms token_file.swapped_refused token_file.symlink_refused token_file.special_refused
    config_file.swapped_refused config_file.symlink_refused config_file.special_refused by blast

definition swapped_token_view :: file_view where
  "swapped_token_view = sample_token_view\<lparr>fv_lstat := Inr (sample_metadata\<lparr>md_ino := 8\<rparr>)\<rparr>"

lemma swapped_files_refused_witness:
  "\<not> token_accepts ''/t'' swapped_token_view \<and> \<not> config_accepts ''/t'' swapped_token_view"
  using swapped_files_refused [of swapped_token_view sample_metadata "sample_metadata\<lparr>md_ino := 8\<rparr>" "''/t''"]
  by (simp add: swapped_token_view_def sample_token_view_def same_file_def) (simp add: sample_metadata_def)

end
