(* ===== verification/Runtime_Lock.thy ===== *)
theory Runtime_Lock
  imports Secure_Files
begin

unbundle bit_operations_syntax

text \<open>
  \<open>updater.rs\<close>: the runtime lock that keeps two processes from managing the same DNS record.
  Every record has a lock file named by a hash of its identity, in a directory that only the
  process owner can write to. As with the other files, each system call of an attempt has its
  own answer; the advisory lock itself belongs to the operating system and is a parameter.
\<close>

section \<open>Identity\<close>

definition fnv1a_step :: "u64 \<Rightarrow> char \<Rightarrow> u64" where
  "fnv1a_step hash c = (hash XOR of_nat (byte c)) * 0x00000100000001b3"

definition fnv1a_hash :: "string \<Rightarrow> u64" where
  "fnv1a_hash bytes = foldl fnv1a_step 0xcbf29ce484222325 bytes"

definition canonical_lock_name :: "string \<Rightarrow> string" where
  "canonical_lock_name n = to_ascii_lowercase (trim_end_char (CHR ''.'') (trim n))"

definition resource_identity :: "record_config \<Rightarrow> string" where
  "resource_identity r =
     canonical_lock_name (zone r) @ [CHR 0x00] @ record_type_str (record_type r) @ [CHR 0x00] @
     canonical_lock_name (name r)"

definition resource_lock_hash :: "record_config \<Rightarrow> u64" where
  "resource_lock_hash r = fnv1a_hash (resource_identity r)"

record runtime_lock_identity =
  rl_resource_hashes :: "u64 list"
  rl_lock_root :: string
  rl_temporary_root :: bool
  rl_disabled :: bool

definition installed_root :: string where
  "installed_root = ''/var/lib/cirrusync''"

text \<open>\<open>temporary_lock_root\<close>: the canonical path of \<open>/tmp\<close>, if the system gives one.\<close>

definition temporary_lock_root :: "string option \<Rightarrow> string" where
  "temporary_lock_root canonical = (case canonical of Some p \<Rightarrow> p | None \<Rightarrow> ''/tmp'')"

text \<open>\<open>RuntimeLockIdentity::for_config\<close>; the arguments are the answers of \<open>lstat\<close> and \<open>canonicalize\<close>.\<close>

definition for_config ::
  "(metadata, io_error) result \<Rightarrow> string option \<Rightarrow> config \<Rightarrow> runtime_lock_identity" where
  "for_config var_lib tmp c =
     (let installed = (case var_lib of Inr _ \<Rightarrow> True | Inl e \<Rightarrow> io_kind e \<noteq> NotFound) in
      \<lparr>rl_resource_hashes = remdups_adj (sort (map resource_lock_hash (records c))),
       rl_lock_root = (if installed then installed_root else temporary_lock_root tmp),
       rl_temporary_root = \<not> installed,
       rl_disabled = False\<rparr>)"

section \<open>Errors\<close>

datatype runtime_lock_error =
    LockOpen string io_error
  | Insecure string string
  | AlreadyRunning string
  | LockFailed string io_error

fun runtime_lock_error_text :: "runtime_lock_error \<Rightarrow> string" where
  "runtime_lock_error_text (LockOpen path e) =
     ''could not open runtime lock target '' @ path @ '': '' @ io_text e"
| "runtime_lock_error_text (AlreadyRunning path) =
     ''another Cirrusync process already holds runtime lock '' @ path"
| "runtime_lock_error_text (Insecure path reason) = ''unsafe runtime lock '' @ path @ '': '' @ reason"
| "runtime_lock_error_text (LockFailed path e) =
     ''could not lock runtime target '' @ path @ '': '' @ io_text e"

section \<open>The lock directory\<close>

definition path_join :: "string \<Rightarrow> string \<Rightarrow> string" where
  "path_join parent child = (if ends_with parent ''/'' then parent @ child else parent @ ''/'' @ child)"

text \<open>The answers for one ownership probe: create the file, \<open>fstat\<close> it, remove it.\<close>

record probe_view =
  pv_open :: "(unit, io_error) result"
  pv_fstat :: "(metadata, io_error) result"
  pv_remove :: "(unit, io_error) result"

text \<open>The answers for one lock file: the first \<open>lstat\<close>, then the opening.\<close>

record lock_view =
  lv_existing :: "(metadata, io_error) result"
  lv_file :: file_view

text \<open>
  The answers for one acquisition: \<open>lstat\<close> of the probe directory at its two checks, process
  identifier, time and probe counter, the probes, \<open>mkdir\<close> and \<open>lstat\<close> of the lock
  directory, and the lock files in order.
\<close>

record lock_os =
  lo_tmp :: "string option"
  lo_container :: "(metadata, io_error) result"
  lo_container_again :: "(metadata, io_error) result"
  lo_pid :: nat
  lo_timestamp :: nat
  lo_sequence :: nat
  lo_probes :: "nat \<Rightarrow> probe_view"
  lo_mkdir :: "(unit, io_error) result"
  lo_parent :: "(metadata, io_error) result"
  lo_locks :: "nat \<Rightarrow> lock_view"

definition mode_0777 :: "metadata \<Rightarrow> u32" where
  "mode_0777 m = md_mode m AND 0x1FF"

definition validate_private_lock_container ::
  "string \<Rightarrow> (metadata, io_error) result \<Rightarrow> (unit, runtime_lock_error) result" where
  "validate_private_lock_container root answer =
     bind_res (map_err (LockOpen root) answer) (\<lambda>m.
     bind_res (ensure (\<not> (md_is_symlink m \<or> \<not> md_is_dir m))
       (Insecure root ''ownership-probe parent must be a real directory'')) (\<lambda>_.
     ensure (\<not> (md_mode m AND 0x12 \<noteq> 0 \<and> md_mode m AND 0x200 = 0))
       (Insecure root ''ownership-probe parent is writable by other users without the sticky bit'')))"

definition probe_path :: "lock_os \<Rightarrow> string \<Rightarrow> nat \<Rightarrow> string" where
  "probe_path os root attempt =
     path_join root (''.cirrusync-owner-'' @ show_nat (lo_pid os) @ ''-'' @
       pad_zero 32 (show_hex (lo_timestamp os)) @ ''-'' @
       pad_zero 16 (show_hex ((lo_sequence os + attempt) mod 2 ^ 64)) @ ''-'' @
       pad_zero 2 (show_hex attempt))"

text \<open>The attempts of \<open>current_file_owner\<close>, counted by the attempts left.\<close>

fun probe_owner :: "lock_os \<Rightarrow> string \<Rightarrow> nat \<Rightarrow> (nat, runtime_lock_error) result" where
  "probe_owner os root 0 = Inl (Insecure root ''could not create a collision-free ownership probe'')"
| "probe_owner os root (Suc k) =
     (let attempt = 15 - k; path = probe_path os root attempt; v = lo_probes os attempt in
      case pv_open v of
        Inr _ \<Rightarrow>
          bind_res (map_err (LockOpen path) (pv_fstat v)) (\<lambda>m.
          bind_res (map_err (LockOpen path) (pv_remove v)) (\<lambda>_. Inr (md_uid m)))
      | Inl e \<Rightarrow>
          if io_kind e = AlreadyExists then probe_owner os root k else Inl (LockOpen path e))"

definition current_file_owner :: "lock_os \<Rightarrow> string \<Rightarrow> (nat, runtime_lock_error) result" where
  "current_file_owner os root =
     bind_res (validate_private_lock_container root (lo_container_again os)) (\<lambda>_. probe_owner os root 16)"

definition create_private_lock_directory ::
  "lock_os \<Rightarrow> string \<Rightarrow> (unit, runtime_lock_error) result" where
  "create_private_lock_directory os parent =
     (case lo_mkdir os of
        Inr _ \<Rightarrow> Inr ()
      | Inl e \<Rightarrow> if io_kind e = AlreadyExists then Inr () else Inl (LockOpen parent e))"

definition lock_directory_metadata :: "lock_os \<Rightarrow> string \<Rightarrow> (metadata, runtime_lock_error) result" where
  "lock_directory_metadata os path =
     bind_res (map_err (LockOpen path) (lo_parent os)) (\<lambda>m.
     bind_res (ensure (\<not> (md_is_symlink m \<or> \<not> md_is_dir m))
       (Insecure path ''lock parent must be a real directory, not a symbolic link'')) (\<lambda>_. Inr m))"

definition validate_owner_match :: "string \<Rightarrow> nat \<Rightarrow> nat \<Rightarrow> (unit, runtime_lock_error) result" where
  "validate_owner_match path parent_owner current_owner =
     ensure (parent_owner = current_owner)
       (Insecure path (''lock directory owner '' @ show_nat parent_owner @
          '' does not match process owner '' @ show_nat current_owner))"

record prepared_lock_parent =
  pl_path :: string
  pl_expected_owner :: nat

definition prepare_temporary_lock_parent ::
  "lock_os \<Rightarrow> string \<Rightarrow> (prepared_lock_parent, runtime_lock_error) result" where
  "prepare_temporary_lock_parent os root =
     bind_res (validate_private_lock_container root (lo_container os)) (\<lambda>_.
     bind_res (current_file_owner os root) (\<lambda>current_owner.
     let parent = path_join root (''cirrusync-runtime-'' @ show_nat current_owner) in
     bind_res (create_private_lock_directory os parent) (\<lambda>_.
     bind_res (lock_directory_metadata os parent) (\<lambda>m.
     bind_res (ensure (mode_0777 m AND 0x3F = 0) (Insecure parent (''private lock directory mode '' @
       mode_text (mode_0777 m) @ '' is too permissive''))) (\<lambda>_.
     bind_res (validate_owner_match parent (md_uid m) current_owner) (\<lambda>_.
     Inr \<lparr>pl_path = parent, pl_expected_owner = current_owner\<rparr>))))))"

definition validate_installed_lock_parent ::
  "string \<Rightarrow> metadata \<Rightarrow> nat \<Rightarrow> (prepared_lock_parent, runtime_lock_error) result" where
  "validate_installed_lock_parent root m current_owner =
     bind_res (ensure (mode_0777 m AND 0x12 = 0) (Insecure root (''installed lock directory mode '' @
       mode_text (mode_0777 m) @ '' permits group or other writes''))) (\<lambda>_.
     bind_res (validate_owner_match root (md_uid m) current_owner) (\<lambda>_.
     Inr \<lparr>pl_path = root, pl_expected_owner = md_uid m\<rparr>))"

definition prepare_installed_lock_parent ::
  "lock_os \<Rightarrow> string \<Rightarrow> (prepared_lock_parent, runtime_lock_error) result" where
  "prepare_installed_lock_parent os root =
     bind_res (lock_directory_metadata os root) (\<lambda>m.
     bind_res (current_file_owner os (temporary_lock_root (lo_tmp os))) (\<lambda>current_owner.
     validate_installed_lock_parent root m current_owner))"

definition prepare_lock_parent ::
  "lock_os \<Rightarrow> string \<Rightarrow> bool \<Rightarrow> (prepared_lock_parent, runtime_lock_error) result" where
  "prepare_lock_parent os root temporary =
     (if temporary then prepare_temporary_lock_parent os root else prepare_installed_lock_parent os root)"

section \<open>Lock files\<close>

definition validate_existing_lock_target ::
  "string \<Rightarrow> (metadata, io_error) result \<Rightarrow> nat \<Rightarrow> (unit, runtime_lock_error) result" where
  "validate_existing_lock_target path answer expected_owner =
     (case answer of
        Inl e \<Rightarrow> if io_kind e = NotFound then Inr () else Inl (LockOpen path e)
      | Inr m \<Rightarrow>
          bind_res (ensure (\<not> (md_is_symlink m \<or> \<not> md_is_file m))
            (Insecure path ''existing lock target must be a regular, non-symbolic-link file'')) (\<lambda>_.
          bind_res (ensure (md_uid m = expected_owner) (Insecure path (''lock file owner '' @
            show_nat (md_uid m) @ '' does not match lock directory owner '' @ show_nat expected_owner))) (\<lambda>_.
          bind_res (ensure (md_nlink m = 1) (Insecure path ''hard-linked lock files are not accepted'')) (\<lambda>_.
          ensure (mode_0777 m AND 0x3F = 0) (Insecure path (''lock file mode '' @
            mode_text (mode_0777 m) @ '' is too permissive''))))))"

definition open_runtime_lock ::
  "string \<Rightarrow> nat \<Rightarrow> lock_view \<Rightarrow> (unit, runtime_lock_error) result" where
  "open_runtime_lock path expected_owner v =
     bind_res (validate_existing_lock_target path (lv_existing v) expected_owner) (\<lambda>_.
     bind_res (map_err (LockOpen path) (fv_open (lv_file v))) (\<lambda>_.
     bind_res (map_err (LockOpen path) (fv_fstat (lv_file v))) (\<lambda>opened.
     bind_res (map_err (LockOpen path) (fv_lstat (lv_file v))) (\<lambda>named.
     bind_res (ensure (\<not> (md_is_symlink named \<or> \<not> md_is_file opened))
       (Insecure path ''lock target must be a regular file, not a symbolic link'')) (\<lambda>_.
     bind_res (ensure (same_file named opened)
       (Insecure path ''lock path changed while it was being opened'')) (\<lambda>_.
     bind_res (ensure (md_nlink opened = 1) (Insecure path ''hard-linked lock files are not accepted'')) (\<lambda>_.
     bind_res (ensure (md_uid opened = expected_owner) (Insecure path (''lock file owner '' @
       show_nat (md_uid opened) @ '' does not match lock directory owner '' @ show_nat expected_owner))) (\<lambda>_.
     ensure (mode_0777 opened AND 0x3F = 0) (Insecure path (''lock file mode '' @
       mode_text (mode_0777 opened) @ '' is too permissive''))))))))))"

definition lock_file_name :: "u64 \<Rightarrow> string" where
  "lock_file_name hash = ''record-'' @ pad_zero 16 (show_hex (unat hash)) @ ''.lock''"

definition lock_paths_in :: "runtime_lock_identity \<Rightarrow> string \<Rightarrow> string list" where
  "lock_paths_in lock parent = map (\<lambda>hash. path_join parent (lock_file_name hash)) (rl_resource_hashes lock)"

section \<open>Acquisition\<close>

text \<open>
  The operating system's advisory locks: \<open>try_lock_exclusive\<close> and \<open>unlock\<close> of the locking
  library on a path's file, over a lock state of type \<open>'l\<close>, and the error number it documents
  for contention.
\<close>

record 'l locker =
  lk_try_lock :: "string \<Rightarrow> 'l \<Rightarrow> (unit, io_error) result \<times> 'l"
  lk_unlock :: "string \<Rightarrow> 'l \<Rightarrow> 'l"
  lk_contended :: "int option"

definition is_lock_contended :: "'l locker \<Rightarrow> io_error \<Rightarrow> bool" where
  "is_lock_contended lk e \<longleftrightarrow> io_kind e = WouldBlock \<or>
     (io_raw_os_error e \<noteq> None \<and> io_raw_os_error e = lk_contended lk)"

text \<open>
  The loop of \<open>acquire\<close>: \<open>held\<close> are the files locked so far. An early return drops them,
  which closes them and releases their locks; \<open>RuntimeLockGuard::drop\<close> unlocks them.
\<close>

definition release :: "'l locker \<Rightarrow> string list \<Rightarrow> 'l \<Rightarrow> 'l" where
  "release lk held l = foldl (\<lambda>l path. lk_unlock lk path l) l held"

fun acquire_locks :: "'l locker \<Rightarrow> lock_os \<Rightarrow> nat \<Rightarrow> nat \<Rightarrow> string list \<Rightarrow> string list \<Rightarrow> 'l
    \<Rightarrow> (string list, runtime_lock_error) result \<times> 'l" where
  "acquire_locks lk os owner i held [] l = (Inr held, l)"
| "acquire_locks lk os owner i held (path # paths) l =
     (case open_runtime_lock path owner (lo_locks os i) of
        Inl e \<Rightarrow> (Inl e, release lk held l)
      | Inr _ \<Rightarrow>
          (case lk_try_lock lk path l of
             (Inr _, l') \<Rightarrow> acquire_locks lk os owner (Suc i) (held @ [path]) paths l'
           | (Inl e, l') \<Rightarrow>
               (if is_lock_contended lk e then (Inl (AlreadyRunning path), release lk held l')
                else (Inl (LockFailed path e), release lk held l'))))"

definition acquire :: "'l locker \<Rightarrow> lock_os \<Rightarrow> runtime_lock_identity \<Rightarrow> 'l
    \<Rightarrow> (string list option, runtime_lock_error) result \<times> 'l" where
  "acquire lk os lock l =
     (if rl_disabled lock then (Inr None, l)
      else if rl_resource_hashes lock = [] then
        (Inl (Insecure [] ''no managed DNS resources were available to lock''), l)
      else
        (case prepare_lock_parent os (rl_lock_root lock) (rl_temporary_root lock) of
           Inl e \<Rightarrow> (Inl e, l)
         | Inr prepared \<Rightarrow>
             (case acquire_locks lk os (pl_expected_owner prepared) 0 [] (lock_paths_in lock (pl_path prepared)) l of
                (Inl e, l') \<Rightarrow> (Inl e, l')
              | (Inr files, l') \<Rightarrow> (Inr (Some files), l'))))"

section \<open>Identities\<close>

lemma hd_remdups_adj_ge: "sorted (x # xs) \<Longrightarrow> y \<in> set (remdups_adj (x # xs)) \<Longrightarrow> x \<le> (y :: 'a :: linorder)"
  by auto

lemma sorted_wrt_remdups_adj: "sorted xs \<Longrightarrow> sorted_wrt (<) (remdups_adj (xs :: 'a :: linorder list))"
proof (induction xs rule: remdups_adj.induct)
  case (3 x y xs)
  then show ?case
    by (cases "x = y") (auto simp: order_le_less)
qed simp_all

lemma for_config_hashes:
  "sorted_wrt (<) (rl_resource_hashes (for_config v t c))"
  "set (rl_resource_hashes (for_config v t c)) = resource_lock_hash ` set (records c)"
  by (simp_all add: for_config_def Let_def sorted_wrt_remdups_adj)

lemma resource_identity_eqI:
  "canonical_dns_name (zone r) = canonical_dns_name (zone r') \<Longrightarrow>
   canonical_dns_name (name r) = canonical_dns_name (name r') \<Longrightarrow>
   record_type r = record_type r' \<Longrightarrow> resource_identity r = resource_identity r'"
  by (simp add: resource_identity_def canonical_lock_name_def canonical_dns_name_def)

section \<open>Lock files are pinned and private\<close>

lemma open_runtime_lock_Inr:
  "open_runtime_lock path owner v = Inr () \<longleftrightarrow>
     validate_existing_lock_target path (lv_existing v) owner = Inr () \<and>
     (\<exists>opened named. fv_open (lv_file v) = Inr () \<and> fv_fstat (lv_file v) = Inr opened \<and>
        fv_lstat (lv_file v) = Inr named \<and> md_is_file opened \<and> \<not> md_is_symlink named \<and>
        same_file named opened \<and> md_nlink opened = 1 \<and> md_uid opened = owner \<and>
        mode_0777 opened AND 0x3F = 0)"
  by (auto simp: open_runtime_lock_def bind_res_Inr_iff)

definition lock_accepts :: "string \<Rightarrow> nat \<Rightarrow> (metadata, io_error) result \<Rightarrow> file_view \<Rightarrow> bool" where
  "lock_accepts path owner existing fv \<longleftrightarrow>
     open_runtime_lock path owner \<lparr>lv_existing = existing, lv_file = fv\<rparr> = Inr ()"

interpretation lock_file: pinned_file "lock_accepts path owner existing" for path owner existing
  by unfold_locales (auto simp: lock_accepts_def open_runtime_lock_Inr)

section \<open>Acquisition and exclusion\<close>

text \<open>
  What the locking library documents: a lock is granted only when nobody holds it, then it is
  held; a refusal changes nothing; unlocking releases that lock only.
\<close>

definition exclusive :: "'l locker \<Rightarrow> ('l \<Rightarrow> string \<Rightarrow> bool) \<Rightarrow> bool" where
  "exclusive lk holds \<longleftrightarrow>
     (\<forall>p l l' u. lk_try_lock lk p l = (Inr u, l') \<longrightarrow>
        \<not> holds l p \<and> (\<forall>q. holds l' q \<longleftrightarrow> q = p \<or> holds l q)) \<and>
     (\<forall>p l l' e. lk_try_lock lk p l = (Inl e, l') \<longrightarrow> (\<forall>q. holds l' q \<longleftrightarrow> holds l q)) \<and>
     (\<forall>p l q. holds (lk_unlock lk p l) q \<longleftrightarrow> q \<noteq> p \<and> holds l q)"

lemma release_holds:
  "exclusive lk holds \<Longrightarrow> holds (release lk held l) q \<longleftrightarrow> holds l q \<and> q \<notin> set held"
  unfolding release_def by (induction held arbitrary: l) (auto simp: exclusive_def)

lemma acquire_locks_holds:
  assumes ex: "exclusive lk holds"
  shows "acquire_locks lk os owner i held paths l = (r, l') \<Longrightarrow>
     (\<And>q. holds l q \<longleftrightarrow> holds l0 q \<or> q \<in> set held) \<Longrightarrow> (\<And>q. q \<in> set held \<Longrightarrow> \<not> holds l0 q) \<Longrightarrow>
     (case r of
        Inl _ \<Rightarrow> \<forall>q. holds l' q \<longleftrightarrow> holds l0 q
      | Inr files \<Rightarrow> files = held @ paths \<and> (\<forall>q. holds l' q \<longleftrightarrow> holds l0 q \<or> q \<in> set files) \<and>
          (\<forall>q \<in> set files. \<not> holds l0 q))"
proof (induction paths arbitrary: i held l)
  case Nil
  then show ?case by auto
next
  case (Cons path paths)
  note rel = release_holds [OF ex]
  have rel0: "holds (release lk held l2) q \<longleftrightarrow> holds l0 q" if "\<And>q. holds l2 q \<longleftrightarrow> holds l q" for l2 q
    using Cons.prems(2,3) by (auto simp: rel that)
  show ?case
  proof (cases "open_runtime_lock path owner (lo_locks os i)")
    case (Inl e)
    then show ?thesis using Cons.prems(1) rel0 by auto
  next
    case (Inr u)
    obtain x l2 where x: "lk_try_lock lk path l = (x, l2)"
      by (cases "lk_try_lock lk path l")
    show ?thesis
    proof (cases x)
      case (Inl e)
      then have "holds l2 q \<longleftrightarrow> holds l q" for q
        using ex x unfolding exclusive_def by blast
      then show ?thesis
        using Cons.prems(1) Inr x Inl rel0 [of l2] by (auto split: if_splits)
    next
      case (Inr w)
      then have granted: "\<not> holds l path" "\<And>q. holds l2 q \<longleftrightarrow> q = path \<or> holds l q"
        using ex x by (auto simp: exclusive_def)
      have step: "acquire_locks lk os owner (Suc i) (held @ [path]) paths l2 = (r, l')"
        using Cons.prems(1) \<open>open_runtime_lock path owner (lo_locks os i) = Inr u\<close> x Inr by simp
      have now_held: "holds l2 q \<longleftrightarrow> holds l0 q \<or> q \<in> set (held @ [path])" for q
        using granted(2) [of q] Cons.prems(2) [of q] by auto
      have fresh: "\<not> holds l0 q" if "q \<in> set (held @ [path])" for q
        using that granted(1) Cons.prems(2) [of path] Cons.prems(3) [of q] by auto
      show ?thesis
        using Cons.IH [OF step now_held fresh] by (simp split: sum.splits)
    qed
  qed
qed

lemma acquire_holds:
  assumes "exclusive lk holds" and "acquire lk os lock l = (r, l')" and "\<not> rl_disabled lock"
  shows "case r of
      Inl _ \<Rightarrow> \<forall>q. holds l' q \<longleftrightarrow> holds l q
    | Inr None \<Rightarrow> False
    | Inr (Some files) \<Rightarrow> (\<exists>p. prepare_lock_parent os (rl_lock_root lock) (rl_temporary_root lock) = Inr p \<and>
        files = lock_paths_in lock (pl_path p)) \<and> (\<forall>q. holds l' q \<longleftrightarrow> holds l q \<or> q \<in> set files) \<and>
        (\<forall>q \<in> set files. \<not> holds l q)"
proof (cases "rl_resource_hashes lock = []")
  case True
  then show ?thesis using assms(2,3) by (auto simp: acquire_def)
next
  case False
  show ?thesis
  proof (cases "prepare_lock_parent os (rl_lock_root lock) (rl_temporary_root lock)")
    case (Inl e)
    then show ?thesis using assms(2,3) False by (auto simp: acquire_def)
  next
    case (Inr p)
    obtain x l2 where x: "acquire_locks lk os (pl_expected_owner p) 0 [] (lock_paths_in lock (pl_path p)) l = (x, l2)"
      by (cases "acquire_locks lk os (pl_expected_owner p) 0 [] (lock_paths_in lock (pl_path p)) l")
    then have "r = (case x of Inl e \<Rightarrow> Inl e | Inr files \<Rightarrow> Inr (Some files))" "l' = l2"
      using assms(2,3) False Inr by (auto simp: acquire_def split: sum.splits)
    then show ?thesis
      using acquire_locks_holds [OF assms(1) x, of l] Inr by (auto split: sum.splits)
  qed
qed

section \<open>Properties\<close>

text \<open>
  C14: the lock of a record excludes. As long as a process holds its guard, whatever others lock and
  release meanwhile, an acquisition in the same lock directory fails whenever the two configurations
  share a record, up to case, white space and trailing dots of the names, and it leaves no lock
  behind. The directory is the installed one where it exists, else one per user under the
  temporary directory, so that processes of different users without an installed directory are not covered.
\<close>

theorem runtime_lock_excludes:
  assumes "exclusive lk holds"
    and "acquire lk os (for_config v t c) l = (Inr (Some files), l')"
    and "\<forall>q \<in> set files. holds l1 q"
    and "acquire lk os' (for_config v' t' c') l1 = (r, l2)"
    and "prepare_lock_parent os (rl_lock_root (for_config v t c)) (rl_temporary_root (for_config v t c)) = Inr p"
    and "prepare_lock_parent os' (rl_lock_root (for_config v' t' c')) (rl_temporary_root (for_config v' t' c')) = Inr p'"
    and "pl_path p = pl_path p'"
    and "a \<in> set (records c)" and "b \<in> set (records c')" and "record_key a = record_key b"
  shows "(\<exists>e. r = Inl e) \<and> (\<forall>q. holds l2 q \<longleftrightarrow> holds l1 q)"
proof -
  have dis: "\<not> rl_disabled (for_config w u d)" for w u d
    by (simp add: for_config_def Let_def)
  have "resource_lock_hash a = resource_lock_hash b"
    using assms(10) resource_identity_eqI [of a b] by (simp add: record_key_def resource_lock_hash_def)
  then have shared: "resource_lock_hash a \<in> set (rl_resource_hashes (for_config v t c))"
    "resource_lock_hash a \<in> set (rl_resource_hashes (for_config v' t' c'))"
    unfolding for_config_hashes using assms(8,9) by (blast, metis imageI)
  define q where "q = path_join (pl_path p) (lock_file_name (resource_lock_hash a))"
  have "q \<in> set files"
    using acquire_holds [OF assms(1,2) dis] shared(1) assms(5)
    by (auto simp: lock_paths_in_def q_def)
  then have "q \<in> set files" "holds l1 q" using assms(3) by simp_all
  moreover have "q \<in> set (lock_paths_in (for_config v' t' c') (pl_path p'))"
    using shared(2) assms(7) by (auto simp: lock_paths_in_def q_def)
  ultimately show ?thesis
    using acquire_holds [OF assms(1,4) dis] assms(6) by (auto split: sum.splits option.splits)
qed

definition set_locker :: "string set locker" where
  "set_locker = \<lparr>lk_try_lock = (\<lambda>p l. if p \<in> l
       then (Inl \<lparr>io_kind = WouldBlock, io_raw_os_error = Some 11, io_text = ''busy''\<rparr>, l) else (Inr (), insert p l)),
     lk_unlock = (\<lambda>p l. l - {p}), lk_contended = Some 11\<rparr>"

lemma set_locker_exclusive: "exclusive set_locker (\<lambda>l p. p \<in> l)"
  by (auto simp: exclusive_def set_locker_def split: if_splits)

definition sample_lock_os :: lock_os where
  "sample_lock_os = (let dir = \<lparr>md_is_file = False, md_is_dir = True, md_is_symlink = False, md_dev = 1,
        md_ino = 2, md_mode = 0x41ED, md_uid = 0, md_gid = 0, md_nlink = 2, md_len = 0\<rparr>;
       reg = sample_metadata\<lparr>md_mode := 0x8180\<rparr>;
       missing = \<lparr>io_kind = NotFound, io_raw_os_error = Some 2, io_text = ''missing''\<rparr> in
     \<lparr>lo_tmp = None, lo_container = Inr dir, lo_container_again = Inr dir, lo_pid = 7, lo_timestamp = 0,
      lo_sequence = 0, lo_probes = (\<lambda>_. \<lparr>pv_open = Inr (), pv_fstat = Inr reg, pv_remove = Inr ()\<rparr>),
      lo_mkdir = Inr (), lo_parent = Inr dir,
      lo_locks = (\<lambda>_. \<lparr>lv_existing = Inl missing,
         lv_file = sample_token_view\<lparr>fv_fstat := Inr reg, fv_lstat := Inr reg\<rparr>\<rparr>)\<rparr>)"

abbreviation sample_lock :: runtime_lock_identity where
  "sample_lock \<equiv> for_config (Inr sample_metadata) None sample_config"

lemma sample_lock_parent:
  "prepare_lock_parent sample_lock_os (rl_lock_root sample_lock) (rl_temporary_root sample_lock) =
     Inr \<lparr>pl_path = installed_root, pl_expected_owner = 0\<rparr>"
  by (simp add: prepare_lock_parent_def prepare_installed_lock_parent_def for_config_def sample_lock_os_def
      lock_directory_metadata_def current_file_owner_def validate_private_lock_container_def
      validate_installed_lock_parent_def validate_owner_match_def mode_0777_def sample_metadata_def Let_def
      eval_nat_numeral)

lemma sample_lock_acquired:
  "\<exists>path. acquire set_locker sample_lock_os sample_lock {} = (Inr (Some [path]), {path})"
proof -
  have opens: "open_runtime_lock path 0 (lo_locks sample_lock_os i) = Inr ()" for path i
    by (simp add: open_runtime_lock_Inr validate_existing_lock_target_def sample_lock_os_def Let_def
        sample_token_view_def sample_metadata_def same_file_def mode_0777_def)
  have h: "rl_resource_hashes sample_lock = [resource_lock_hash sample_record]"
    by (simp add: for_config_def Let_def sample_config_def)
  show ?thesis
    unfolding acquire_def sample_lock_parent lock_paths_in_def h
    by (simp add: opens) (simp add: for_config_def Let_def set_locker_def)
qed

theorem runtime_lock_excludes_witness:
  "\<exists>path e. acquire set_locker sample_lock_os sample_lock {} = (Inr (Some [path]), {path}) \<and>
     fst (acquire set_locker sample_lock_os sample_lock {path, ''/run/cirrusync/other.lock''}) = Inl e"
proof -
  obtain path where "acquire set_locker sample_lock_os sample_lock {} = (Inr (Some [path]), {path})"
    using sample_lock_acquired by blast
  moreover from this have "\<exists>e. fst (acquire set_locker sample_lock_os sample_lock {path, ''/run/cirrusync/other.lock''}) = Inl e"
    using runtime_lock_excludes [OF set_locker_exclusive _ _ surjective_pairing sample_lock_parent sample_lock_parent,
        of "{}" "[path]" "{path}" "{path, ''/run/cirrusync/other.lock''}" sample_record sample_record]
    by (simp add: sample_config_def)
  ultimately show ?thesis by blast
qed

text \<open>
  A lock file is used only when the opened descriptor is a regular file with a single link,
  owned by the owner of the lock directory and without group or other permissions, and its path
  is no symbolic link and still leads to it.
\<close>

lemma lock_file_private:
  assumes "acquire lk os lock l = (Inr (Some files), l')"
  shows "\<exists>p. prepare_lock_parent os (rl_lock_root lock) (rl_temporary_root lock) = Inr p \<and>
    (\<forall>i < length files. files ! i = path_join (pl_path p) (lock_file_name (rl_resource_hashes lock ! i)) \<and>
       (\<exists>opened named. fv_fstat (lv_file (lo_locks os i)) = Inr opened \<and>
          fv_lstat (lv_file (lo_locks os i)) = Inr named \<and> md_is_file opened \<and> \<not> md_is_symlink named \<and>
          same_file named opened \<and> md_nlink opened = 1 \<and> md_uid opened = pl_expected_owner p \<and>
          mode_0777 opened AND 0x3F = 0))"
proof -
  have all: "acquire_locks lk os owner i held paths k = (Inr files', k') \<Longrightarrow>
      files' = held @ paths \<and> (\<forall>j < length paths. open_runtime_lock (paths ! j) owner (lo_locks os (i + j)) = Inr ())"
    for owner i held paths k files' k'
  proof (induction paths arbitrary: i held k)
    case (Cons path paths)
    then have "open_runtime_lock path owner (lo_locks os i) = Inr ()"
      by (auto split: sum.splits)
    moreover obtain k2 where "acquire_locks lk os owner (Suc i) (held @ [path]) paths k2 = (Inr files', k')"
      using Cons.prems by (auto split: sum.splits prod.splits if_splits)
    ultimately show ?case
      using Cons.IH [of "Suc i" "held @ [path]" k2] by (auto simp: less_Suc_eq_0_disj)
  qed simp
  obtain p where p: "prepare_lock_parent os (rl_lock_root lock) (rl_temporary_root lock) = Inr p"
    "acquire_locks lk os (pl_expected_owner p) 0 [] (lock_paths_in lock (pl_path p)) l = (Inr files, l')"
    using assms by (auto simp: acquire_def split: if_splits sum.splits prod.splits)
  then show ?thesis
    using all [OF p(2)] by (auto simp: lock_paths_in_def open_runtime_lock_Inr)
qed

theorem lock_file_private_witness:
  "\<exists>p. prepare_lock_parent sample_lock_os (rl_lock_root sample_lock) (rl_temporary_root sample_lock) = Inr p \<and>
     (\<exists>opened. fv_fstat (lv_file (lo_locks sample_lock_os 0)) = Inr opened \<and> md_uid opened = pl_expected_owner p)"
  using sample_lock_acquired lock_file_private by fastforce

end
