(* ===== verification/Updater.thy ===== *)
theory Updater
  imports Cloudflare Runtime_Lock
begin

text \<open>
  \<open>updater.rs\<close>: reports, the plan for one record and its execution, and the synchronisation
  cycle. The cycle's control block and the record cursor live in the process state; a mutation
  runs outside every timeout, under the guard that marks it in flight.
\<close>

section \<open>Failures and reports\<close>

datatype failure_kind = FkCoordination | FkAuthentication | FkRateLimited | FkTransient | FkPermanent

datatype failure_stage =
    FsCoordination | FsCycleDeadline | FsDiscovery | FsAuthentication | FsZoneLookup | FsRecordLookup
  | FsUpdate | FsCreation | FsEditPermission

fun failure_stage_text :: "failure_stage \<Rightarrow> string" where
  "failure_stage_text FsCoordination = ''runtime coordination''"
| "failure_stage_text FsCycleDeadline = ''cycle deadline''"
| "failure_stage_text FsDiscovery = ''public IP discovery''"
| "failure_stage_text FsAuthentication = ''authentication''"
| "failure_stage_text FsZoneLookup = ''zone lookup''"
| "failure_stage_text FsRecordLookup = ''record lookup''"
| "failure_stage_text FsUpdate = ''record update''"
| "failure_stage_text FsCreation = ''record creation''"
| "failure_stage_text FsEditPermission = ''DNS edit permission''"

record cycle_failure =
  cf_target :: string
  cf_stage :: failure_stage
  cf_kind :: failure_kind
  cf_delay :: "duration option"
  cf_message :: string

definition cycle_failure_text :: "cycle_failure \<Rightarrow> string" where
  "cycle_failure_text f = cf_target f @ '' ('' @ failure_stage_text (cf_stage f) @ ''): '' @ cf_message f"

record cycle_report =
  cr_records :: nat
  cr_unchanged :: nat
  cr_updated :: nat
  cr_created :: nat
  cr_interrupted :: bool
  cr_failures :: "cycle_failure list"

definition cycle_success :: "cycle_report \<Rightarrow> bool" where
  "cycle_success report \<longleftrightarrow> cr_failures report = [] \<and> \<not> cr_interrupted report"

definition cycle_failed :: "cycle_report \<Rightarrow> nat" where
  "cycle_failed report = length (cr_failures report)"

definition report_retry_after :: "cycle_report \<Rightarrow> duration option" where
  "report_retry_after report =
     (case List.map_filter cf_delay (cr_failures report) of [] \<Rightarrow> None | d # ds \<Rightarrow> Some (foldl max d ds))"

definition has_authentication_failure :: "cycle_report \<Rightarrow> bool" where
  "has_authentication_failure report \<longleftrightarrow> list_ex (\<lambda>f. cf_kind f = FkAuthentication) (cr_failures report)"

definition has_retryable_failure :: "cycle_report \<Rightarrow> bool" where
  "has_retryable_failure report \<longleftrightarrow>
     list_ex (\<lambda>f. cf_kind f = FkRateLimited \<or> cf_kind f = FkTransient) (cr_failures report)"

definition cycle_report_text :: "cycle_report \<Rightarrow> string" where
  "cycle_report_text report =
     show_nat (cr_records report) @ '' record(s): '' @ show_nat (cr_unchanged report) @ '' unchanged, '' @
     show_nat (cr_updated report) @ '' updated, '' @ show_nat (cr_created report) @ '' created, '' @
     show_nat (cycle_failed report) @ '' failed'' @
     (if cr_interrupted report then '', interrupted by shutdown'' else [])"

definition empty_report :: "nat \<Rightarrow> cycle_report" where
  "empty_report n = \<lparr>cr_records = n, cr_unchanged = 0, cr_updated = 0, cr_created = 0,
     cr_interrupted = False, cr_failures = []\<rparr>"

definition push_failure :: "cycle_failure \<Rightarrow> cycle_report \<Rightarrow> cycle_report" where
  "push_failure f report = report\<lparr>cr_failures := cr_failures report @ [f]\<rparr>"

definition cloudflare_failure :: "string \<Rightarrow> failure_stage \<Rightarrow> cloudflare_error \<Rightarrow> cycle_failure" where
  "cloudflare_failure target stage e =
     \<lparr>cf_target = target, cf_stage = stage,
      cf_kind = (if is_authentication_failure e then FkAuthentication
                 else if is_rate_limited e then FkRateLimited
                 else if is_transient e then FkTransient else FkPermanent),
      cf_delay = cf_retry_after e, cf_message = cloudflare_error_text e\<rparr>"

definition permanent_failure :: "string \<Rightarrow> failure_stage \<Rightarrow> string \<Rightarrow> cycle_failure" where
  "permanent_failure target stage message =
     \<lparr>cf_target = target, cf_stage = stage, cf_kind = FkPermanent, cf_delay = None, cf_message = message\<rparr>"

definition coordination_failure :: "runtime_lock_error \<Rightarrow> cycle_failure" where
  "coordination_failure e =
     \<lparr>cf_target = ''runtime lock'', cf_stage = FsCoordination, cf_kind = FkCoordination,
      cf_delay = None, cf_message = runtime_lock_error_text e\<rparr>"

definition cycle_deadline_failure :: cycle_failure where
  "cycle_deadline_failure =
     \<lparr>cf_target = ''synchronization cycle'', cf_stage = FsCycleDeadline, cf_kind = FkTransient,
      cf_delay = None, cf_message = ''cycle deadline expired before all read-only work completed''\<rparr>"

section \<open>The updater\<close>

record updater =
  up_config :: config
  up_cloudflare :: cloudflare_client
  up_public_ip :: public_ip_client
  up_runtime_lock :: runtime_lock_identity

text \<open>\<open>Updater::new\<close>; the two answers are those of \<open>RuntimeLockIdentity::for_config\<close>.\<close>

definition updater_new :: "url_parser \<Rightarrow> (metadata, io_error) result \<Rightarrow> string option \<Rightarrow> config
    \<Rightarrow> cloudflare_client \<Rightarrow> public_ip_client \<Rightarrow> (updater, config_error) result" where
  "updater_new parse var_lib tmp c cloudflare_client public_ip =
     bind_res (validate parse c) (\<lambda>_.
     Inr \<lparr>up_config = c, up_cloudflare = cloudflare_client, up_public_ip = public_ip,
          up_runtime_lock = for_config var_lib tmp c\<rparr>)"

section \<open>Discovered addresses\<close>

record discovered_addresses =
  da_ipv4 :: "(ip_addr, string) result option"
  da_ipv6 :: "(ip_addr, string) result option"

definition address_for_record :: "discovered_addresses \<Rightarrow> record_config \<Rightarrow> (ip_addr, string) result" where
  "address_for_record addresses r =
     (case (case record_type r of A \<Rightarrow> da_ipv4 addresses | Aaaa \<Rightarrow> da_ipv6 addresses) of
        Some (Inr address) \<Rightarrow> Inr address
      | Some (Inl message) \<Rightarrow> Inl message
      | None \<Rightarrow> Inl (record_type_str (record_type r) @ '' address discovery was not configured''))"

definition discovery_failure :: "string \<Rightarrow> string \<Rightarrow> cycle_failure" where
  "discovery_failure target message =
     \<lparr>cf_target = target, cf_stage = FsDiscovery, cf_kind = FkTransient, cf_delay = None, cf_message = message\<rparr>"

definition discovery_failures :: "discovered_addresses \<Rightarrow> cycle_failure list" where
  "discovery_failures addresses =
     (case da_ipv4 addresses of Some (Inl m) \<Rightarrow> [discovery_failure ''public IPv4 address'' m] | _ \<Rightarrow> []) @
     (case da_ipv6 addresses of Some (Inl m) \<Rightarrow> [discovery_failure ''public IPv6 address'' m] | _ \<Rightarrow> [])"

definition discover_lane :: "'w env \<Rightarrow> public_ip_client \<Rightarrow> bool \<Rightarrow> address_family \<Rightarrow> string list
    \<Rightarrow> ('w, (ip_addr, string) result option) io" where
  "discover_lane env client needed family ps =
     (if needed then bind_io (discover env client family ps) (\<lambda>r. ret (Some (map_err public_ip_error_text r)))
      else ret None)"

definition discover_required_addresses :: "'w env \<Rightarrow> updater \<Rightarrow> ('w, discovered_addresses) io" where
  "discover_required_addresses env up =
     (let c = up_config up;
          needs_ipv4 = list_ex (\<lambda>r. record_type r = A) (records c);
          needs_ipv6 = list_ex (\<lambda>r. record_type r = Aaaa) (records c)
      in bind_io (join2 env
           (discover_lane env (up_public_ip up) needs_ipv4 Ipv4 (providers (ipv4 c)))
           (discover_lane env (up_public_ip up) needs_ipv6 Ipv6 (providers (ipv6 c))))
         (\<lambda>(v4, v6). ret \<lparr>da_ipv4 = v4, da_ipv6 = v6\<rparr>))"

section \<open>Planning and executing\<close>

datatype record_plan =
    PlanUnchanged
  | PlanUpdate string string record_payload
  | PlanCreate string record_payload

datatype record_outcome = Unchanged | Updated | Created

definition payload_for :: "record_config \<Rightarrow> ip_addr \<Rightarrow> record_payload" where
  "payload_for r address =
     \<lparr>rp_record_type = record_type_str (record_type r), rp_name = name r, rp_content = show_ip address,
      rp_ttl = ttl r, rp_proxied = proxied r\<rparr>"

definition plan_existing_record :: "record_config \<Rightarrow> ip_addr \<Rightarrow> string \<Rightarrow> dns_record \<Rightarrow> record_plan" where
  "plan_existing_record r address zid existing =
     (if parse_ip (dr_content existing) = Some address \<and> dr_ttl existing = ttl r \<and> dr_proxied existing = proxied r
      then PlanUnchanged
      else PlanUpdate zid (dr_id existing) (payload_for r address))"

text \<open>The error of a cycle step: the stage and the client's error.\<close>

definition at_stage :: "failure_stage \<Rightarrow> ('w, ('a, cloudflare_error) result) io
    \<Rightarrow> ('w, ('a, failure_stage \<times> cloudflare_error) result) io" where
  "at_stage stage m = bind_io m (\<lambda>r. ret (map_err (\<lambda>e. (stage, e)) r))"

definition plan_record :: "'w env \<Rightarrow> cloudflare_client \<Rightarrow> record_config \<Rightarrow> ip_addr
    \<Rightarrow> ('w, (record_plan, failure_stage \<times> cloudflare_error) result) io" where
  "plan_record env client r address =
     bind_ok (at_stage FsZoneLookup (resolve_zone_id env client (zone r) (zone_id r))) (\<lambda>zid.
     bind_ok (at_stage FsRecordLookup (find_record env client zid (record_type_str (record_type r)) (name r))) (\<lambda>existing.
     case existing of
       Some e \<Rightarrow> ret (Inr (plan_existing_record r address zid e))
     | None \<Rightarrow>
         if \<not> create_if_missing r then
           ret (Inl (FsRecordLookup, RecordNotFound (record_type_str (record_type r)) (name r)))
         else
           bind_ok (at_stage FsRecordLookup (find_record env client zid (record_type_str (record_type r)) (name r)))
             (\<lambda>rechecked. ret (Inr (case rechecked of
                  Some e \<Rightarrow> plan_existing_record r address zid e
                | None \<Rightarrow> PlanCreate zid (payload_for r address))))))"

definition execute_record_plan :: "'w env \<Rightarrow> cloudflare_client \<Rightarrow> record_plan
    \<Rightarrow> ('w, (record_outcome, failure_stage \<times> cloudflare_error) result) io" where
  "execute_record_plan env client plan =
     (case plan of
        PlanUnchanged \<Rightarrow> ret (Inr Unchanged)
      | PlanUpdate zid rid payload \<Rightarrow>
          bind_ok (at_stage FsUpdate (guarded (update_record env client zid rid payload))) (\<lambda>_. ret (Inr Updated))
      | PlanCreate zid payload \<Rightarrow>
          bind_ok (at_stage FsCreation (guarded (create_record env client zid payload))) (\<lambda>_. ret (Inr Created)))"

section \<open>The cycle\<close>

definition tally :: "record_outcome \<Rightarrow> cycle_report \<Rightarrow> cycle_report" where
  "tally outcome report =
     (case outcome of
        Unchanged \<Rightarrow> report\<lparr>cr_unchanged := cr_unchanged report + 1\<rparr>
      | Updated \<Rightarrow> report\<lparr>cr_updated := cr_updated report + 1\<rparr>
      | Created \<Rightarrow> report\<lparr>cr_created := cr_created report + 1\<rparr>)"

text \<open>One record: \<open>None\<close> is the \<open>break\<close> on the deadline.\<close>

definition sync_record :: "'w env \<Rightarrow> cloudflare_client \<Rightarrow> instant \<Rightarrow> record_config \<Rightarrow> ip_addr
    \<Rightarrow> ('w, (record_outcome, failure_stage \<times> cloudflare_error) result option) io" where
  "sync_record env client deadline r address =
     bind_io (timeout_at deadline (plan_record env client r address)) (\<lambda>planned.
       case planned of
         None \<Rightarrow> ret None
       | Some (Inl e) \<Rightarrow> ret (Some (Inl e))
       | Some (Inr plan) \<Rightarrow>
           bind_io get_sys (\<lambda>s.
             if now env s \<ge> deadline then ret None
             else bind_io (execute_record_plan env client plan) (\<lambda>outcome. ret (Some outcome))))"

fun cycle_records :: "'w env \<Rightarrow> cloudflare_client \<Rightarrow> instant \<Rightarrow> discovered_addresses \<Rightarrow> record_config list
    \<Rightarrow> cycle_report \<Rightarrow> ('w, cycle_report) io" where
  "cycle_records env client deadline addresses [] report = ret report"
| "cycle_records env client deadline addresses (r # rs) report =
     bind_io get_sys (\<lambda>s.
       if stop_requested (control s) then ret (report\<lparr>cr_interrupted := True\<rparr>)
       else
         (case address_for_record addresses r of
            Inl _ \<Rightarrow> cycle_records env client deadline addresses rs report
          | Inr address \<Rightarrow>
              bind_io (sync_record env client deadline r address) (\<lambda>outcome.
                case outcome of
                  None \<Rightarrow> ret (push_failure cycle_deadline_failure report)
                | Some (Inr o') \<Rightarrow> cycle_records env client deadline addresses rs (tally o' report)
                | Some (Inl (stage, e)) \<Rightarrow>
                    let report' = push_failure (cloudflare_failure (name r) stage e) report in
                    if is_authentication_failure e \<or> is_rate_limited e then ret report'
                    else cycle_records env client deadline addresses rs report')))"

text \<open>\<open>AtomicUsize::fetch_add\<close> on the cursor wraps around.\<close>

definition next_start :: "nat \<Rightarrow> ('w, nat) io" where
  "next_start record_count =
     (if record_count = 0 then ret 0
      else bind_io get_sys (\<lambda>s.
        bind_io (modify_sys (\<lambda>s. s\<lparr>record_cursor := record_cursor s + 1\<rparr>)) (\<lambda>_.
          ret (unat (record_cursor s) mod record_count))))"

definition run_cycle_until :: "'w env \<Rightarrow> updater \<Rightarrow> instant \<Rightarrow> ('w, cycle_report) io" where
  "run_cycle_until env up deadline =
     (let rs = records (up_config up); report = empty_report (length rs) in
      bind_io (timeout_at deadline (discover_required_addresses env up)) (\<lambda>found.
        case found of
          None \<Rightarrow> ret (push_failure cycle_deadline_failure report)
        | Some addresses \<Rightarrow>
            bind_io (next_start (length rs)) (\<lambda>start.
              cycle_records env (up_cloudflare up) deadline addresses (rotated_from start rs)
                (report\<lparr>cr_failures := discovery_failures addresses\<rparr>))))"

definition run_cycle_locked :: "'w env \<Rightarrow> updater \<Rightarrow> ('w, cycle_report) io" where
  "run_cycle_locked env up =
     bind_io get_sys (\<lambda>s. run_cycle_until env up (now env s + interval (up_config up)))"

text \<open>\<open>CycleControl::default\<close>\<close>

definition fresh_control :: "('w, unit) io" where
  "fresh_control = modify_sys (\<lambda>s. s\<lparr>control := \<lparr>stop_requested = False, mutation_in_flight = False\<rparr>\<rparr>)"

text \<open>
  \<open>Updater::run_cycle\<close>, given what acquiring the runtime lock returned; the guard lives until
  the cycle is over.
\<close>

definition run_cycle :: "'w env \<Rightarrow> (string list option, runtime_lock_error) result \<Rightarrow> updater
    \<Rightarrow> ('w, cycle_report) io" where
  "run_cycle env lock up =
     (case lock of
        Inl e \<Rightarrow> ret (push_failure (coordination_failure e) (empty_report (length (records (up_config up)))))
      | Inr _ \<Rightarrow> bind_io fresh_control (\<lambda>_. run_cycle_locked env up))"

text \<open>
  Outside a mutation, a computation that is not dropped leaves control block and signal alone,
  and one that is dropped has seen the signal.
\<close>

definition calm :: "'w frame_rel" where
  "calm b s s' \<longleftrightarrow> (\<not> mutation_in_flight (control s) \<longrightarrow>
     (if b then stop_requested (control s') \<and> shutdown s' \<noteq> None \<and> \<not> mutation_in_flight (control s')
      else control s' = control s \<and> listening s' = listening s \<and> shutdown s' = shutdown s))"

interpretation calm_frame: read_frame env calm for env :: "'w env"
proof
  fix s s' :: "'w sys" and u q x
  assume "await env (get_request u q) s = (x, s')"
  then show "calm (dropped x) s s'"
    by (cases rule: await_outcome) (auto simp: calm_def note_signal_def dropped_def split: fut.splits)
next
  fix s s1 s2 :: "'w sys" and b1 b2
  assume "calm b1 s s1" "calm b2 s s2"
  then show "calm (b1 \<or> b2) s (merge_sys env s s1 s2)"
    by (auto simp: calm_def merge_sys_def split: if_splits)
qed (auto simp: calm_def split: if_splits)

section \<open>Frames of planning and discovery\<close>

context read_frame
begin

lemma frame_at_stage: "frame R m \<Longrightarrow> frame R (at_stage stage m)"
  unfolding at_stage_def by (intro frame_intros)

lemma frame_plan_record: "frame R (plan_record env client r address)"
  unfolding plan_record_def
  by (auto intro!: frame_bind_ok frame_ret frame_at_stage frame_resolve_zone_id frame_find_record split: option.split)

lemma frame_discover_lane: "frame R (discover_lane env client needed family ps)"
  unfolding discover_lane_def by (intro frame_intros frame_discover)

lemma frame_discover_required: "frame R (discover_required_addresses env up)"
  unfolding discover_required_addresses_def Let_def
  by (auto intro!: frame_bind_io frame_join2 frame_discover_lane frame_ret)

end

section \<open>Discovered addresses\<close>

lemma discover_sound:
  "discover env client family ps s = (Done (Inr a), s') \<Longrightarrow> family_matches family a \<and> is_public_address a"
  by (auto simp: discover_def async_simps split: if_splits dest: discover_from_sound)

definition lane_ok :: "bool \<Rightarrow> address_family \<Rightarrow> (ip_addr, string) result option \<Rightarrow> bool" where
  "lane_ok needed family found \<longleftrightarrow> (needed \<longleftrightarrow> found \<noteq> None) \<and>
     (\<forall>a. found = Some (Inr a) \<longrightarrow> family_matches family a \<and> is_public_address a)"

lemma discover_lane_ok:
  "discover_lane env client needed family ps s = (Done found, s') \<Longrightarrow> lane_ok needed family found"
  by (auto simp: discover_lane_def lane_ok_def ret_def bind_io_Done_iff split: if_splits dest: discover_sound)

lemma join2_Done:
  "join2 env m1 m2 s = (Done (a, b), s') \<Longrightarrow> \<exists>s1 s2. m1 s = (Done a, s1) \<and> m2 s = (Done b, s2)"
  by (auto simp: join2_def split: prod.splits fut.splits if_splits)

text \<open>What a finished discovery guarantees for the configured records.\<close>

definition addresses_ok :: "updater \<Rightarrow> discovered_addresses \<Rightarrow> bool" where
  "addresses_ok up addresses \<longleftrightarrow>
     lane_ok (list_ex (\<lambda>r. record_type r = A) (records (up_config up))) Ipv4 (da_ipv4 addresses) \<and>
     lane_ok (list_ex (\<lambda>r. record_type r = Aaaa) (records (up_config up))) Ipv6 (da_ipv6 addresses)"

lemma discover_required_ok:
  assumes "discover_required_addresses env up s = (Done addresses, s')"
  shows "addresses_ok up addresses"
proof -
  obtain v4 v6 t where j: "join2 env
      (discover_lane env (up_public_ip up) (list_ex (\<lambda>r. record_type r = A) (records (up_config up))) Ipv4
        (providers (ipv4 (up_config up))))
      (discover_lane env (up_public_ip up) (list_ex (\<lambda>r. record_type r = Aaaa) (records (up_config up))) Ipv6
        (providers (ipv6 (up_config up)))) s = (Done (v4, v6), t)" "addresses = \<lparr>da_ipv4 = v4, da_ipv6 = v6\<rparr>"
    using assms by (auto simp: discover_required_addresses_def Let_def bind_io_Done_iff ret_def)
  then show ?thesis
    using discover_lane_ok by (auto simp: addresses_ok_def dest!: join2_Done)
qed

lemma address_for_record_public:
  assumes "addresses_ok up addresses" and "address_for_record addresses r = Inr a"
  shows "family_matches (record_family (record_type r)) a \<and> is_public_address a"
  using assms
  by (cases "record_type r")
     (auto simp: addresses_ok_def address_for_record_def lane_ok_def split: option.splits sum.splits)

lemma address_for_record_missing:
  assumes "addresses_ok up addresses" and "r \<in> set (records (up_config up))"
    and "address_for_record addresses r = Inl m"
  shows "discovery_failures addresses \<noteq> []"
  using assms
  by (cases "record_type r")
     (auto simp: addresses_ok_def address_for_record_def lane_ok_def discovery_failures_def list_ex_iff
       split: option.splits sum.splits)

section \<open>Plans\<close>

definition plan_for :: "record_config \<Rightarrow> ip_addr \<Rightarrow> record_plan \<Rightarrow> bool" where
  "plan_for r address plan \<longleftrightarrow>
     (case plan of
        PlanUnchanged \<Rightarrow> True
      | PlanUpdate zid rid payload \<Rightarrow> payload = payload_for r address
      | PlanCreate zid payload \<Rightarrow> payload = payload_for r address \<and> create_if_missing r)"

lemma plan_existing_for: "plan_for r address (plan_existing_record r address zid e)"
  by (simp add: plan_for_def plan_existing_record_def)

lemma plan_record_for:
  assumes "plan_record env client r address s = (Done (Inr plan), s')"
  shows "plan_for r address plan"
proof -
  let ?find = "\<lambda>zid. at_stage FsRecordLookup (find_record env client zid (record_type_str (record_type r)) (name r))"
  obtain zid existing t where t: "(case existing of
       Some e \<Rightarrow> ret (Inr (plan_existing_record r address zid e))
     | None \<Rightarrow>
         if \<not> create_if_missing r then
           ret (Inl (FsRecordLookup, RecordNotFound (record_type_str (record_type r)) (name r)))
         else
           bind_ok (?find zid)
             (\<lambda>rechecked. ret (Inr (case rechecked of
                  Some e \<Rightarrow> plan_existing_record r address zid e
                | None \<Rightarrow> PlanCreate zid (payload_for r address))))) t = (Done (Inr plan), s')"
    using assms unfolding plan_record_def bind_ok_Done_iff by blast
  show ?thesis
  proof (cases existing)
    case (Some e)
    then show ?thesis using t plan_existing_for by (auto simp: ret_def)
  next
    case None
    then obtain rechecked where "create_if_missing r" "plan = (case rechecked of
        Some e \<Rightarrow> plan_existing_record r address zid e | None \<Rightarrow> PlanCreate zid (payload_for r address))"
      using t by (auto simp: ret_def bind_ok_Done_iff split: if_splits)
    then show ?thesis
      using plan_existing_for by (cases rechecked) (auto simp: plan_for_def)
  qed
qed

fun plan_request :: "cloudflare_client \<Rightarrow> record_plan \<Rightarrow> http_request option" where
  "plan_request client PlanUnchanged = None"
| "plan_request client (PlanUpdate zid rid payload) = Some (update_request client zid rid payload)"
| "plan_request client (PlanCreate zid payload) = Some (create_request client zid payload)"

lemma plan_request_mutation: "plan_request client plan = Some r \<Longrightarrow> is_mutation r"
  by (cases plan) (auto simp: update_request_def create_request_def)

text \<open>Executing a plan: nothing, or exactly one mutation, which is always replied to.\<close>

lemma guarded_send_record:
  assumes "timers s = []" and "guarded (send_record env client r op zid) s = (x, s')"
  shows "\<exists>res. x = Done res" and "timers s' = []" and "\<not> mutation_in_flight (control s')"
    and "record_cursor s' = record_cursor s"
    and "\<exists>e. trace s' = e # trace s \<and> le_request e = r \<and> le_start e = now env s \<and> le_fate e = Replied"
proof -
  let ?s = "set_in_flight True s"
  obtain t where t: "send_record env client r op zid ?s = (x, t)" "s' = set_in_flight False t"
    using assms(2) by (auto simp: guarded_def split: prod.splits)
  show "\<exists>res. x = Done res"
    using send_record_in_flight [of ?s env client r op zid] assms(1) t(1) by auto
  obtain y w where w: "await env r ?s = (y, w)" "t = w \<or> t = w\<lparr>zone_cache := evict_zone zid (zone_cache w)\<rparr>"
    using t(1) by (rule send_record_steps)
  note f = await_frame [OF w(1)]
  have "\<exists>res. y = Done res"
    using await_in_flight_Done [OF _ _ w(1)] assms(1) by simp
  then show "\<exists>e. trace s' = e # trace s \<and> le_request e = r \<and> le_start e = now env s \<and> le_fate e = Replied"
    using f(5) w(2) t(2) by (auto simp: now_def)
  show "timers s' = []" "\<not> mutation_in_flight (control s')" "record_cursor s' = record_cursor s"
    using f w(2) t(2) assms(1) by auto
qed

lemma execute_record_plan_steps:
  assumes "timers s = []" and "execute_record_plan env client plan s = (x, s')"
  shows "\<exists>res. x = Done res" and "timers s' = []"
    and "plan_request client plan = None \<Longrightarrow> s' = s \<and> x = Done (Inr Unchanged)"
    and "plan_request client plan = Some r \<Longrightarrow> \<not> mutation_in_flight (control s') \<and>
      (\<exists>e. trace s' = e # trace s \<and> le_request e = r \<and> le_start e = now env s \<and> le_fate e = Replied)"
proof -
  have run: "\<exists>y. guarded (send_record env client r op zid) s = (Done y, s')" "\<exists>res. x = Done res"
    if "bind_ok (at_stage st (guarded (send_record env client r op zid))) (\<lambda>_. ret (Inr out)) s = (x, s')" for r op zid st out
    using that guarded_send_record(1) [OF assms(1), of env client r op zid]
    by (auto simp: bind_ok_def at_stage_def bind_io_def ret_def split: prod.splits fut.splits sum.splits)
  note g = guarded_send_record [OF assms(1)]
  show "\<exists>res. x = Done res"
    using assms(2) run(2)
    by (cases plan) (auto simp: execute_record_plan_def ret_def update_record_def create_record_def)
  show "timers s' = []"
    using assms run(1) g(2)
    by (cases plan) (fastforce simp: execute_record_plan_def ret_def update_record_def create_record_def)+
  show "plan_request client plan = None \<Longrightarrow> s' = s \<and> x = Done (Inr Unchanged)"
    using assms(2) by (cases plan) (auto simp: execute_record_plan_def ret_def)
  show "plan_request client plan = Some r \<Longrightarrow> \<not> mutation_in_flight (control s') \<and>
      (\<exists>e. trace s' = e # trace s \<and> le_request e = r \<and> le_start e = now env s \<and> le_fate e = Replied)"
    using assms(2) run(1) g(3,5)
    by (cases plan) (fastforce simp: execute_record_plan_def update_record_def create_record_def)+
qed


section \<open>One record\<close>

lemma plan_timeout_frames:
  assumes "timeout_at deadline (plan_record env client r address) s = (x, t)"
  shows "timers t = timers s" and "reads_only s t" and "calm (dropped x) s t" and "same_cursor s t"
    and "clock_forward env s t"
  using frameD [OF timers_frame.frame_timeout_at [OF timers_frame.frame_plan_record] assms]
    frameD [OF reads_frame.frame_timeout_at [OF reads_frame.frame_plan_record] assms]
    frameD [OF calm_frame.frame_timeout_at [OF calm_frame.frame_plan_record] assms]
    frameD [OF cursor_frame.frame_timeout_at [OF cursor_frame.frame_plan_record] assms]
    frameD [OF clock_frame.frame_timeout_at [OF clock_frame.frame_plan_record] assms]
  by (simp_all add: same_timers_def)

lemma sync_record_cases:
  assumes "timers s = []" and "sync_record env client deadline r address s = (x, s')"
  obtains (planned) y where "timeout_at deadline (plan_record env client r address) s = (y, s')"
      "dropped x = dropped y" "\<nexists>o'. x = Done (Some (Inr o'))" "x = Done None \<or> (\<exists>e. x = Done (Some (Inl e))) \<or> (\<nexists>z. x = Done z)"
    | (executed) plan t out where "timeout_at deadline (plan_record env client r address) s = (Done (Some (Inr plan)), t)"
      "now env t < deadline" "plan_for r address plan" "timers t = []"
      "execute_record_plan env client plan t = (Done out, s')" "x = Done (Some out)"
proof -
  obtain y t where y: "timeout_at deadline (plan_record env client r address) s = (y, t)"
    by (cases "timeout_at deadline (plan_record env client r address) s")
  have t: "timers t = []"
    using plan_timeout_frames(1) [OF y] assms(1) by simp
  show ?thesis
  proof (cases "\<exists>plan. y = Done (Some (Inr plan)) \<and> now env t < deadline")
    case True
    then obtain plan where plan: "y = Done (Some (Inr plan))" "now env t < deadline" by blast
    obtain w where w: "plan_record env client r address (s\<lparr>timers := deadline # timers s\<rparr>) = (Done (Inr plan), w)"
      using y plan(1) by (auto elim: timeout_at_Done)
    obtain out where "execute_record_plan env client plan t = (Done out, s')" "x = Done (Some out)"
      using assms(2) y plan execute_record_plan_steps(1) [OF t, of env client plan]
      by (cases "execute_record_plan env client plan t")
         (auto simp: sync_record_def bind_io_def get_sys_def ret_def)
    then show ?thesis
      using executed y plan plan_record_for [OF w] t by blast
  next
    case False
    have "s' = t \<and> dropped x = dropped y \<and> (\<nexists>o'. x = Done (Some (Inr o'))) \<and>
        (x = Done None \<or> (\<exists>e. x = Done (Some (Inl e))) \<or> (\<nexists>z. x = Done z))"
      using assms(2) y False
      by (auto simp: sync_record_def bind_io_def get_sys_def ret_def
          split: fut.splits option.splits sum.splits if_splits)
    then show ?thesis using planned y by blast
  qed
qed

text \<open>
  What every mutation in the trace of a cycle is like: it was replied to, it started before the
  deadline, and it writes the desired state of a configured record.
\<close>

definition sync_ok :: "cloudflare_client \<Rightarrow> instant \<Rightarrow> discovered_addresses \<Rightarrow> record_config list \<Rightarrow> log_entry \<Rightarrow> bool" where
  "sync_ok client deadline addresses rs e \<longleftrightarrow>
     (is_mutation (le_request e) \<longrightarrow> le_fate e = Replied \<and> le_start e < deadline \<and>
       (\<exists>r \<in> set rs. \<exists>a. address_for_record addresses r = Inr a \<and>
          ((\<exists>zid rid. le_request e = update_request client zid rid (payload_for r a)) \<or>
           (create_if_missing r \<and> (\<exists>zid. le_request e = create_request client zid (payload_for r a))))))"

lemma plan_request_form:
  assumes "plan_for r a plan" and "plan_request client plan = Some q"
  shows "(\<exists>zid rid. q = update_request client zid rid (payload_for r a)) \<or>
    (create_if_missing r \<and> (\<exists>zid. q = create_request client zid (payload_for r a)))"
  using assms by (cases plan) (auto simp: plan_for_def)

definition mutation_count :: "'w sys \<Rightarrow> nat" where
  "mutation_count s = length (filter (\<lambda>e. is_mutation (le_request e)) (trace s))"

lemma reads_only_count: "reads_only s s' \<Longrightarrow> mutation_count s' = mutation_count s"
  by (auto simp: reads_only_def adds_def mutation_count_def filter_empty_conv)

lemma reads_only_sync_ok: "reads_only s s' \<Longrightarrow> adds (sync_ok client deadline addresses rs) s s'"
  by (auto simp: reads_only_def adds_def sync_ok_def)

lemma sync_record_trace:
  assumes "timers s = []" and "sync_record env client deadline r address s = (x, s')"
    and "address_for_record addresses r = Inr address" and "r \<in> set rs"
  shows "timers s' = []" and "adds (sync_ok client deadline addresses rs) s s'"
    and "mutation_count s' \<le> Suc (mutation_count s)"
proof -
  have "timers s' = [] \<and> adds (sync_ok client deadline addresses rs) s s' \<and> mutation_count s' \<le> Suc (mutation_count s)"
    using assms(1,2)
  proof (cases rule: sync_record_cases)
    case (planned y)
    note f = plan_timeout_frames [OF planned(1)]
    then show ?thesis
      using assms(1) reads_only_sync_ok [OF f(2)] reads_only_count [OF f(2)] by simp
  next
    case (executed plan t out)
    note f = plan_timeout_frames [OF executed(1)]
    note ex = execute_record_plan_steps [OF executed(4,5)]
    show ?thesis
    proof (cases "plan_request client plan")
      case None
      then show ?thesis
        using ex(3) executed(4) reads_only_sync_ok [OF f(2)] reads_only_count [OF f(2)] by simp
    next
      case (Some q)
      then obtain e where e: "trace s' = e # trace t" "le_request e = q" "le_start e = now env t" "le_fate e = Replied"
        using ex(4) by blast
      have "sync_ok client deadline addresses rs e"
        unfolding sync_ok_def
        using e executed(2) plan_request_form [OF executed(3) Some] assms(3,4) by metis
      then have "adds (sync_ok client deadline addresses rs) t s'"
        using e(1) by (intro addsI [of _ "[e]"]) auto
      then show ?thesis
        using adds_trans [OF reads_only_sync_ok [OF f(2)]] ex(2) reads_only_count [OF f(2)] e(1)
        by (auto simp: mutation_count_def)
    qed
  qed
  then show "timers s' = []" "adds (sync_ok client deadline addresses rs) s s'"
    "mutation_count s' \<le> Suc (mutation_count s)"
    by simp_all
qed

section \<open>All records\<close>

declare cycle_records.simps(2) [simp del]

lemma cycle_records_step:
  "cycle_records env client deadline addresses (r # rs) report s =
     (if stop_requested (control s) then (Done (report\<lparr>cr_interrupted := True\<rparr>), s)
      else (case address_for_record addresses r of
          Inl m \<Rightarrow> cycle_records env client deadline addresses rs report s
        | Inr a \<Rightarrow>
            (case sync_record env client deadline r a s of
               (Done None, t) \<Rightarrow> (Done (push_failure cycle_deadline_failure report), t)
             | (Done (Some (Inr out)), t) \<Rightarrow> cycle_records env client deadline addresses rs (tally out report) t
             | (Done (Some (Inl (stage, e))), t) \<Rightarrow>
                 (if is_authentication_failure e \<or> is_rate_limited e
                  then (Done (push_failure (cloudflare_failure (name r) stage e) report), t)
                  else cycle_records env client deadline addresses rs
                    (push_failure (cloudflare_failure (name r) stage e) report) t)
             | (Expired n, t) \<Rightarrow> (Expired n, t)
             | (Dropped, t) \<Rightarrow> (Dropped, t))))"
  unfolding cycle_records.simps(2) get_sys_apply
  by (simp add: bind_io_def ret_def Let_def split: sum.split prod.split fut.split option.split)

lemma cycle_records_Cons:
  assumes "cycle_records env client deadline addresses (r # rs) report s = (x, s')"
  obtains (stopped) "stop_requested (control s)" "x = Done (report\<lparr>cr_interrupted := True\<rparr>)" "s' = s"
    | (skipped) m where "\<not> stop_requested (control s)" "address_for_record addresses r = Inl m"
      "cycle_records env client deadline addresses rs report s = (x, s')"
    | (late) a where "\<not> stop_requested (control s)" "address_for_record addresses r = Inr a"
      "sync_record env client deadline r a s = (Done None, s')" "x = Done (push_failure cycle_deadline_failure report)"
    | (handled) a out t where "\<not> stop_requested (control s)" "address_for_record addresses r = Inr a"
      "sync_record env client deadline r a s = (Done (Some (Inr out)), t)"
      "cycle_records env client deadline addresses rs (tally out report) t = (x, s')"
    | (abort) a stage e where "\<not> stop_requested (control s)" "address_for_record addresses r = Inr a"
      "sync_record env client deadline r a s = (Done (Some (Inl (stage, e))), s')"
      "is_authentication_failure e \<or> is_rate_limited e"
      "x = Done (push_failure (cloudflare_failure (name r) stage e) report)"
    | (failed) a stage e t where "\<not> stop_requested (control s)" "address_for_record addresses r = Inr a"
      "sync_record env client deadline r a s = (Done (Some (Inl (stage, e))), t)"
      "\<not> is_authentication_failure e" "\<not> is_rate_limited e"
      "cycle_records env client deadline addresses rs (push_failure (cloudflare_failure (name r) stage e) report) t = (x, s')"
    | (cut) a y where "\<not> stop_requested (control s)" "address_for_record addresses r = Inr a"
      "sync_record env client deadline r a s = (y, s')" "\<nexists>z. y = Done z" "\<nexists>z. x = Done z" "dropped x = dropped y"
proof (cases "stop_requested (control s) \<or> (\<exists>m. address_for_record addresses r = Inl m)")
  case True
  then show ?thesis using assms stopped skipped unfolding cycle_records_step by (auto split: if_splits)
next
  case False
  then obtain a where a: "\<not> stop_requested (control s)" "address_for_record addresses r = Inr a"
    by (metis sum.exhaust)
  obtain y t where y: "sync_record env client deadline r a s = (y, t)"
    by (cases "sync_record env client deadline r a s")
  note step = assms [unfolded cycle_records_step]
  consider "y = Done None" | out where "y = Done (Some (Inr out))" | stage e where "y = Done (Some (Inl (stage, e)))"
    | n where "y = Expired n" | "y = Dropped"
    by (metis fut.exhaust option.exhaust sum.exhaust prod.exhaust)
  then show ?thesis
  proof cases
    case 1
    then show ?thesis using late [OF a] step a y by simp
  next
    case (2 out)
    then show ?thesis using handled [OF a] step a y by simp
  next
    case (3 stage e)
    then show ?thesis using abort [OF a] failed [OF a] step a y by (auto split: if_splits)
  qed (use cut [OF a] step a y in auto)
qed

lemma cycle_records_trace:
  "cycle_records env client deadline addresses rs report s = (x, s') \<Longrightarrow> timers s = [] \<Longrightarrow> set rs \<subseteq> set all \<Longrightarrow>
     timers s' = [] \<and> adds (sync_ok client deadline addresses all) s s' \<and>
     mutation_count s' \<le> mutation_count s + length rs"
proof (induction rs arbitrary: report s)
  case Nil
  then show ?case by (auto simp: ret_def intro: adds_same)
next
  case (Cons r rs)
  have r: "r \<in> set all" and rest: "set rs \<subseteq> set all"
    using Cons.prems(3) by auto
  have step: "timers s' = [] \<and> adds (sync_ok client deadline addresses all) s s' \<and>
      mutation_count s' \<le> mutation_count s + length (r # rs)"
    if "address_for_record addresses r = Inr a" "sync_record env client deadline r a s = (y, t)"
      "cycle_records env client deadline addresses rs report' t = (x, s')" for a y t report'
    using sync_record_trace [OF Cons.prems(2) that(2,1) r] Cons.IH [OF that(3) _ rest] adds_trans by fastforce
  have last_step: "timers s' = [] \<and> adds (sync_ok client deadline addresses all) s s' \<and>
      mutation_count s' \<le> mutation_count s + length (r # rs)"
    if "address_for_record addresses r = Inr a" "sync_record env client deadline r a s = (y, s')" for a y
    using sync_record_trace [OF Cons.prems(2) that(2,1) r] by simp
  from Cons.prems(1) show ?case
  proof (cases rule: cycle_records_Cons)
    case stopped
    then show ?thesis using Cons.prems(2) by (auto intro: adds_same)
  next
    case (skipped m)
    then show ?thesis using Cons.IH [OF skipped(3) Cons.prems(2) rest] by simp
  next
    case (late a)
    then show ?thesis using last_step by blast
  next
    case (handled a out t)
    then show ?thesis using step by blast
  next
    case (abort a stage e)
    then show ?thesis using last_step by blast
  next
    case (failed a stage e t)
    then show ?thesis using step by blast
  next
    case (cut a y)
    then show ?thesis using last_step by blast
  qed
qed

section \<open>The whole cycle\<close>

lemma discovery_timeout_frames:
  assumes "timeout_at deadline (discover_required_addresses env up) s = (x, t)"
  shows "timers t = timers s" and "reads_only s t" and "calm (dropped x) s t" and "same_cursor s t"
    and "clock_forward env s t"
  using frameD [OF timers_frame.frame_timeout_at [OF timers_frame.frame_discover_required] assms]
    frameD [OF reads_frame.frame_timeout_at [OF reads_frame.frame_discover_required] assms]
    frameD [OF calm_frame.frame_timeout_at [OF calm_frame.frame_discover_required] assms]
    frameD [OF cursor_frame.frame_timeout_at [OF cursor_frame.frame_discover_required] assms]
    frameD [OF clock_frame.frame_timeout_at [OF clock_frame.frame_discover_required] assms]
  by (simp_all add: same_timers_def)

definition start_index :: "nat \<Rightarrow> 'w sys \<Rightarrow> nat" where
  "start_index n s = (if n = 0 then 0 else unat (record_cursor s) mod n)"

definition move_cursor :: "nat \<Rightarrow> 'w sys \<Rightarrow> 'w sys" where
  "move_cursor n s = (if n = 0 then s else s\<lparr>record_cursor := record_cursor s + 1\<rparr>)"

lemma next_start_step: "next_start n s = (Done (start_index n s), move_cursor n s)"
  by (simp add: next_start_def start_index_def move_cursor_def async_simps)

lemma move_cursor_simps [simp]:
  "timers (move_cursor n s) = timers s" "trace (move_cursor n s) = trace s" "world (move_cursor n s) = world s"
  "control (move_cursor n s) = control s" "listening (move_cursor n s) = listening s"
  "shutdown (move_cursor n s) = shutdown s"
  by (simp_all add: move_cursor_def)

abbreviation started_report :: "updater \<Rightarrow> discovered_addresses \<Rightarrow> cycle_report" where
  "started_report up addresses \<equiv>
     (empty_report (length (records (up_config up))))\<lparr>cr_failures := discovery_failures addresses\<rparr>"

lemma run_cycle_until_cases:
  assumes "run_cycle_until env up deadline s = (x, s')"
  obtains (late) "timeout_at deadline (discover_required_addresses env up) s = (Done None, s')"
      "x = Done (push_failure cycle_deadline_failure (empty_report (length (records (up_config up)))))"
    | (cut) y where "timeout_at deadline (discover_required_addresses env up) s = (y, s')"
      "\<nexists>z. y = Done z" "\<nexists>z. x = Done z" "dropped x = dropped y"
    | (run) addresses t n where
      "timeout_at deadline (discover_required_addresses env up) s = (Done (Some addresses), t)"
      "addresses_ok up addresses" "n = length (records (up_config up))"
      "cycle_records env (up_cloudflare up) deadline addresses
         (rotated_from (start_index n t) (records (up_config up))) (started_report up addresses) (move_cursor n t) = (x, s')"
proof -
  let ?m = "timeout_at deadline (discover_required_addresses env up)"
  obtain y t where y: "?m s = (y, t)" by (cases "?m s")
  note u = assms [unfolded run_cycle_until_def Let_def]
  consider "y = Done None" | addresses where "y = Done (Some addresses)" | n where "y = Expired n" | "y = Dropped"
    by (metis fut.exhaust option.exhaust)
  then show ?thesis
  proof cases
    case 1
    then show ?thesis using late u y by (simp add: bind_io_def ret_def)
  next
    case (2 addresses)
    obtain w where "discover_required_addresses env up (s\<lparr>timers := deadline # timers s\<rparr>) = (Done addresses, w)"
      using y 2 by (auto elim: timeout_at_Done)
    then show ?thesis
      using run [OF _ discover_required_ok refl, of addresses t] u y 2 by (simp add: bind_io_def next_start_step)
  qed (use cut u y in \<open>auto simp: bind_io_def\<close>)
qed

text \<open>A request that, if it can change DNS, writes a configured record, in time, and was replied to.\<close>

definition managed_write :: "updater \<Rightarrow> instant \<Rightarrow> log_entry \<Rightarrow> bool" where
  "managed_write up deadline e \<longleftrightarrow> (is_mutation (le_request e) \<longrightarrow>
     le_fate e = Replied \<and> le_start e < deadline \<and>
     (\<exists>r \<in> set (records (up_config up)). \<exists>a.
        is_public_address a \<and> family_matches (record_family (record_type r)) a \<and>
        ((\<exists>zid rid. le_request e = update_request (up_cloudflare up) zid rid (payload_for r a)) \<or>
         (create_if_missing r \<and> (\<exists>zid. le_request e = create_request (up_cloudflare up) zid (payload_for r a))))))"

lemma sync_ok_managed:
  "addresses_ok up addresses \<Longrightarrow>
     sync_ok (up_cloudflare up) deadline addresses (records (up_config up)) e \<Longrightarrow> managed_write up deadline e"
  using address_for_record_public [of up addresses] unfolding sync_ok_def managed_write_def by meson

lemma reads_only_managed: "reads_only s s' \<Longrightarrow> adds (managed_write up deadline) s s'"
  by (auto simp: reads_only_def adds_def managed_write_def)

lemma run_cycle_until_writes:
  assumes "timers s = []" and "run_cycle_until env up deadline s = (x, s')"
  shows "adds (managed_write up deadline) s s' \<and>
    mutation_count s' \<le> mutation_count s + length (records (up_config up))"
  using assms(2)
proof (cases rule: run_cycle_until_cases)
  case late
  note f = discovery_timeout_frames(2) [OF late(1)]
  show ?thesis using reads_only_managed [OF f] reads_only_count [OF f] by simp
next
  case (cut y)
  note f = discovery_timeout_frames(2) [OF cut(1)]
  show ?thesis using reads_only_managed [OF f] reads_only_count [OF f] by simp
next
  case (run addresses t n)
  note f = discovery_timeout_frames [OF run(1)]
  have c: "adds (sync_ok (up_cloudflare up) deadline addresses (records (up_config up))) t s'"
    "mutation_count s' \<le> mutation_count t + length (records (up_config up))"
    using cycle_records_trace [OF run(4), of "records (up_config up)"] f(1) assms(1)
    by (auto simp: mutation_count_def adds_def)
  have "adds (managed_write up deadline) t s'"
    using c(1) sync_ok_managed [OF run(2)] by (auto simp: adds_def)
  then show ?thesis
    using adds_trans [OF reads_only_managed [OF f(2)]] c(2) reads_only_count [OF f(2)] by simp
qed

text \<open>
  C9: whatever happens during a cycle that is not itself under a timeout (replies, errors,
  deadlines, the shutdown signal), every request it sends that can change DNS is an update,
  or for a record with \<open>create_if_missing\<close> a creation, of a configured record with exactly its
  configured type, name, TTL and proxy flag and a public address of its family. It is started
  strictly before the deadline and is always awaited until its reply, never timed out or
  abandoned. At most one such request is sent per configured record.
\<close>

theorem cycle_writes_safe:
  assumes "timers s = []"
  shows "\<exists>new. trace (snd (run_cycle_until env up deadline s)) = new @ trace s \<and>
    length (filter (\<lambda>e. is_mutation (le_request e)) new) \<le> length (records (up_config up)) \<and>
    (\<forall>e \<in> set new. is_mutation (le_request e) \<longrightarrow>
       le_fate e = Replied \<and> le_start e < deadline \<and>
       (\<exists>r \<in> set (records (up_config up)). \<exists>a.
          is_public_address a \<and> family_matches (record_family (record_type r)) a \<and>
          ((\<exists>zid rid. le_request e = update_request (up_cloudflare up) zid rid (payload_for r a)) \<or>
           (create_if_missing r \<and> (\<exists>zid. le_request e = create_request (up_cloudflare up) zid (payload_for r a))))))"
proof -
  obtain x s' where r: "run_cycle_until env up deadline s = (x, s')"
    by (cases "run_cycle_until env up deadline s")
  obtain new where new: "trace s' = new @ trace s" "\<forall>e \<in> set new. managed_write up deadline e"
    using run_cycle_until_writes [OF assms r] by (auto elim: addsE)
  have "length (filter (\<lambda>e. is_mutation (le_request e)) new) \<le> length (records (up_config up))"
    using run_cycle_until_writes [OF assms r] new(1) by (simp add: mutation_count_def)
  then show ?thesis
    using r new unfolding managed_write_def by auto
qed

section \<open>Accounting\<close>

definition done_count :: "cycle_report \<Rightarrow> nat" where
  "done_count report = cr_unchanged report + cr_updated report + cr_created report"

definition write_count :: "cycle_report \<Rightarrow> nat" where
  "write_count report = cr_updated report + cr_created report"

lemma report_counts [simp]:
  "done_count (push_failure f report) = done_count report"
  "write_count (push_failure f report) = write_count report"
  "cr_failures (push_failure f report) = cr_failures report @ [f]"
  "cr_records (push_failure f report) = cr_records report"
  "cr_interrupted (push_failure f report) = cr_interrupted report"
  "done_count (report\<lparr>cr_interrupted := b\<rparr>) = done_count report"
  "write_count (report\<lparr>cr_interrupted := b\<rparr>) = write_count report"
  "done_count (tally out report) = Suc (done_count report)"
  "write_count (tally out report) = write_count report + (if out = Unchanged then 0 else 1)"
  "cr_failures (tally out report) = cr_failures report"
  "cr_records (tally out report) = cr_records report"
  "cr_interrupted (tally out report) = cr_interrupted report"
  by (cases out; simp add: done_count_def write_count_def push_failure_def tally_def)+

lemma execute_record_plan_outcome:
  assumes "execute_record_plan env client plan s = (Done (Inr out), s')"
  shows "out = Unchanged \<longleftrightarrow> plan_request client plan = None"
  using assms by (cases plan) (auto simp: execute_record_plan_def ret_def bind_ok_Done_iff)

lemma sync_record_count:
  assumes "timers s = []" and "sync_record env client deadline r address s = (x, s')"
  shows "mutation_count s \<le> mutation_count s'"
    and "x = Done (Some (Inr out)) \<Longrightarrow> mutation_count s' = mutation_count s + (if out = Unchanged then 0 else 1)"
proof -
  have "mutation_count s \<le> mutation_count s' \<and>
    (x = Done (Some (Inr out)) \<longrightarrow> mutation_count s' = mutation_count s + (if out = Unchanged then 0 else 1))"
    using assms
  proof (cases rule: sync_record_cases)
    case (planned y)
    then show ?thesis
      using reads_only_count [OF plan_timeout_frames(2) [OF planned(1)]] by auto
  next
    case (executed plan t res)
    note n = reads_only_count [OF plan_timeout_frames(2) [OF executed(1)]]
    note ex = execute_record_plan_steps [OF executed(4,5)]
    show ?thesis
    proof (cases "plan_request client plan")
      case None
      then show ?thesis using ex(3) n executed(6) by auto
    next
      case (Some q)
      then obtain e where e: "trace s' = e # trace t" "le_request e = q"
        using ex(4) by blast
      then have "mutation_count s' = Suc (mutation_count s)"
        using plan_request_mutation [OF Some] n by (simp add: mutation_count_def)
      then show ?thesis
        using execute_record_plan_outcome [of env client plan t out s'] Some executed(5,6) by auto
    qed
  qed
  then show "mutation_count s \<le> mutation_count s'"
    "x = Done (Some (Inr out)) \<Longrightarrow> mutation_count s' = mutation_count s + (if out = Unchanged then 0 else 1)"
    by blast+
qed

text \<open>
  What a pass over records \<open>rs\<close> does to the report: \<open>accounts n s report s' report'\<close> for
  \<open>n\<close> records.
\<close>

definition accounts :: "nat \<Rightarrow> 'w sys \<Rightarrow> cycle_report \<Rightarrow> 'w sys \<Rightarrow> cycle_report \<Rightarrow> bool" where
  "accounts n s report s' report' \<longleftrightarrow>
     cr_records report' = cr_records report \<and>
     done_count report' \<le> done_count report + n \<and>
     write_count report' + mutation_count s \<le> mutation_count s' + write_count report \<and>
     (\<exists>fs. cr_failures report' = cr_failures report @ fs \<and>
       (fs = [] \<longrightarrow> write_count report' + mutation_count s = mutation_count s' + write_count report))"

lemma accounts_trans:
  assumes "accounts n s report t report1" and "accounts m t report1 s' report2"
  shows "accounts (n + m) s report s' report2"
  using assms unfolding accounts_def by auto

lemma accounts_refl: "accounts n s report s report"
  by (simp add: accounts_def)

lemma accounts_interrupted: "accounts n s report s (report\<lparr>cr_interrupted := True\<rparr>)"
  by (simp add: accounts_def)

lemma accounts_tally:
  "mutation_count t = mutation_count s + (if out = Unchanged then 0 else 1) \<Longrightarrow>
     accounts 1 s report t (tally out report)"
  by (simp add: accounts_def)

lemma accounts_failure:
  "mutation_count s \<le> mutation_count t \<Longrightarrow> accounts n s report t (push_failure f report)"
  by (simp add: accounts_def)

lemma cycle_records_accounts:
  "cycle_records env client deadline addresses rs report s = (Done report', s') \<Longrightarrow> timers s = [] \<Longrightarrow>
     accounts (length rs) s report s' report'"
proof (induction rs arbitrary: report s)
  case Nil
  then show ?case by (auto simp: ret_def accounts_refl)
next
  case (Cons r rs)
  note count = sync_record_count [OF Cons.prems(2)]
  have timers: "timers t = []"
    if "address_for_record addresses r = Inr a" "sync_record env client deadline r a s = (y, t)" for a y t
    using sync_record_trace(1) [OF Cons.prems(2) that(2,1), of "[r]"] by simp
  from Cons.prems(1) show ?case
  proof (cases rule: cycle_records_Cons)
    case stopped
    then show ?thesis using accounts_interrupted by auto
  next
    case (skipped m)
    then show ?thesis
      using accounts_trans [OF accounts_refl [of 1] Cons.IH [OF skipped(3) Cons.prems(2)]] by simp
  next
    case (late a)
    then show ?thesis using accounts_failure [OF count(1) [OF late(3)]] by simp
  next
    case (handled a out t)
    then show ?thesis
      using accounts_trans [OF accounts_tally [OF count(2) [OF handled(3)]]
          Cons.IH [OF handled(4) timers [OF handled(2,3)]]] by simp
  next
    case (abort a stage e)
    then show ?thesis using accounts_failure [OF count(1) [OF abort(3)]] by simp
  next
    case (failed a stage e t)
    then show ?thesis
      using accounts_trans [OF accounts_failure [OF count(1) [OF failed(3)], of 1]
          Cons.IH [OF failed(6) timers [OF failed(2,3)]]] by simp
  qed auto
qed

definition aborts :: "cycle_failure \<Rightarrow> bool" where
  "aborts f \<longleftrightarrow> cf_kind f = FkAuthentication \<or> cf_kind f = FkRateLimited"

lemma cycle_records_failures:
  "cycle_records env client deadline addresses rs report s = (Done report', s') \<Longrightarrow>
     \<exists>fs. cr_failures report' = cr_failures report @ fs \<and> (\<forall>f \<in> set (butlast fs). \<not> aborts f)"
proof (induction rs arbitrary: report s)
  case Nil
  then show ?case by (auto simp: ret_def)
next
  case (Cons r rs)
  from Cons.prems(1) show ?case
  proof (cases rule: cycle_records_Cons)
    case (skipped m)
    then show ?thesis using Cons.IH by blast
  next
    case (handled a out t)
    then show ?thesis using Cons.IH [OF handled(4)] by auto
  next
    case (failed a stage e t)
    let ?f = "cloudflare_failure (name r) stage e"
    obtain fs where fs: "cr_failures report' = (cr_failures report @ [?f]) @ fs" "\<forall>f \<in> set (butlast fs). \<not> aborts f"
      using Cons.IH [OF failed(6)] by auto
    have "\<not> aborts ?f"
      using failed(4,5) by (simp add: aborts_def cloudflare_failure_def)
    then show ?thesis
      using fs by (intro exI [of _ "?f # fs"]) auto
  qed auto
qed

lemma cycle_records_complete:
  "cycle_records env client deadline addresses rs report s = (Done report', s') \<Longrightarrow>
     cycle_success report' \<Longrightarrow> (\<And>r m. r \<in> set rs \<Longrightarrow> address_for_record addresses r \<noteq> Inl m) \<Longrightarrow>
     done_count report' = done_count report + length rs"
proof (induction rs arbitrary: report s)
  case Nil
  then show ?case by (auto simp: ret_def)
next
  case (Cons r rs)
  from Cons.prems(1) show ?case
  proof (cases rule: cycle_records_Cons)
    case (handled a out t)
    then show ?thesis using Cons.IH [OF handled(4)] Cons.prems(2,3) by auto
  next
    case (failed a stage e t)
    then show ?thesis
      using cycle_records_failures [OF failed(6)] Cons.prems(2) by (auto simp: cycle_success_def)
  qed (use Cons.prems in \<open>auto simp: cycle_success_def\<close>)
qed

lemma cycle_complete:
  assumes "run_cycle_until env up deadline s = (Done report, s')" and "cycle_success report"
  shows "done_count report = length (records (up_config up))"
  using assms(1)
proof (cases rule: run_cycle_until_cases)
  case (run addresses t n)
  have "discovery_failures addresses = []"
    using cycle_records_failures [OF run(4)] assms(2) by (auto simp: cycle_success_def)
  then have "address_for_record addresses r \<noteq> Inl m" if "r \<in> set (records (up_config up))" for r m
    using address_for_record_missing [OF run(2) that] by blast
  then show ?thesis
    using cycle_records_complete [OF run(4) assms(2)] by (simp add: done_count_def empty_report_def)
qed (use assms(2) in \<open>auto simp: push_failure_def cycle_success_def\<close>)

text \<open>
  C15: the figures of a report add up. A cycle that returns reports the number of configured
  records; no more records than that are counted as unchanged, updated or created; every update
  or creation it counts was a request of its trace. A cycle without failure and interruption
  has handled every record, and has sent exactly as many changing requests as it reports.
\<close>

theorem cycle_accounting:
  assumes "timers s = []" and "run_cycle_until env up deadline s = (Done report, s')"
  shows "cr_records report = length (records (up_config up)) \<and>
    cr_unchanged report + cr_updated report + cr_created report \<le> cr_records report \<and>
    mutation_count s + cr_updated report + cr_created report \<le> mutation_count s' \<and>
    (cycle_success report \<longrightarrow>
       cr_unchanged report + cr_updated report + cr_created report = cr_records report \<and>
       mutation_count s' = mutation_count s + cr_updated report + cr_created report)"
  using assms(2)
proof (cases rule: run_cycle_until_cases)
  case late
  then show ?thesis
    using reads_only_count [OF discovery_timeout_frames(2) [OF late(1)]]
    by (auto simp: push_failure_def empty_report_def cycle_success_def)
next
  case (run addresses t n)
  note f = discovery_timeout_frames [OF run(1)]
  have start [simp]: "mutation_count (move_cursor n t) = mutation_count s" "timers (move_cursor n t) = []"
    using reads_only_count [OF f(2)] f(1) assms(1) by (simp_all add: mutation_count_def)
  have zero [simp]: "done_count (started_report up addresses) = 0" "write_count (started_report up addresses) = 0"
    "cr_records (started_report up addresses) = length (records (up_config up))"
    by (simp_all add: done_count_def write_count_def empty_report_def)
  note acc = cycle_records_accounts [OF run(4) start(2), unfolded accounts_def]
  show ?thesis
    using acc cycle_complete [OF assms(2)] by (auto simp: done_count_def write_count_def cycle_success_def empty_report_def)
qed auto

text \<open>
  C31: authentication failures and rate limits end the cycle at once: such a failure can only be
  the last one of a report, and the discovery failures come first.
\<close>

theorem abort_is_final:
  assumes "run_cycle_until env up deadline s = (Done report, s')"
  shows "\<forall>f \<in> set (butlast (cr_failures report)). cf_kind f \<noteq> FkAuthentication \<and> cf_kind f \<noteq> FkRateLimited"
  using assms
proof (cases rule: run_cycle_until_cases)
  case late
  then show ?thesis by (simp add: empty_report_def)
next
  case (run addresses t n)
  obtain fs where fs: "cr_failures report = discovery_failures addresses @ fs" "\<forall>f \<in> set (butlast fs). \<not> aborts f"
    using cycle_records_failures [OF run(4)] by auto
  have "\<forall>f \<in> set (discovery_failures addresses). \<not> aborts f"
    by (auto simp: discovery_failures_def discovery_failure_def aborts_def split: option.splits sum.splits)
  then have "\<forall>f \<in> set (butlast (cr_failures report)). \<not> aborts f"
    using fs by (cases "fs = []") (auto simp: butlast_append dest: in_set_butlastD)
  then show ?thesis by (auto simp: aborts_def)
qed auto

section \<open>Shutdown during a cycle\<close>

text \<open>
  The state of a cycle between two steps: no timeout, no mutation in flight, and either no stop
  was requested or the newest request is the mutation during which it was.
\<close>

definition orderly :: "'w sys \<Rightarrow> bool" where
  "orderly s \<longleftrightarrow> timers s = [] \<and> \<not> mutation_in_flight (control s) \<and>
     (stop_requested (control s) \<longrightarrow> trace s \<noteq> [] \<and> is_mutation (le_request (hd (trace s))) \<and> le_fate (hd (trace s)) = Replied)"

definition quiet_end :: "'a fut \<Rightarrow> 'w sys \<Rightarrow> bool" where
  "quiet_end x s \<longleftrightarrow> (if dropped x then stop_requested (control s) \<and> shutdown s \<noteq> None \<and>
     \<not> mutation_in_flight (control s) else orderly s)"

lemma calm_quiet:
  assumes "calm (dropped x) s t" and "timers t = []" and "\<not> mutation_in_flight (control s)" and "\<not> stop_requested (control s)"
  shows "quiet_end x t"
  using assms by (auto simp: calm_def quiet_end_def orderly_def)

lemma sync_record_quiet:
  assumes "orderly s" and "\<not> stop_requested (control s)" and "sync_record env client deadline r address s = (x, s')"
  shows "quiet_end x s'"
proof -
  have s: "timers s = []" "\<not> mutation_in_flight (control s)"
    using assms(1) by (auto simp: orderly_def)
  from s(1) assms(3) show ?thesis
  proof (cases rule: sync_record_cases)
    case (planned y)
    note f = plan_timeout_frames [OF planned(1)]
    show ?thesis
      using calm_quiet [OF f(3)] f(1) s assms(2) planned(2) by (simp add: quiet_end_def)
  next
    case (executed plan t out)
    note f = plan_timeout_frames [OF executed(1)]
    note ex = execute_record_plan_steps [OF executed(4,5)]
    have t: "control t = control s"
      using f(3) s(2) by (simp add: calm_def)
    show ?thesis
    proof (cases "plan_request client plan")
      case None
      then show ?thesis
        using ex(3) executed(4,6) t s(2) assms(2) by (auto simp: quiet_end_def orderly_def)
    next
      case (Some q)
      then show ?thesis
        using ex(2) ex(4) [OF Some] plan_request_mutation [OF Some] executed(6)
        by (auto simp: quiet_end_def orderly_def)
    qed
  qed
qed

lemma cycle_records_quiet:
  "cycle_records env client deadline addresses rs report s = (x, s') \<Longrightarrow> orderly s \<Longrightarrow> \<not> cr_interrupted report \<Longrightarrow>
     quiet_end x s' \<and> (\<forall>report'. x = Done report' \<longrightarrow> cr_interrupted report' \<longrightarrow> stop_requested (control s'))"
proof (induction rs arbitrary: report s)
  case Nil
  then show ?case by (auto simp: ret_def quiet_end_def)
next
  case (Cons r rs)
  note q = sync_record_quiet [OF Cons.prems(2)]
  from Cons.prems(1) show ?case
  proof (cases rule: cycle_records_Cons)
    case stopped
    then show ?thesis using Cons.prems(2) by (simp add: quiet_end_def)
  next
    case (skipped m)
    then show ?thesis using Cons.IH Cons.prems(2,3) by blast
  next
    case (late a)
    then show ?thesis using q [OF late(1,3)] Cons.prems(3) by (simp add: quiet_end_def)
  next
    case (handled a out t)
    then show ?thesis using q [OF handled(1,3)] Cons.IH [OF handled(4)] Cons.prems(3) by (simp add: quiet_end_def)
  next
    case (abort a stage e)
    then show ?thesis using q [OF abort(1,3)] Cons.prems(3) by (simp add: quiet_end_def)
  next
    case (failed a stage e t)
    then show ?thesis using q [OF failed(1,3)] Cons.IH [OF failed(6)] Cons.prems(3) by (simp add: quiet_end_def)
  next
    case (cut a y)
    then show ?thesis using q [OF cut(1,3)] by (simp add: quiet_end_def)
  qed
qed

lemma run_cycle_until_quiet:
  assumes "timers s = []" and "\<not> mutation_in_flight (control s)" and "\<not> stop_requested (control s)"
    and "run_cycle_until env up deadline s = (x, s')"
  shows "quiet_end x s'" and "x = Done report \<Longrightarrow> cr_interrupted report \<Longrightarrow> stop_requested (control s')"
proof -
  have "quiet_end x s' \<and> (\<forall>report. x = Done report \<longrightarrow> cr_interrupted report \<longrightarrow> stop_requested (control s'))"
    using assms(4)
  proof (cases rule: run_cycle_until_cases)
    case late
    then show ?thesis
      using calm_quiet [OF discovery_timeout_frames(3) [OF late(1)]] discovery_timeout_frames(1) [OF late(1)] assms(1-3)
      by (simp add: quiet_end_def empty_report_def)
  next
    case (cut y)
    then show ?thesis
      using calm_quiet [OF discovery_timeout_frames(3) [OF cut(1)]] discovery_timeout_frames(1) [OF cut(1)] assms(1-3)
      by (simp add: quiet_end_def)
  next
    case (run addresses t n)
    have "orderly (move_cursor n t)"
      using calm_quiet [OF discovery_timeout_frames(3) [OF run(1)]] discovery_timeout_frames(1) [OF run(1)] assms(1-3)
      by (simp add: quiet_end_def orderly_def)
    then show ?thesis
      using cycle_records_quiet [OF run(4)] by (simp add: empty_report_def)
  qed
  then show "quiet_end x s'" "x = Done report \<Longrightarrow> cr_interrupted report \<Longrightarrow> stop_requested (control s')"
    by blast+
qed

text \<open>
  C11: what the shutdown signal does to a cycle that started without one. However the cycle ends, no
  changing request was dropped or cut: each was awaited until its reply. If the cycle is dropped, the
  signal has been noted and no mutation is in flight. If it returns although a stop was requested
  in the meantime, the newest request of the trace is a changing one that was replied to: the one during which the
  signal came, and nothing was sent after it. A report marked as interrupted means that a stop was
  requested.
\<close>

theorem shutdown_is_graceful:
  assumes "timers s = []" and "\<not> mutation_in_flight (control s)" and "\<not> stop_requested (control s)"
    and "run_cycle_until env up deadline s = (x, s')"
  shows "(\<exists>new. trace s' = new @ trace s \<and> (\<forall>e \<in> set new. is_mutation (le_request e) \<longrightarrow> le_fate e = Replied)) \<and>
    (x = Dropped \<longrightarrow> stop_requested (control s') \<and> shutdown s' \<noteq> None \<and> \<not> mutation_in_flight (control s')) \<and>
    (\<forall>report. x = Done report \<longrightarrow> (cr_interrupted report \<longrightarrow> stop_requested (control s')) \<and>
      (stop_requested (control s') \<longrightarrow> trace s' \<noteq> [] \<and> is_mutation (le_request (hd (trace s'))) \<and>
         le_fate (hd (trace s')) = Replied))"
proof -
  obtain new where "trace s' = new @ trace s" "\<forall>e \<in> set new. managed_write up deadline e"
    using run_cycle_until_writes [OF assms(1,4)] by (auto elim: addsE)
  then have "\<exists>new. trace s' = new @ trace s \<and> (\<forall>e \<in> set new. is_mutation (le_request e) \<longrightarrow> le_fate e = Replied)"
    unfolding managed_write_def by blast
  then show ?thesis
    using run_cycle_until_quiet [OF assms] by (auto simp: quiet_end_def orderly_def)
qed


section \<open>Decisions\<close>

lemma plan_record_served:
  assumes "zone_cache s (case zone_id r of None \<Rightarrow> named_key (zone r) | Some i \<Rightarrow> explicit_key (zone r) i) = Some zid"
    and "serves_records env client zid (record_type_str (record_type r)) (name r) pages"
    and "pages \<noteq> []" and "length pages \<le> MAX_PAGES"
  shows "\<exists>s'. plan_record env client r address s =
    (Done (case filter (record_matches (record_type_str (record_type r)) (name r)) (concat pages) of
        [] \<Rightarrow> (if create_if_missing r then Inr (PlanCreate zid (payload_for r address))
               else Inl (FsRecordLookup, RecordNotFound (record_type_str (record_type r)) (name r)))
      | [e] \<Rightarrow> Inr (plan_existing_record r address zid e)
      | _ \<Rightarrow> Inl (FsRecordLookup, AmbiguousRecord (record_type_str (record_type r)) (name r))), s')"
proof -
  let ?found = "filter (record_matches (record_type_str (record_type r)) (name r)) (concat pages)"
  have served: "\<exists>s'. find_record env client zid (record_type_str (record_type r)) (name r) t =
    (Done (case ?found of [] \<Rightarrow> Inr None | [e] \<Rightarrow> Inr (Some e)
       | _ \<Rightarrow> Inl (AmbiguousRecord (record_type_str (record_type r)) (name r))), s')" for t
    using find_record_served [OF assms(2-4), of t] unfolding scan_records_None .
  obtain t1 t2 where find: "find_record env client zid (record_type_str (record_type r)) (name r) s =
      (Done (case ?found of [] \<Rightarrow> Inr None | [e] \<Rightarrow> Inr (Some e)
       | _ \<Rightarrow> Inl (AmbiguousRecord (record_type_str (record_type r)) (name r))), t1)"
    "find_record env client zid (record_type_str (record_type r)) (name r) t1 =
      (Done (case ?found of [] \<Rightarrow> Inr None | [e] \<Rightarrow> Inr (Some e)
       | _ \<Rightarrow> Inl (AmbiguousRecord (record_type_str (record_type r)) (name r))), t2)"
    using served by metis
  note resolve = resolve_zone_id_hit [OF assms(1), of env client]
  consider "?found = []" | e where "?found = [e]" | e f es where "?found = e # f # es"
    by (metis list.exhaust)
  then show ?thesis
    by cases (use find resolve in \<open>auto simp: plan_record_def at_stage_def bind_ok_def bind_io_def ret_def map_err_def\<close>)
qed

text \<open>
  C39: what planning decides, for a zone that is already resolved and a service that answers page
  requests with a fixed listing of up to 100 pages: nothing when the one matching record has the
  address, TTL and proxy flag; a replacement of that very record when it differs; an error when
  several records match; when none does, a creation if the record allows it and an error
  otherwise.
\<close>

theorem plan_record_decision:
  assumes "zone_cache s (case zone_id r of None \<Rightarrow> named_key (zone r) | Some i \<Rightarrow> explicit_key (zone r) i) = Some zid"
    and "serves_records env client zid (record_type_str (record_type r)) (name r) pages"
    and "pages \<noteq> []" and "length pages \<le> MAX_PAGES"
  shows "\<exists>s'. plan_record env client r address s =
    (Done (case filter (record_matches (record_type_str (record_type r)) (name r)) (concat pages) of
        [] \<Rightarrow> (if create_if_missing r then Inr (PlanCreate zid (payload_for r address))
               else Inl (FsRecordLookup, RecordNotFound (record_type_str (record_type r)) (name r)))
      | [e] \<Rightarrow> Inr (if parse_ip (dr_content e) = Some address \<and> dr_ttl e = ttl r \<and> dr_proxied e = proxied r
                   then PlanUnchanged else PlanUpdate zid (dr_id e) (payload_for r address))
      | _ \<Rightarrow> Inl (FsRecordLookup, AmbiguousRecord (record_type_str (record_type r)) (name r))), s')"
  using plan_record_served [OF assms, of address] unfolding plan_existing_record_def .

text \<open>The record a DNS service keeps after it has accepted a payload.\<close>

definition stored_record :: "string \<Rightarrow> record_payload \<Rightarrow> dns_record" where
  "stored_record i p = \<lparr>dr_id = i, dr_record_type = rp_record_type p, dr_name = rp_name p,
     dr_content = rp_content p, dr_ttl = rp_ttl p, dr_proxied = rp_proxied p\<rparr>"

lemma plan_stored_record: "plan_existing_record r a zid (stored_record i (payload_for r a)) = PlanUnchanged"
  by (simp add: plan_existing_record_def stored_record_def payload_for_def)

lemma stored_record_matches:
  "record_matches (record_type_str (record_type r)) (name r) (stored_record i (payload_for r a))"
  by (simp add: record_matches_def stored_record_def payload_for_def)

text \<open>
  Synchronisation converges. Once the service lists the record that a payload for the
  address created or replaced, in whatever position of the listing and next to whatever other
  records that do not match, the next plan for the same address is to change nothing.
\<close>

lemma applied_payload_is_stable:
  assumes "zone_cache s (case zone_id r of None \<Rightarrow> named_key (zone r) | Some i \<Rightarrow> explicit_key (zone r) i) = Some zid"
    and "serves_records env client zid (record_type_str (record_type r)) (name r) pages"
    and "concat pages = before @ stored_record i (payload_for r address) # after"
    and "filter (record_matches (record_type_str (record_type r)) (name r)) (before @ after) = []"
    and "length pages \<le> MAX_PAGES"
  shows "\<exists>s'. plan_record env client r address s = (Done (Inr PlanUnchanged), s')"
proof -
  have "pages \<noteq> []" using assms(3) by auto
  moreover have "filter (record_matches (record_type_str (record_type r)) (name r)) (concat pages) =
      [stored_record i (payload_for r address)]"
    using assms(3,4) by (simp add: stored_record_matches)
  ultimately show ?thesis
    using plan_record_served [OF assms(1,2) _ assms(5), of address] by (simp add: plan_stored_record)
qed

section \<open>Rotation\<close>

text \<open>Only \<open>next_start\<close> moves the cursor.\<close>

lemma guarded_send_cursor:
  assumes "guarded (send_record env client q op zid) s = (x, s')"
  shows "record_cursor s' = record_cursor s"
proof -
  obtain t where t: "send_record env client q op zid (set_in_flight True s) = (x, t)" "s' = set_in_flight False t"
    using assms by (auto simp: guarded_def split: prod.splits)
  from t(1) show ?thesis
    by (rule send_record_steps) (auto simp: t(2) dest: await_frame(3))
qed

lemma execute_cursor: "execute_record_plan env client plan s = (x, s') \<Longrightarrow> record_cursor s' = record_cursor s"
  by (cases plan)
     (auto simp: execute_record_plan_def bind_ok_def at_stage_def bind_io_def ret_def update_record_def create_record_def
       split: prod.splits fut.splits sum.splits dest: guarded_send_cursor)

lemma sync_record_cursor:
  "sync_record env client deadline r a s = (x, s') \<Longrightarrow> timers s = [] \<Longrightarrow> record_cursor s' = record_cursor s"
  by (elim sync_record_cases [rotated]) (auto dest!: plan_timeout_frames(4) execute_cursor simp: same_cursor_def)

lemma cycle_records_cursor:
  "cycle_records env client deadline addresses rs report s = (x, s') \<Longrightarrow> timers s = [] \<Longrightarrow>
     record_cursor s' = record_cursor s"
proof (induction rs arbitrary: report s)
  case Nil
  then show ?case by (simp add: ret_def)
next
  case (Cons r rs)
  have step: "record_cursor t = record_cursor s \<and> timers t = []" if "sync_record env client deadline r a s = (y, t)"
    "address_for_record addresses r = Inr a" for a y t
    using sync_record_cursor [OF that(1) Cons.prems(2)] sync_record_trace [OF Cons.prems(2) that, of "[r]"] by simp
  from Cons.prems(1) show ?case
    by (cases rule: cycle_records_Cons) (use Cons.prems(2) Cons.IH step in metis)+
qed

lemma run_cycle_until_cursor:
  assumes "timeout_at deadline (discover_required_addresses env up) s = (Done (Some addresses), t)" and "timers s = []"
    and "records (up_config up) \<noteq> []"
  shows "run_cycle_until env up deadline s = cycle_records env (up_cloudflare up) deadline addresses
      (rotate (unat (record_cursor s) mod length (records (up_config up))) (records (up_config up)))
      (started_report up addresses) (t\<lparr>record_cursor := record_cursor s + 1\<rparr>)"
    and "record_cursor (snd (run_cycle_until env up deadline s)) = record_cursor s + 1"
proof -
  have t: "record_cursor t = record_cursor s" "timers t = []"
    using discovery_timeout_frames(1,4) [OF assms(1)] assms(2) by (simp_all add: same_cursor_def)
  show run: "run_cycle_until env up deadline s = cycle_records env (up_cloudflare up) deadline addresses
      (rotate (unat (record_cursor s) mod length (records (up_config up))) (records (up_config up)))
      (started_report up addresses) (t\<lparr>record_cursor := record_cursor s + 1\<rparr>)"
    using assms(1,3) t(1)
    by (simp add: run_cycle_until_def Let_def bind_io_def next_start_step start_index_def move_cursor_def rotated_from_eq_rotate)
  show "record_cursor (snd (run_cycle_until env up deadline s)) = record_cursor s + 1"
    unfolding run by (rule cycle_records_cursor [OF surjective_pairing, THEN trans]) (simp_all add: t(2))
qed

lemma bij_rotation: "0 < n \<Longrightarrow> bij_betw (\<lambda>k. (c + k) mod n) {..<n} {..<n :: nat}"
proof (rule bij_betw_imageI)
  assume n: "0 < n"
  have same: "j = k" if "j \<le> k" "k < n" "(c + j) mod n = (c + k) mod n" for j k
  proof -
    have "n dvd (c + k) - (c + j)" using mod_eq_dvd_iff_nat [of "c + j" "c + k" n] that(1,3) by simp
    then have "n dvd k - j" by simp
    then show ?thesis using that(1,2) dvd_imp_le [of n "k - j"] by (cases "k = j") simp_all
  qed
  show inj: "inj_on (\<lambda>k. (c + k) mod n) {..<n}"
    by (rule inj_onI) (metis same lessThan_iff nle_le)
  show "(\<lambda>k. (c + k) mod n) ` {..<n} = {..<n}"
    using n by (intro card_subset_eq) (auto simp: card_image [OF inj])
qed

text \<open>
  C32: no record is always behind a failing one. Take \<open>n\<close> successive cycles of an updater with \<open>n\<close>
  records, which nothing but the cycles themselves moves on: each starts with the cursor the one before
  it left, found its addresses in time, and whatever happened else. Then each of
  them works through the whole list of records, rotated, and each record is the first one in exactly one of
  them, as long as the 64-bit cursor does not wrap around.
\<close>

theorem rotation_is_fair:
  assumes "records (up_config up) \<noteq> []" and "n = length (records (up_config up))"
    and "\<forall>k < n. timers (st k) = [] \<and>
      timeout_at (deadline k) (discover_required_addresses env up) (st k) = (Done (Some (addresses k)), t k)"
    and "\<forall>k. Suc k < n \<longrightarrow> record_cursor (st (Suc k)) = record_cursor (snd (run_cycle_until env up (deadline k) (st k)))"
    and "unat (record_cursor (st 0)) + n \<le> 2 ^ 64"
  shows "\<exists>first. bij_betw first {..<n} {..<n} \<and>
    (\<forall>k < n. run_cycle_until env up (deadline k) (st k) =
      cycle_records env (up_cloudflare up) (deadline k) (addresses k) (rotate (first k) (records (up_config up)))
        ((empty_report n)\<lparr>cr_failures := discovery_failures (addresses k)\<rparr>)
        ((t k)\<lparr>record_cursor := record_cursor (st k) + 1\<rparr>))"
proof -
  let ?c = "unat (record_cursor (st 0))"
  have n: "0 < n" using assms(1,2) by simp
  note run = run_cycle_until_cursor [OF _ _ assms(1)]
  have cursor: "k < n \<Longrightarrow> record_cursor (st k) = record_cursor (st 0) + of_nat k" for k
  proof (induction k)
    case (Suc k)
    then have "record_cursor (st (Suc k)) = record_cursor (st k) + 1"
      using assms(3,4) run(2) [where env = env and deadline = "deadline k" and s = "st k"] by simp
    then show ?case using Suc by simp
  qed simp
  have at: "unat (record_cursor (st k)) = ?c + k" if "k < n" for k
  proof -
    have "?c + k < 2 ^ 64" using assms(5) that by simp
    then show ?thesis unfolding cursor [OF that] by (simp add: unat_word_ariths unat_of_nat)
  qed
  have "run_cycle_until env up (deadline k) (st k) =
      cycle_records env (up_cloudflare up) (deadline k) (addresses k)
        (rotate ((?c + k) mod n) (records (up_config up)))
        ((empty_report n)\<lparr>cr_failures := discovery_failures (addresses k)\<rparr>)
        ((t k)\<lparr>record_cursor := record_cursor (st k) + 1\<rparr>)" if "k < n" for k
    using run(1) [where deadline = "deadline k" and s = "st k"] assms(2,3) at [OF that] that by simp
  then show ?thesis
    using bij_rotation [OF n, of ?c] by blast
qed


section \<open>A sample cycle\<close>

text \<open>
  Providers answer with an address and the API with an empty document that decodes to the sample
  listing and an active token; the clock stands still.
\<close>

abbreviation home_address :: ip_addr where
  "home_address \<equiv> V4 (Ipv4Addr 8 8 4 4)"

definition home_service :: "dns_record list \<Rightarrow> nat env" where
  "home_service rs = (sample_service rs)\<lparr>
     ev_respond := (\<lambda>r w. (Inr (ok_response
       (case rq_url r of ProviderUrl _ \<Rightarrow> show_ip home_address | ApiUrl _ _ \<Rightarrow> ''{}'')), w)),
     ev_clock := (\<lambda>_. 0),
     ev_json_token := (\<lambda>_. Inr (ok_envelope \<lparr>tv_status = ''active''\<rparr>))\<rparr>"

definition home_updater :: updater where
  "home_updater = \<lparr>up_config = sample_config, up_cloudflare = sample_client,
     up_public_ip = \<lparr>pc_timeout = 100\<rparr>, up_runtime_lock = sample_lock\<rparr>"

definition home_sys :: "nat sys" where
  "home_sys = (idle_sys 0)\<lparr>zone_cache := [named_key ''example.com'' \<mapsto> ''z1'']\<rparr>"

lemma home_service_await:
  "await (home_service rs) r s = (Done (Inr (ok_response
     (case rq_url r of ProviderUrl _ \<Rightarrow> show_ip home_address | ApiUrl _ _ \<Rightarrow> ''{}''))),
     log_request (home_service rs) r Replied (world s)
       (if listening s \<and> ev_signalled (home_service rs) r (world s) \<noteq> None
        then note_signal (fst (the (ev_signalled (home_service rs) r (world s)))) s else s))"
  by (auto simp: await_def complete_request_def home_service_def sample_service_def prompt_def scripted_def)

lemma home_now [simp]: "now (home_service rs) s = 0"
  by (simp add: now_def home_service_def)

lemma home_discovers:
  assumes "\<not> listening s" and "length ps < 100"
  shows "\<exists>s'. discover (home_service rs) \<lparr>pc_timeout = 100\<rparr> Ipv4 (p # ps) s = (Done (Inr home_address), s') \<and>
    zone_cache s' = zone_cache s"
proof -
  have len: "length (show_ip home_address) = 7"
    by (simp add: show_ipv4_def show_nat_small)
  have public: "is_public_address home_address" by simp
  show ?thesis
    using provider_answer [of home_address Ipv4] len public assms
    by (simp add: discover_def async_simps Let_def bind_io_def get_sys_def timeout_at_def
       providers_left_def query_provider_def home_service_await get_request_def MAX_RESPONSE_BYTES_def div_greater_zero_iff)
qed

lemma home_service_serves: "serves_records (home_service rs) client zid rtype rname [rs]"
proof -
  have "handle_response client (ev_json_records (home_service rs)) op (Inr (ok_response ''{}'')) =
      Inr \<lparr>ar_result = rs, ar_result_info = Some \<lparr>ri_total_pages = Some 1\<rparr>\<rparr>" for op
    by (rule handle_ok_response) (simp add: home_service_def sample_service_def)
  then show ?thesis
    by (auto simp: serves_records_def home_service_await record_page_request_def get_request_def endpoint_def Let_def
        le_Suc_eq)
qed


lemma home_required_addresses:
  assumes "\<not> listening s"
  shows "\<exists>t. discover_required_addresses (home_service rs) home_updater s =
      (Done \<lparr>da_ipv4 = Some (Inr home_address), da_ipv6 = None\<rparr>, t) \<and> zone_cache t = zone_cache s"
  using home_discovers [OF assms, of "[''https://api.ipify.org'']" rs "''https://api.cloudflare.com/cdn-cgi/trace''"]
  by (auto simp: discover_required_addresses_def home_updater_def sample_config_def default_config_def sample_record_def
      discover_lane_def join2_def bind_io_def ret_def map_err_def)

lemma home_record_matches: "record_matches ''A'' ''home.example.com'' sample_dns_record"
  by (simp add: record_matches_def sample_dns_record_def)

lemma home_content: "dr_content sample_dns_record = show_ip home_address"
  by (simp add: sample_dns_record_def show_ipv4_def show_nat_small)

lemma home_plans:
  assumes "zone_cache s (named_key ''example.com'') = Some ''z1''"
  shows "\<exists>s'. plan_record (home_service [sample_dns_record]) sample_client sample_record home_address s =
    (Done (Inr PlanUnchanged), s')"
  using plan_record_served [of s sample_record "''z1''" "home_service [sample_dns_record]" sample_client "[[sample_dns_record]]" home_address]
    home_service_serves [of "[sample_dns_record]" sample_client "''z1''" "''A''" "''home.example.com''"] assms
  by (simp add: sample_record_def home_record_matches plan_existing_record_def home_content MAX_PAGES_def del: show_ip.simps)
    (simp add: sample_dns_record_def)

lemma home_syncs:
  assumes "zone_cache s (named_key ''example.com'') = Some ''z1''"
  shows "\<exists>s'. sync_record (home_service [sample_dns_record]) sample_client 1000 sample_record home_address s =
    (Done (Some (Inr Unchanged)), s')"
proof -
  obtain t where "plan_record (home_service [sample_dns_record]) sample_client sample_record home_address
      (s\<lparr>timers := 1000 # timers s\<rparr>) = (Done (Inr PlanUnchanged), t)"
    using home_plans [of "s\<lparr>timers := 1000 # timers s\<rparr>"] assms by auto
  then show ?thesis
    by (simp add: sync_record_def timeout_at_def bind_io_def get_sys_def execute_record_plan_def ret_def)
qed

definition home_report :: cycle_report where
  "home_report = (empty_report 1)\<lparr>cr_unchanged := 1\<rparr>"

lemma home_cycle:
  "\<exists>s'. run_cycle_until (home_service [sample_dns_record]) home_updater 1000 home_sys = (Done home_report, s')"
proof -
  let ?env = "home_service [sample_dns_record]"
  obtain t where t: "discover_required_addresses ?env home_updater (home_sys\<lparr>timers := [1000]\<rparr>) =
      (Done \<lparr>da_ipv4 = Some (Inr home_address), da_ipv6 = None\<rparr>, t)" "zone_cache t = zone_cache home_sys"
    using home_required_addresses [of "home_sys\<lparr>timers := [1000]\<rparr>"] by (auto simp: home_sys_def)
  have empty: "timers home_sys = []" by (simp add: home_sys_def)
  define u where "u = move_cursor 1 (t\<lparr>timers := []\<rparr>)"
  have "zone_cache u (named_key ''example.com'') = Some ''z1''"
    using t(2) by (simp add: u_def move_cursor_def home_sys_def)
  then obtain s' where s': "sync_record ?env sample_client 1000 sample_record home_address u = (Done (Some (Inr Unchanged)), s')"
    using home_syncs by blast
  have "\<not> stop_requested (control u)"
    using frameD [OF calm_frame.frame_discover_required t(1)] by (simp add: calm_def u_def home_sys_def)
  then have "cycle_records ?env sample_client 1000 \<lparr>da_ipv4 = Some (Inr home_address), da_ipv6 = None\<rparr>
      [sample_record] (empty_report 1) u = (Done home_report, s')"
    using s' unfolding cycle_records_step
    by (simp add: address_for_record_def sample_record_def ret_def home_report_def tally_def empty_report_def)
  then show ?thesis
    using t(1) empty
    by (simp add: run_cycle_until_def Let_def bind_io_def timeout_at_def next_start_step u_def home_updater_def
        sample_config_def rotated_from_def discovery_failures_def empty_report_def)
qed


section \<open>The properties at the sample cycle\<close>

abbreviation home_run :: "cycle_report fut \<times> nat sys" where
  "home_run \<equiv> run_cycle_until (home_service [sample_dns_record]) home_updater 1000 home_sys"

lemma home_idle [simp]:
  "timers home_sys = []" "stop_requested (control home_sys) = False" "mutation_in_flight (control home_sys) = False"
  "record_cursor home_sys = 0" "trace home_sys = []"
  by (simp_all add: home_sys_def)

lemma home_records [simp]: "records (up_config home_updater) = [sample_record]"
  by (simp add: home_updater_def sample_config_def)

theorem cycle_writes_safe_witness:
  "\<exists>new. trace (snd home_run) = new \<and> length (filter (\<lambda>e. is_mutation (le_request e)) new) \<le> 1 \<and>
    (\<forall>e \<in> set new. is_mutation (le_request e) \<longrightarrow> le_fate e = Replied \<and> le_start e < 1000)"
  using cycle_writes_safe [of home_sys "home_service [sample_dns_record]" home_updater 1000] by auto

theorem cycle_accounting_witness:
  "\<exists>s'. home_run = (Done home_report, s') \<and> mutation_count s' = 0"
proof -
  obtain s' where s': "home_run = (Done home_report, s')" using home_cycle by blast
  have "mutation_count home_sys = 0" by (simp add: mutation_count_def)
  then show ?thesis
    using s' cycle_accounting [OF _ s']
    by (simp add: home_report_def empty_report_def cycle_success_def)
qed

theorem abort_is_final_witness:
  "\<exists>s'. home_run = (Done home_report, s') \<and> (\<forall>f \<in> set (butlast (cr_failures home_report)). cf_kind f \<noteq> FkAuthentication)"
  using home_cycle abort_is_final by blast

text \<open>A signal that comes with the first request of a cycle: the cycle is dropped.\<close>

abbreviation signalled_service :: "nat env" where
  "signalled_service \<equiv> (home_service [sample_dns_record])\<lparr>ev_signalled := (\<lambda>_ w. Some (None, w))\<rparr>"

theorem shutdown_is_graceful_witness:
  "\<exists>s'. run_cycle_until signalled_service home_updater 1000 (home_sys\<lparr>listening := True\<rparr>) = (Dropped, s') \<and>
    stop_requested (control s') \<and> shutdown s' = Some None \<and>
    (\<forall>e \<in> set (trace s'). is_mutation (le_request e) \<longrightarrow> le_fate e = Replied)"
proof -
  have "\<exists>s'. run_cycle_until signalled_service home_updater 1000 (home_sys\<lparr>listening := True\<rparr>) = (Dropped, s') \<and> shutdown s' = Some None"
    by (simp add: run_cycle_until_def Let_def bind_io_def timeout_at_def discover_required_addresses_def home_updater_def
        sample_config_def default_config_def sample_record_def discover_lane_def join2_def ret_def discover_def async_simps
        get_sys_def query_provider_def await_def note_signal_def log_request_def home_sys_def now_def
        home_service_def providers_left_def merge_sys_def numeral_2_eq_2 [symmetric])
  then obtain s' where s': "run_cycle_until signalled_service home_updater 1000 (home_sys\<lparr>listening := True\<rparr>) = (Dropped, s')"
    "shutdown s' = Some None" by blast
  then show ?thesis
    using shutdown_is_graceful [OF _ _ _ s'(1)] by (auto simp: home_sys_def)
qed

theorem plan_record_decision_witness:
  "\<exists>s'. plan_record (home_service []) sample_client sample_record home_address home_sys =
    (Done (Inl (FsRecordLookup, RecordNotFound ''A'' ''home.example.com'')), s')"
  using plan_record_decision [of home_sys sample_record "''z1''" "home_service []" sample_client "[[]]" home_address]
    home_service_serves [of "[]" sample_client "''z1''" "''A''" "''home.example.com''"]
  by (simp add: sample_record_def home_sys_def MAX_PAGES_def)

theorem applied_payload_is_stable_witness:
  "\<exists>s'. plan_record (home_service [stored_record ''r1'' (payload_for sample_record home_address)]) sample_client
      sample_record home_address home_sys = (Done (Inr PlanUnchanged), s')"
  using applied_payload_is_stable [of home_sys sample_record "''z1''"
      "home_service [stored_record ''r1'' (payload_for sample_record home_address)]" sample_client
      "[[stored_record ''r1'' (payload_for sample_record home_address)]]" "[]" "''r1''" home_address "[]"]
    home_service_serves [of "[stored_record ''r1'' (payload_for sample_record home_address)]" sample_client "''z1''" "''A''" "''home.example.com''"]
  by (simp add: sample_record_def home_sys_def MAX_PAGES_def)

text \<open>Two cycles with two records: each record is first in one of them.\<close>

definition pair_updater :: updater where
  "pair_updater = home_updater\<lparr>up_config := sample_config\<lparr>records := [sample_record, sample_record\<lparr>name := ''www.example.com''\<rparr>]\<rparr>\<rparr>"

definition pair_start :: "nat \<Rightarrow> nat sys" where
  "pair_start k = (if k = 0 then home_sys else home_sys\<lparr>record_cursor := record_cursor (snd (run_cycle_until (home_service []) pair_updater 1000 home_sys))\<rparr>)"

lemma pair_discovers:
  assumes "\<not> listening s"
  shows "\<exists>a t. timeout_at 1000 (discover_required_addresses (home_service []) pair_updater) s = (Done (Some a), t)"
  using home_discovers [of "s\<lparr>timers := 1000 # timers s\<rparr>" "[''https://api.ipify.org'']" "[]" "''https://api.cloudflare.com/cdn-cgi/trace''"] assms
  by (auto simp: discover_required_addresses_def pair_updater_def home_updater_def sample_config_def default_config_def sample_record_def
      discover_lane_def join2_def bind_io_def ret_def map_err_def timeout_at_def)

theorem rotation_is_fair_witness:
  "\<exists>first a t. bij_betw first {..<2} {..<2} \<and> (\<forall>k < 2. run_cycle_until (home_service []) pair_updater 1000 (pair_start k) =
     cycle_records (home_service []) sample_client 1000 (a k)
       (rotate (first k) [sample_record, sample_record\<lparr>name := ''www.example.com''\<rparr>])
       ((empty_report 2)\<lparr>cr_failures := discovery_failures (a k)\<rparr>) ((t k)\<lparr>record_cursor := record_cursor (pair_start k) + 1\<rparr>))"
proof -
  have up: "records (up_config pair_updater) = [sample_record, sample_record\<lparr>name := ''www.example.com''\<rparr>]"
    "up_cloudflare pair_updater = sample_client"
    by (simp_all add: pair_updater_def home_updater_def)
  have "\<forall>k. \<exists>a t. timeout_at 1000 (discover_required_addresses (home_service []) pair_updater) (pair_start k) = (Done (Some a), t)"
    by (intro allI pair_discovers) (simp add: pair_start_def home_sys_def)
  then obtain a t where at: "\<And>k. timeout_at 1000 (discover_required_addresses (home_service []) pair_updater) (pair_start k) = (Done (Some (a k)), t k)"
    by metis
  have start: "timers (pair_start k) = []" "record_cursor (pair_start 0) = 0"
    "record_cursor (pair_start (Suc 0)) = record_cursor (snd (run_cycle_until (home_service []) pair_updater 1000 (pair_start 0)))" for k
    by (simp_all add: pair_start_def)
  have hyps: "\<forall>k < 2. timers (pair_start k) = [] \<and>
      timeout_at 1000 (discover_required_addresses (home_service []) pair_updater) (pair_start k) = (Done (Some (a k)), t k)"
    "\<forall>k. Suc k < 2 \<longrightarrow> record_cursor (pair_start (Suc k)) =
      record_cursor (snd (run_cycle_until (home_service []) pair_updater 1000 (pair_start k)))"
    using at start by (simp_all add: pair_start_def)
  have "records (up_config pair_updater) \<noteq> []" "2 = length (records (up_config pair_updater))"
    "unat (record_cursor (pair_start 0)) + 2 \<le> 2 ^ 64"
    by (simp_all add: up start)
  from rotation_is_fair [OF this(1,2) hyps this(3)] show ?thesis
    unfolding up by blast
qed

end
