(* ===== verification/Check.thy ===== *)
theory Check
  imports Updater "HOL-Library.AList"
begin

text \<open>
  \<open>updater.rs\<close>: the \<open>check\<close> workflow. It verifies the token, discovers the addresses, looks
  every record up and, only when asked to, proves the permission to edit by a narrow \<open>PATCH\<close> or
  by a creation. \<open>ZoneProofs\<close> keeps which configured zones were resolved and proved.
\<close>

section \<open>Reports\<close>

record check_report =
  ck_records :: nat
  ck_authenticated :: bool
  ck_existing :: nat
  ck_creatable :: nat
  ck_created :: nat
  ck_edit_verified_zones :: nat
  ck_edit_permission_verified :: bool
  ck_failures :: "cycle_failure list"

definition empty_check_report :: "nat \<Rightarrow> check_report" where
  "empty_check_report n = \<lparr>ck_records = n, ck_authenticated = False, ck_existing = 0, ck_creatable = 0,
     ck_created = 0, ck_edit_verified_zones = 0, ck_edit_permission_verified = False, ck_failures = []\<rparr>"

definition check_success :: "check_report \<Rightarrow> bool" where
  "check_success report \<longleftrightarrow>
     ck_authenticated report \<and> ck_edit_permission_verified report \<and> ck_failures report = []"

definition check_report_text :: "check_report \<Rightarrow> string" where
  "check_report_text report =
     show_nat (ck_records report) @ '' record(s): '' @ show_nat (ck_existing report) @ '' existing, '' @
     show_nat (ck_creatable report) @ '' creatable, '' @ show_nat (ck_created report) @
     '' created, edit permission verified for '' @ show_nat (ck_edit_verified_zones report) @ '' zone(s), '' @
     show_nat (length (ck_failures report)) @ '' failure(s)''"

definition push_check :: "cycle_failure \<Rightarrow> check_report \<Rightarrow> check_report" where
  "push_check f report = report\<lparr>ck_failures := ck_failures report @ [f]\<rparr>"

definition check_deadline_failure :: cycle_failure where
  "check_deadline_failure =
     \<lparr>cf_target = ''configuration check'', cf_stage = FsCycleDeadline, cf_kind = FkTransient,
      cf_delay = None, cf_message = ''check deadline expired before all configured work completed''\<rparr>"

section \<open>Zone proofs\<close>

record configured_zone =
  cz_name :: string
  cz_explicit_id :: "string option"

definition zone_for_record :: "record_config \<Rightarrow> configured_zone" where
  "zone_for_record r = \<lparr>cz_name = to_ascii_lowercase (zone r), cz_explicit_id = zone_id r\<rparr>"

definition display_target :: "configured_zone \<Rightarrow> string option \<Rightarrow> string" where
  "display_target z resolved_id =
     (case (case resolved_id of Some i \<Rightarrow> Some i | None \<Rightarrow> cz_explicit_id z) of
        None \<Rightarrow> cz_name z
      | Some i \<Rightarrow> cz_name z @ '' (zone ID '' @ i @ '')'')"

text \<open>
  The hash set of expected zones is a list without repetition, the hash map of resolved zones an
  association list. The order in which a hash set is iterated is a parameter where it matters.
\<close>

record zone_proofs =
  zp_expected :: "configured_zone list"
  zp_resolved :: "(configured_zone \<times> string) list"
  zp_proven_ids :: "string list"

definition proofs_for_config :: "config \<Rightarrow> zone_proofs" where
  "proofs_for_config c =
     \<lparr>zp_expected = remdups (map zone_for_record (records c)), zp_resolved = [], zp_proven_ids = []\<rparr>"

definition mark_resolved :: "record_config \<Rightarrow> string \<Rightarrow> zone_proofs \<Rightarrow> zone_proofs" where
  "mark_resolved r zid proofs =
     proofs\<lparr>zp_resolved := AList.update (zone_for_record r) zid (zp_resolved proofs)\<rparr>"

definition needs_proof :: "zone_proofs \<Rightarrow> string \<Rightarrow> bool" where
  "needs_proof proofs zid \<longleftrightarrow> zid \<notin> set (zp_proven_ids proofs)"

definition mark_proven :: "string \<Rightarrow> zone_proofs \<Rightarrow> zone_proofs" where
  "mark_proven zid proofs = proofs\<lparr>zp_proven_ids := List.insert zid (zp_proven_ids proofs)\<rparr>"

definition verified_count :: "zone_proofs \<Rightarrow> nat" where
  "verified_count proofs =
     length (remdups (filter (\<lambda>zid. zid \<in> set (zp_proven_ids proofs)) (map snd (zp_resolved proofs))))"

definition proofs_complete :: "zone_proofs \<Rightarrow> bool" where
  "proofs_complete proofs \<longleftrightarrow>
     length (zp_resolved proofs) = length (zp_expected proofs) \<and>
     list_all (\<lambda>zid. zid \<in> set (zp_proven_ids proofs)) (map snd (zp_resolved proofs))"

text \<open>\<open>BTreeMap::entry(..).or_insert_with(..)\<close> on the sorted association list.\<close>

fun or_insert :: "string \<Rightarrow> 'v \<Rightarrow> (string \<times> 'v) list \<Rightarrow> (string \<times> 'v) list" where
  "or_insert k v [] = [(k, v)]"
| "or_insert k v ((k', v') # m) =
     (if k = k' then (k', v') # m
      else if k < k' then (k, v) # (k', v') # m
      else (k', v') # or_insert k v m)"

definition unverified_entry :: "zone_proofs \<Rightarrow> configured_zone \<Rightarrow> (string \<times> string) list \<Rightarrow> (string \<times> string) list" where
  "unverified_entry proofs z targets =
     (case map_of (zp_resolved proofs) z of
        Some zid \<Rightarrow>
          if zid \<in> set (zp_proven_ids proofs) then targets
          else or_insert (''resolved:'' @ zid) (display_target z (Some zid)) targets
      | None \<Rightarrow>
          or_insert (''unresolved:'' @ cz_name z @ '':'' @ (case cz_explicit_id z of Some i \<Rightarrow> i | None \<Rightarrow> []))
            (display_target z None) targets)"

definition unverified_targets :: "(configured_zone list \<Rightarrow> configured_zone list) \<Rightarrow> zone_proofs \<Rightarrow> string list" where
  "unverified_targets order proofs = map snd (fold (unverified_entry proofs) (order (zp_expected proofs)) [])"

definition summarize_check_proofs :: "zone_proofs \<Rightarrow> check_report \<Rightarrow> check_report" where
  "summarize_check_proofs proofs report =
     report\<lparr>ck_edit_verified_zones := verified_count proofs, ck_edit_permission_verified := proofs_complete proofs\<rparr>"

definition finalize_check_report :: "(configured_zone list \<Rightarrow> configured_zone list) \<Rightarrow> bool \<Rightarrow> zone_proofs
    \<Rightarrow> check_report \<Rightarrow> check_report" where
  "finalize_check_report order edit_probe_requested proofs report =
     fold (\<lambda>target. push_check (permanent_failure target FsEditPermission
        (if edit_probe_requested then ''DNS edit permission could not be proved for this zone''
         else ''DNS edit permission was not exercised; rerun check with --allow-edit-probe'')))
       (unverified_targets order proofs) (summarize_check_proofs proofs report)"

section \<open>The check\<close>

definition CHECK_TIMEOUT :: duration where "CHECK_TIMEOUT = from_secs 300"
definition MUTATION_START_MARGIN :: duration where "MUTATION_START_MARGIN = from_secs 1"

text \<open>\<open>Duration::MAX\<close> and \<open>Duration::saturating_add\<close>\<close>

definition MAX_DURATION :: duration where "MAX_DURATION = from_secs (2 ^ 64 - 1) + 999999999"

definition saturating_add :: "duration \<Rightarrow> duration \<Rightarrow> duration" where
  "saturating_add d e = min MAX_DURATION (d + e)"

record check_options =
  co_allow_create :: bool
  co_allow_edit_probe :: bool
  co_deadline :: instant

datatype check_lookup_error = ClDeadline | ClCloudflare failure_stage cloudflare_error

definition mutation_can_finish_before :: "'w env \<Rightarrow> cloudflare_client \<Rightarrow> instant \<Rightarrow> 'w sys \<Rightarrow> bool" where
  "mutation_can_finish_before env client deadline s \<longleftrightarrow>
     now env s \<le> deadline \<and>
     saturating_add (cc_request_timeout client) MUTATION_START_MARGIN \<le> deadline - now env s"

text \<open>\<open>timeout_at(deadline, m).await.map_err(..)?.map_err(..)\<close>\<close>

definition lookup_before :: "instant \<Rightarrow> failure_stage \<Rightarrow> ('w, ('a, cloudflare_error) result) io
    \<Rightarrow> ('w, ('a, check_lookup_error) result) io" where
  "lookup_before deadline stage m =
     bind_io (timeout_at deadline m) (\<lambda>r. ret (case r of
        None \<Rightarrow> Inl ClDeadline | Some x \<Rightarrow> map_err (ClCloudflare stage) x))"

definition inspect_check_record :: "'w env \<Rightarrow> cloudflare_client \<Rightarrow> record_config \<Rightarrow> instant \<Rightarrow> zone_proofs
    \<Rightarrow> ('w, zone_proofs \<times> (string \<times> dns_record option, check_lookup_error) result) io" where
  "inspect_check_record env client r deadline proofs =
     bind_io (lookup_before deadline FsZoneLookup (resolve_zone_id env client (zone r) (zone_id r))) (\<lambda>resolved.
       case resolved of
         Inl e \<Rightarrow> ret (proofs, Inl e)
       | Inr zid \<Rightarrow>
           bind_io (lookup_before deadline FsRecordLookup
               (find_record env client zid (record_type_str (record_type r)) (name r))) (\<lambda>found.
             ret (mark_resolved r zid proofs,
               case found of Inl e \<Rightarrow> Inl e | Inr existing \<Rightarrow> Inr (zid, existing))))"

definition probe_edit_permission :: "'w env \<Rightarrow> cloudflare_client \<Rightarrow> string \<Rightarrow> dns_record
    \<Rightarrow> ('w, (unit, cloudflare_error) result) io" where
  "probe_edit_permission env client zid existing =
     bind_ok (guarded (probe_record_edit env client zid existing)) (\<lambda>_. ret (Inr ()))"

text \<open>What a failed step does: it is recorded, and ends the check when the token is at fault.\<close>

definition step_failed :: "string \<Rightarrow> failure_stage \<Rightarrow> cloudflare_error \<Rightarrow> zone_proofs \<Rightarrow> check_report
    \<Rightarrow> bool \<times> zone_proofs \<times> check_report" where
  "step_failed target stage e proofs report =
     (is_authentication_failure e \<or> is_rate_limited e, proofs, push_check (cloudflare_failure target stage e) report)"

definition handle_existing_check_record :: "'w env \<Rightarrow> cloudflare_client \<Rightarrow> check_options \<Rightarrow> record_config
    \<Rightarrow> string \<Rightarrow> dns_record \<Rightarrow> zone_proofs \<Rightarrow> check_report \<Rightarrow> ('w, bool \<times> zone_proofs \<times> check_report) io" where
  "handle_existing_check_record env client options r zid existing proofs report0 =
     (let report = report0\<lparr>ck_existing := ck_existing report0 + 1\<rparr> in
      if \<not> co_allow_edit_probe options \<or> \<not> needs_proof proofs zid then ret (False, proofs, report)
      else bind_io get_sys (\<lambda>s.
        if \<not> mutation_can_finish_before env client (co_deadline options) s then
          ret (True, proofs, push_check check_deadline_failure report)
        else
          bind_io (probe_edit_permission env client zid existing) (\<lambda>outcome. ret (case outcome of
             Inr _ \<Rightarrow> (False, mark_proven zid proofs, report)
           | Inl e \<Rightarrow> step_failed (name r) FsEditPermission e proofs report))))"

definition handle_missing_check_record :: "'w env \<Rightarrow> cloudflare_client \<Rightarrow> discovered_addresses \<Rightarrow> check_options
    \<Rightarrow> record_config \<Rightarrow> string \<Rightarrow> zone_proofs \<Rightarrow> check_report \<Rightarrow> ('w, bool \<times> zone_proofs \<times> check_report) io" where
  "handle_missing_check_record env client addresses options r zid proofs report =
     (if \<not> create_if_missing r then
        ret (False, proofs, push_check (permanent_failure (name r) FsRecordLookup
          ''record does not exist and creation is disabled'') report)
      else if \<not> co_allow_create options then
        ret (False, proofs, report\<lparr>ck_creatable := ck_creatable report + 1\<rparr>)
      else
        (case address_for_record addresses r of
           Inl _ \<Rightarrow> ret (False, proofs, report)
         | Inr address \<Rightarrow>
             bind_io get_sys (\<lambda>s.
               if \<not> mutation_can_finish_before env client (co_deadline options) s then
                 ret (True, proofs, push_check check_deadline_failure report)
               else
                 bind_io (timeout_at (co_deadline options)
                     (find_record env client zid (rp_record_type (payload_for r address)) (rp_name (payload_for r address))))
                   (\<lambda>rechecked. case rechecked of
                      None \<Rightarrow> ret (True, proofs, push_check check_deadline_failure report)
                    | Some (Inl e) \<Rightarrow> ret (step_failed (name r) FsRecordLookup e proofs report)
                    | Some (Inr (Some existing)) \<Rightarrow>
                        handle_existing_check_record env client options r zid existing proofs report
                    | Some (Inr None) \<Rightarrow>
                        bind_io get_sys (\<lambda>s.
                          if \<not> mutation_can_finish_before env client (co_deadline options) s then
                            ret (True, proofs, push_check check_deadline_failure report)
                          else
                            bind_io (guarded (create_record env client zid (payload_for r address)))
                              (\<lambda>outcome. ret (case outcome of
                                 Inr _ \<Rightarrow> (False, mark_proven zid proofs, report\<lparr>ck_created := ck_created report + 1\<rparr>)
                               | Inl e \<Rightarrow> step_failed (name r) FsCreation e proofs report)))))))"

text \<open>The body of the loop; the flag says that the loop ends here.\<close>

definition check_record :: "'w env \<Rightarrow> cloudflare_client \<Rightarrow> discovered_addresses \<Rightarrow> check_options \<Rightarrow> record_config
    \<Rightarrow> zone_proofs \<Rightarrow> check_report \<Rightarrow> ('w, bool \<times> zone_proofs \<times> check_report) io" where
  "check_record env client addresses options r proofs report =
     bind_io (inspect_check_record env client r (co_deadline options) proofs) (\<lambda>(proofs', inspected).
       case inspected of
         Inl ClDeadline \<Rightarrow> ret (True, proofs', push_check check_deadline_failure report)
       | Inl (ClCloudflare stage e) \<Rightarrow> ret (step_failed (name r) stage e proofs' report)
       | Inr (zid, Some existing) \<Rightarrow>
           handle_existing_check_record env client options r zid existing proofs' report
       | Inr (zid, None) \<Rightarrow>
           handle_missing_check_record env client addresses options r zid proofs' report)"

fun check_loop :: "'w env \<Rightarrow> cloudflare_client \<Rightarrow> discovered_addresses \<Rightarrow> check_options \<Rightarrow> record_config list
    \<Rightarrow> zone_proofs \<Rightarrow> check_report \<Rightarrow> ('w, zone_proofs \<times> check_report) io" where
  "check_loop env client addresses options [] proofs report = ret (proofs, report)"
| "check_loop env client addresses options (r # rs) proofs report =
     bind_io (check_record env client addresses options r proofs report) (\<lambda>(abort, proofs', report').
       if abort then ret (proofs', report')
       else check_loop env client addresses options rs proofs' report')"

definition check_records :: "'w env \<Rightarrow> cloudflare_client \<Rightarrow> discovered_addresses \<Rightarrow> check_options \<Rightarrow> record_config list
    \<Rightarrow> zone_proofs \<Rightarrow> check_report \<Rightarrow> ('w, zone_proofs \<times> check_report) io" where
  "check_records env client addresses options rs proofs report =
     bind_io fresh_control (\<lambda>_. check_loop env client addresses options rs proofs report)"

definition check_until :: "'w env \<Rightarrow> (configured_zone list \<Rightarrow> configured_zone list) \<Rightarrow> updater \<Rightarrow> bool \<Rightarrow> bool
    \<Rightarrow> instant \<Rightarrow> ('w, check_report) io" where
  "check_until env order up allow_create allow_edit_probe deadline =
     (let c = up_config up; client = up_cloudflare up; report = empty_check_report (length (records c));
          proofs = proofs_for_config c;
          discovered = (\<lambda>report. bind_io (timeout_at deadline (discover_required_addresses env up)) (\<lambda>found.
            case found of
              None \<Rightarrow> ret (summarize_check_proofs proofs (push_check check_deadline_failure report))
            | Some addresses \<Rightarrow>
                bind_io (check_records env client addresses
                    \<lparr>co_allow_create = allow_create, co_allow_edit_probe = allow_edit_probe, co_deadline = deadline\<rparr>
                    (records c) proofs
                    (report\<lparr>ck_failures := ck_failures report @ discovery_failures addresses\<rparr>))
                  (\<lambda>(proofs', report'). ret (finalize_check_report order allow_edit_probe proofs' report'))))
      in bind_io (timeout_at deadline (verify_token env client)) (\<lambda>verified.
           case verified of
             None \<Rightarrow> ret (summarize_check_proofs proofs (push_check check_deadline_failure report))
           | Some (Inr _) \<Rightarrow> discovered (report\<lparr>ck_authenticated := True\<rparr>)
           | Some (Inl e) \<Rightarrow>
               let report' = push_check (cloudflare_failure ''Cloudflare API token'' FsAuthentication e) report in
               if is_authentication_failure e \<or> is_permission_denied e \<or> is_rate_limited e
               then ret (summarize_check_proofs proofs report')
               else discovered report'))"

text \<open>\<open>Updater::check\<close>, given what acquiring the runtime lock would return; a read-only check does not ask.\<close>

definition check :: "'w env \<Rightarrow> (configured_zone list \<Rightarrow> configured_zone list)
    \<Rightarrow> (string list option, runtime_lock_error) result \<Rightarrow> updater \<Rightarrow> bool \<Rightarrow> bool \<Rightarrow> ('w, check_report) io" where
  "check env order lock up allow_create allow_edit_probe =
     (let continue = bind_io get_sys (\<lambda>s.
            check_until env order up allow_create allow_edit_probe (now env s + CHECK_TIMEOUT))
      in if allow_create \<or> allow_edit_probe then
           (case lock of
              Inl e \<Rightarrow> ret (push_check (coordination_failure e) (empty_check_report (length (records (up_config up)))))
            | Inr _ \<Rightarrow> continue)
         else continue)"

section \<open>Frames of the check\<close>

context read_frame
begin

lemma frame_lookup_before: "frame R m \<Longrightarrow> frame R (lookup_before deadline stage m)"
  unfolding lookup_before_def by (intro frame_intros)

lemma frame_inspect: "frame R (inspect_check_record env client r deadline proofs)"
  unfolding inspect_check_record_def
  by (auto intro!: frame_bind_io frame_lookup_before frame_resolve_zone_id frame_find_record frame_ret split: sum.split)

end

lemma find_record_matches:
  assumes "find_record env client zid rtype rname s = (Done (Inr (Some e)), s')"
  shows "record_matches rtype rname e"
proof -
  have scan: "scan_records rtype rname exact rs = Inr (Some e) \<Longrightarrow> (\<forall>x. exact = Some x \<longrightarrow> record_matches rtype rname x) \<Longrightarrow>
      record_matches rtype rname e" for exact rs e
    by (induction rs arbitrary: exact) (auto split: if_splits option.splits)
  have "record_pages env client zid rtype rname exact k s = (Done (Inr (Some e)), s') \<Longrightarrow>
      (\<forall>x. exact = Some x \<longrightarrow> record_matches rtype rname x) \<Longrightarrow> record_matches rtype rname e" for exact k s
  proof (induction k arbitrary: exact s)
    case 0
    then show ?case by (simp add: ret_def)
  next
    case (Suc k)
    obtain response :: "dns_record list api_response" and t where t: "(case scan_records rtype rname exact (ar_result response) of
            Inl e \<Rightarrow> ret (Inl e)
          | Inr exact' \<Rightarrow>
              if has_next_page (MAX_PAGES - k) (length (ar_result response)) RECORD_PAGE_SIZE (ar_result_info response)
              then record_pages env client zid rtype rname exact' k else ret (Inr exact')) t = (Done (Inr (Some e)), s')"
      using Suc.prems(1) by (auto simp: bind_ok_Done_iff)
    then obtain exact' where e': "scan_records rtype rname exact (ar_result response) = Inr exact'"
      by (cases "scan_records rtype rname exact (ar_result response)") (auto simp: ret_def)
    have "\<forall>x. exact' = Some x \<longrightarrow> record_matches rtype rname x"
      using scan e' Suc.prems(2) by blast
    then show ?case
      using t e' Suc.IH by (auto simp: ret_def split: if_splits)
  qed
  then show ?thesis
    using assms by (auto simp: find_record_def)
qed


lemma lookup_before_Inr:
  "lookup_before deadline stage m s = (Done (Inr a), s') \<Longrightarrow>
     \<exists>t. m (s\<lparr>timers := deadline # timers s\<rparr>) = (Done (Inr a), t)"
  by (auto simp: lookup_before_def timeout_at_def bind_io_def ret_def map_err_def
      split: prod.splits fut.splits option.splits sum.splits nat.splits)

lemma inspect_matches:
  assumes "inspect_check_record env client r deadline proofs s = (Done (proofs', Inr (zid, Some e)), s')"
  shows "record_matches (record_type_str (record_type r)) (name r) e"
  using assms
  by (auto simp: inspect_check_record_def bind_io_def ret_def split: prod.splits fut.splits sum.splits
      dest!: lookup_before_Inr find_record_matches)

section \<open>Changing requests of a check\<close>

text \<open>What every request of a check that can change DNS is like.\<close>

definition check_ok :: "cloudflare_client \<Rightarrow> discovered_addresses \<Rightarrow> check_options \<Rightarrow> record_config list \<Rightarrow> log_entry \<Rightarrow> bool" where
  "check_ok client addresses options rs e \<longleftrightarrow>
     (is_mutation (le_request e) \<longrightarrow> le_fate e = Replied \<and>
        le_start e + saturating_add (cc_request_timeout client) MUTATION_START_MARGIN \<le> co_deadline options \<and>
       (\<exists>r \<in> set rs. \<exists>zid.
          (co_allow_edit_probe options \<and> (\<exists>x. record_matches (record_type_str (record_type r)) (name r) x \<and>
             le_request e = probe_request client zid x)) \<or>
          (co_allow_create options \<and> create_if_missing r \<and>
             (\<exists>a. address_for_record addresses r = Inr a \<and> le_request e = create_request client zid (payload_for r a)))))"

lemma frame_top_fresh_control: "frame_top (\<lambda>_. adds P) fresh_control"
  by (rule frame_topI) (auto simp: fresh_control_def modify_sys_def intro: adds_same)

lemma gated_mutation:
  assumes "\<And>e. le_request e = q \<Longrightarrow> le_fate e = Replied \<Longrightarrow>
      le_start e + saturating_add (cc_request_timeout client) MUTATION_START_MARGIN \<le> deadline \<Longrightarrow> P e"
  shows "frame_top (\<lambda>_. adds P) (bind_io get_sys (\<lambda>s.
     if \<not> mutation_can_finish_before env client deadline s then ret x
     else bind_io (guarded (send_record env client q op zid)) (\<lambda>r. ret (f r))))"
proof (rule frame_topI)
  fix s y s'
  assume run: "bind_io get_sys (\<lambda>s. if \<not> mutation_can_finish_before env client deadline s then ret x
      else bind_io (guarded (send_record env client q op zid)) (\<lambda>r. ret (f r))) s = (y, s')"
    and s: "timers s = []"
  show "adds P s s' \<and> timers s' = []"
  proof (cases "mutation_can_finish_before env client deadline s")
    case False
    then show ?thesis using run s by (auto simp: async_simps intro: adds_same)
  next
    case True
    then obtain r where g: "guarded (send_record env client q op zid) s = (r, s')"
      using run [unfolded get_sys_apply] by (auto simp: bind_io_def ret_def split: prod.splits fut.splits)
    obtain e where e: "trace s' = e # trace s" "le_request e = q" "le_start e = now env s" "le_fate e = Replied"
      using guarded_send_record(5) [OF s g] by blast
    have "P e"
      using True e(3) by (intro assms [OF e(2,4)]) (auto simp: mutation_can_finish_before_def)
    then show ?thesis
      using e(1) guarded_send_record(2) [OF s g] by (auto intro!: addsI [of _ "[e]"])
  qed
qed

lemma frame_top_existing:
  assumes "r \<in> set rs" and "record_matches (record_type_str (record_type r)) (name r) existing"
  shows "frame_top (\<lambda>_. adds (check_ok client addresses options rs))
    (handle_existing_check_record env client options r zid existing proofs report)"
proof -
  have probe: "bind_io (probe_edit_permission env client zid existing) (\<lambda>outcome. ret (g outcome)) =
      bind_io (guarded (send_record env client (probe_request client zid existing) ''probing DNS edit permission'' zid))
        (\<lambda>r. ret (g (map_sum id (\<lambda>_. ()) r)))" for g :: "_ \<Rightarrow> 'b"
    by (rule ext) (auto simp: probe_edit_permission_def probe_record_edit_def bind_ok_def bind_io_def ret_def
        split: prod.split fut.split sum.split)
  show ?thesis
    unfolding handle_existing_check_record_def Let_def probe
    by (rule frame_top_if, simp add: frame_top_def ret_def adds_same)
       (rule gated_mutation, use assms in \<open>auto simp: check_ok_def\<close>)
qed


text \<open>The frame of the whole check is the one of a read-only operation, with the gated requests added.\<close>

interpretation check_frame: read_frame env "\<lambda>_. adds (check_ok client addresses options rs)"
  for env :: "'w env" and client addresses options rs
  by (rule adds_read_frame) (simp add: check_ok_def)

lemma check_read_top:
  "frame (\<lambda>_. adds (check_ok client addresses options rs)) m \<Longrightarrow> frame (\<lambda>_. same_timers) m \<Longrightarrow>
     frame_top (\<lambda>_. adds (check_ok client addresses options rs)) m"
  by (rule frame_top_read)

lemma timeout_find_matches:
  "timeout_at deadline (find_record env client zid rtype rname) s = (Done (Some (Inr (Some e))), s') \<Longrightarrow>
     record_matches rtype rname e"
  by (erule timeout_at_Done) (rule find_record_matches)

lemma frame_top_missing:
  assumes "r \<in> set rs"
  shows "frame_top (\<lambda>_. adds (check_ok client addresses options rs))
    (handle_missing_check_record env client addresses options r zid proofs report)"
proof -
  let ?F = "frame_top (\<lambda>_. adds (check_ok client addresses options rs))"
  have find: "?F (timeout_at (co_deadline options) (find_record env client zid rtype rname))" for rtype rname
    by (intro frame_top_read check_frame.frame_timeout_at check_frame.frame_find_record
        timers_frame.frame_timeout_at timers_frame.frame_find_record)
  have create: "?F (bind_io get_sys (\<lambda>s.
      if \<not> mutation_can_finish_before env client (co_deadline options) s then
        ret (True, proofs, push_check check_deadline_failure report)
      else bind_io (guarded (create_record env client zid (payload_for r address))) (\<lambda>outcome. ret (g outcome))))"
    if "address_for_record addresses r = Inr address" "co_allow_create options" "create_if_missing r" for address g
    unfolding create_record_def by (rule gated_mutation) (use assms that in \<open>auto simp: check_ok_def\<close>)
  have recheck: "?F (case rechecked of
        None \<Rightarrow> ret (True, proofs, push_check check_deadline_failure report)
      | Some (Inl e) \<Rightarrow> ret (step_failed (name r) FsRecordLookup e proofs report)
      | Some (Inr (Some existing)) \<Rightarrow> handle_existing_check_record env client options r zid existing proofs report
      | Some (Inr None) \<Rightarrow> bind_io get_sys (\<lambda>s.
          if \<not> mutation_can_finish_before env client (co_deadline options) s then
            ret (True, proofs, push_check check_deadline_failure report)
          else bind_io (guarded (create_record env client zid (payload_for r address)))
            (\<lambda>outcome. ret (g outcome))))"
    if "address_for_record addresses r = Inr address" "co_allow_create options" "create_if_missing r"
      "\<forall>existing. rechecked = Some (Inr (Some existing)) \<longrightarrow> record_matches (record_type_str (record_type r)) (name r) existing"
    for address rechecked g
    using frame_top_existing [OF assms] create [OF that(1-3)] that(4)
    by (auto intro: check_frame.top_ret split: option.split sum.split)
  show ?thesis
    unfolding handle_missing_check_record_def
    by (auto intro!: frame_top_if check_frame.top_ret frame_top_get_sys find recheck timeout_find_matches
        check_frame.top_bind_post [where Q = "\<lambda>x. \<forall>e. x = Some (Inr (Some e)) \<longrightarrow>
          record_matches (record_type_str (record_type r)) (name r) e"]
        simp: payload_for_def split: sum.split)
qed

lemma frame_top_check_record:
  assumes "r \<in> set rs"
  shows "frame_top (\<lambda>_. adds (check_ok client addresses options rs))
    (check_record env client addresses options r proofs report)"
  unfolding check_record_def
proof (rule check_frame.top_bind_post [where Q = "\<lambda>(p, x). \<forall>zid e. x = Inr (zid, Some e) \<longrightarrow>
      record_matches (record_type_str (record_type r)) (name r) e"])
  show "frame_top (\<lambda>_. adds (check_ok client addresses options rs))
      (inspect_check_record env client r (co_deadline options) proofs)"
    by (intro frame_top_read check_frame.frame_inspect timers_frame.frame_inspect)
qed (auto intro: inspect_matches check_frame.top_ret frame_top_existing [OF assms] frame_top_missing [OF assms]
    split: sum.split check_lookup_error.split option.split prod.split)

lemma frame_top_check_loop:
  "set rs \<subseteq> set all \<Longrightarrow> frame_top (\<lambda>_. adds (check_ok client addresses options all))
     (check_loop env client addresses options rs proofs report)"
  by (induction rs arbitrary: proofs report)
     (auto intro!: check_frame.top_ret check_frame.top_bind_io frame_top_check_record split: prod.split)


context read_frame
begin

lemma frame_read_only_check_record:
  assumes "\<not> co_allow_create options" and "\<not> co_allow_edit_probe options"
  shows "frame R (check_record env client addresses options r proofs report)"
  unfolding check_record_def
  by (auto intro!: frame_bind_io frame_inspect frame_ret
      simp: assms handle_existing_check_record_def handle_missing_check_record_def Let_def
      split: prod.split sum.split check_lookup_error.split option.split)

lemma frame_read_only_check_loop:
  assumes "\<not> co_allow_create options" and "\<not> co_allow_edit_probe options"
  shows "frame R (check_loop env client addresses options rs proofs report)"
  by (induction rs arbitrary: proofs report)
     (auto intro!: frame_bind_io frame_read_only_check_record [OF assms] frame_ret split: prod.split)

end

section \<open>The whole check\<close>

text \<open>The part of the check after the verification of the token.\<close>

lemma check_discovery_cases:
  assumes "bind_io (timeout_at deadline (discover_required_addresses env up)) (\<lambda>found.
       case found of
         None \<Rightarrow> ret (summarize_check_proofs proofs (push_check check_deadline_failure report1))
       | Some addresses \<Rightarrow> bind_io (f addresses)
           (\<lambda>(proofs', report'). ret (finalize_check_report order allow_edit_probe proofs' report'))) t = (x, s')"
  obtains (late) y where "timeout_at deadline (discover_required_addresses env up) t = (y, s')"
      "\<And>report. x = Done report \<Longrightarrow> ck_failures report \<noteq> []"
    | (run) addresses t' y where "timeout_at deadline (discover_required_addresses env up) t = (Done (Some addresses), t')"
      "addresses_ok up addresses" "f addresses t' = (y, s')"
      "\<And>report. x = Done report \<longleftrightarrow> (\<exists>proofs' report'. y = Done (proofs', report') \<and>
         report = finalize_check_report order allow_edit_probe proofs' report')"
proof -
  obtain d t' where d: "timeout_at deadline (discover_required_addresses env up) t = (d, t')"
    by (cases "timeout_at deadline (discover_required_addresses env up) t")
  show ?thesis
  proof (cases "\<exists>addresses. d = Done (Some addresses)")
    case False
    then have "s' = t'" "\<And>report. x = Done report \<Longrightarrow> ck_failures report \<noteq> []"
      using assms d
      by (auto simp: bind_io_def ret_def summarize_check_proofs_def push_check_def split: fut.splits option.splits)
    then show ?thesis using late d by blast
  next
    case True
    then obtain addresses where a: "d = Done (Some addresses)" by blast
    then have addr: "addresses_ok up addresses"
      using d by (auto elim!: timeout_at_Done dest: discover_required_ok)
    obtain y u where y: "f addresses t' = (y, u)" by (cases "f addresses t'")
    have out: "u = s'" "\<And>report. x = Done report \<longleftrightarrow> (\<exists>proofs' report'. y = Done (proofs', report') \<and>
         report = finalize_check_report order allow_edit_probe proofs' report')"
      using assms d a y by (auto simp: bind_io_def ret_def split: fut.splits prod.splits)
    show ?thesis
      by (rule run [OF d [unfolded a] addr y [unfolded out(1)] out(2)])
  qed
qed

lemma check_until_cases:
  assumes "check_until env order up allow_create allow_edit_probe deadline s = (x, s')"
  obtains (early) y where "timeout_at deadline (verify_token env (up_cloudflare up)) s = (y, s')"
      "\<And>report. x = Done report \<Longrightarrow> ck_failures report \<noteq> []"
    | (late) verified y t where "timeout_at deadline (verify_token env (up_cloudflare up)) s = (verified, t)"
      "timeout_at deadline (discover_required_addresses env up) t = (y, s')"
      "\<And>report. x = Done report \<Longrightarrow> ck_failures report \<noteq> []"
    | (run) verified t addresses t' report0 y where
      "timeout_at deadline (verify_token env (up_cloudflare up)) s = (Done (Some verified), t)"
      "timeout_at deadline (discover_required_addresses env up) t = (Done (Some addresses), t')"
      "addresses_ok up addresses"
      "ck_failures report0 = (case verified of Inr _ \<Rightarrow> [] | Inl e \<Rightarrow> [cloudflare_failure ''Cloudflare API token'' FsAuthentication e])
         @ discovery_failures addresses"
      "check_records env (up_cloudflare up) addresses
         \<lparr>co_allow_create = allow_create, co_allow_edit_probe = allow_edit_probe, co_deadline = deadline\<rparr>
         (records (up_config up)) (proofs_for_config (up_config up)) report0 t' = (y, s')"
      "\<And>report. x = Done report \<longleftrightarrow> (\<exists>proofs' report'. y = Done (proofs', report') \<and>
         report = finalize_check_report order allow_edit_probe proofs' report')"
proof -
  let ?c = "up_config up" and ?m = "timeout_at deadline (verify_token env (up_cloudflare up))"
  let ?report = "empty_check_report (length (records ?c))"
  let ?run = "\<lambda>report addresses. check_records env (up_cloudflare up) addresses
      \<lparr>co_allow_create = allow_create, co_allow_edit_probe = allow_edit_probe, co_deadline = deadline\<rparr>
      (records ?c) (proofs_for_config ?c) (report\<lparr>ck_failures := ck_failures report @ discovery_failures addresses\<rparr>)"
  obtain v t where v: "?m s = (v, t)" by (cases "?m s")
  define report1 where "report1 = (case v of Done (Some (Inl e)) \<Rightarrow>
      push_check (cloudflare_failure ''Cloudflare API token'' FsAuthentication e) ?report
    | _ \<Rightarrow> ?report\<lparr>ck_authenticated := True\<rparr>)"
  note step = assms [unfolded check_until_def Let_def] and late_case = late and run_case = run
  show ?thesis
  proof (cases "\<exists>verified. v = Done (Some verified) \<and> (\<forall>e. verified = Inl e \<longrightarrow>
      \<not> (is_authentication_failure e \<or> is_permission_denied e \<or> is_rate_limited e))")
    case False
    then have "s' = t" "\<And>report. x = Done report \<Longrightarrow> ck_failures report \<noteq> []"
      using step v
      by (auto simp: bind_io_def ret_def summarize_check_proofs_def push_check_def
          split: fut.splits option.splits sum.splits if_splits)
    then show ?thesis using early v by blast
  next
    case True
    then obtain verified where ok: "v = Done (Some verified)"
      "\<And>e. verified = Inl e \<Longrightarrow> \<not> is_authentication_failure e \<and> \<not> is_permission_denied e \<and> \<not> is_rate_limited e"
      by blast
    have go: "bind_io (timeout_at deadline (discover_required_addresses env up)) (\<lambda>found.
            case found of
              None \<Rightarrow> ret (summarize_check_proofs (proofs_for_config ?c) (push_check check_deadline_failure report1))
            | Some addresses \<Rightarrow> bind_io (?run report1 addresses)
                  (\<lambda>(proofs', report'). ret (finalize_check_report order allow_edit_probe proofs' report'))) t = (x, s')"
      using step v ok by (cases verified) (auto simp: bind_io_DoneI report1_def cong del: option.case_cong_weak)
    then show ?thesis
    proof (cases rule: check_discovery_cases)
      case (late y)
      then show ?thesis using late_case v by blast
    next
      case (run addresses t' y)
      have "ck_failures (report1\<lparr>ck_failures := ck_failures report1 @ discovery_failures addresses\<rparr>) =
          (case verified of Inr _ \<Rightarrow> [] | Inl e \<Rightarrow> [cloudflare_failure ''Cloudflare API token'' FsAuthentication e])
          @ discovery_failures addresses"
        using ok(1) by (auto simp: report1_def push_check_def empty_check_report_def split: sum.split)
      then show ?thesis
        by (rule run_case [OF v [unfolded ok(1)] run(1,2) _ run(3,4)])
    qed
  qed
qed

lemma verify_timeout_frames:
  assumes "timeout_at deadline (verify_token env client) s = (x, t)"
  shows "timers t = timers s" and "reads_only s t"
  using frameD [OF timers_frame.frame_timeout_at [OF timers_frame.frame_verify_token] assms]
    frameD [OF reads_frame.frame_timeout_at [OF reads_frame.frame_verify_token] assms]
  by (simp_all add: same_timers_def)

lemma reads_only_check_ok: "reads_only s s' \<Longrightarrow> adds (check_ok client addresses options rs) s s'"
  by (auto simp: reads_only_def adds_def check_ok_def)

lemma check_ok_public:
  assumes "check_ok client addresses options rs e" and "addresses_ok up addresses" and "is_mutation (le_request e)"
  shows "le_fate e = Replied"
    and "le_start e + saturating_add (cc_request_timeout client) MUTATION_START_MARGIN \<le> co_deadline options"
    and "\<exists>r \<in> set rs. \<exists>zid.
          (co_allow_edit_probe options \<and> (\<exists>x. record_matches (record_type_str (record_type r)) (name r) x \<and>
             le_request e = probe_request client zid x)) \<or>
          (co_allow_create options \<and> create_if_missing r \<and> (\<exists>a. is_public_address a \<and>
             family_matches (record_family (record_type r)) a \<and>
             le_request e = create_request client zid (payload_for r a)))"
  using assms address_for_record_public [OF assms(2)] unfolding check_ok_def by (simp_all, blast)

text \<open>
  C19: what a check may change. Whatever happens during a check that is not itself under a
  timeout, every request that can change DNS is either an edit probe, sent only if the caller
  allowed it, which repeats type, name and TTL of the record that the API returned for a
  configured record; or the creation of a configured record that permits it, with a public
  address of its family, sent only if the caller allowed it. It is started at least the request
  timeout and one second before the deadline and always awaited until its reply.
\<close>

theorem check_writes_safe:
  assumes "timers s = []"
  shows "\<exists>new. trace (snd (check_until env order up allow_create allow_edit_probe deadline s)) = new @ trace s \<and>
    (\<forall>e \<in> set new. is_mutation (le_request e) \<longrightarrow> le_fate e = Replied \<and>
       le_start e + saturating_add (cc_request_timeout (up_cloudflare up)) MUTATION_START_MARGIN \<le> deadline \<and>
       (\<exists>r \<in> set (records (up_config up)). \<exists>zid.
          (allow_edit_probe \<and> (\<exists>x. record_matches (record_type_str (record_type r)) (name r) x \<and>
             le_request e = probe_request (up_cloudflare up) zid x)) \<or>
          (allow_create \<and> create_if_missing r \<and> (\<exists>a. is_public_address a \<and>
             family_matches (record_family (record_type r)) a \<and>
             le_request e = create_request (up_cloudflare up) zid (payload_for r a)))))"
proof -
  obtain x s' where r: "check_until env order up allow_create allow_edit_probe deadline s = (x, s')"
    by (cases "check_until env order up allow_create allow_edit_probe deadline s")
  have reads: ?thesis if "reads_only s s'"
    using that r by (auto simp: reads_only_def adds_def)
  have trans: "reads_only a b \<Longrightarrow> reads_only b c \<Longrightarrow> reads_only a c" for a b c :: "'a sys"
    unfolding reads_only_def by (rule adds_trans)
  from r show ?thesis
  proof (cases rule: check_until_cases)
    case (early y)
    then show ?thesis using reads verify_timeout_frames(2) by blast
  next
    case (late verified y t)
    then show ?thesis
      using reads [OF trans [OF verify_timeout_frames(2) [OF late(1)] discovery_timeout_frames(2) [OF late(2)]]] by blast
  next
    case (run verified t addresses t' report0 y)
    let ?o = "\<lparr>co_allow_create = allow_create, co_allow_edit_probe = allow_edit_probe, co_deadline = deadline\<rparr>"
    let ?P = "check_ok (up_cloudflare up) addresses ?o (records (up_config up))"
    have "reads_only s t'" and t': "timers t' = []"
      using trans verify_timeout_frames [OF run(1)] discovery_timeout_frames(1,2) [OF run(2)] assms by auto
    moreover have "adds ?P t' s'"
      using frame_topD [OF check_frame.top_bind_io [OF frame_top_fresh_control frame_top_check_loop [OF order_refl]]
          run(5) [unfolded check_records_def] t'] by simp
    ultimately have "adds ?P s s'"
      using adds_trans reads_only_check_ok by blast
    then obtain new where "trace s' = new @ trace s" "\<forall>e \<in> set new. ?P e"
      by (rule addsE)
    then show ?thesis
      using r check_ok_public [of "up_cloudflare up" addresses ?o "records (up_config up)", OF _ run(3)] by auto
  qed
qed

lemma frame_check_reads: "frame (\<lambda>_. reads_only) (check env order lock up False False)"
proof -
  have control: "frame (\<lambda>_. reads_only) fresh_control"
    by (rule frameI) (auto simp: fresh_control_def modify_sys_def reads_only_def intro: adds_same)
  have "frame (\<lambda>_. reads_only) (check_until env order up False False deadline)" for deadline
    unfolding check_until_def check_records_def Let_def
    by (auto intro!: reads_frame.frame_bind_io reads_frame.frame_timeout_at reads_frame.frame_verify_token
        reads_frame.frame_discover_required reads_frame.frame_ret control reads_frame.frame_read_only_check_loop
        split: option.split sum.split)
  then show ?thesis
    unfolding check_def Let_def by (auto intro!: frame_get_sys)
qed

text \<open>
  Without the two permissions a check is read-only, also when it fails, is cut or dropped.
\<close>

lemma check_is_read_only:
  "reads_only s (snd (check env order lock up False False s))"
  using frame_check_reads [of env order lock up] by (simp add: frame_def)

section \<open>Zone proofs\<close>

text \<open>The invariant of the zone proofs: the keys of the resolved zones are expected, each once.\<close>

definition proofs_ok :: "zone_proofs \<Rightarrow> bool" where
  "proofs_ok p \<longleftrightarrow> distinct (zp_expected p) \<and> distinct (map fst (zp_resolved p)) \<and>
     fst ` set (zp_resolved p) \<subseteq> set (zp_expected p)"

definition zone_proved :: "zone_proofs \<Rightarrow> configured_zone \<Rightarrow> bool" where
  "zone_proved p z \<longleftrightarrow> (case map_of (zp_resolved p) z of Some zid \<Rightarrow> zid \<in> set (zp_proven_ids p) | None \<Rightarrow> False)"

lemma proofs_ok_start: "proofs_ok (proofs_for_config c)"
  by (simp add: proofs_ok_def proofs_for_config_def)

lemma proofs_ok_resolved:
  "proofs_ok p \<Longrightarrow> zone_for_record r \<in> set (zp_expected p) \<Longrightarrow> proofs_ok (mark_resolved r zid p)"
  by (auto simp: proofs_ok_def mark_resolved_def distinct_update AList.update_keys set_map [symmetric] simp del: set_map
      split: if_splits)

lemma proofs_ok_proven [simp]: "proofs_ok (mark_proven zid p) = proofs_ok p"
  by (simp add: proofs_ok_def mark_proven_def)

lemma proofs_complete_iff:
  assumes "proofs_ok p"
  shows "proofs_complete p \<longleftrightarrow> (\<forall>z \<in> set (zp_expected p). zone_proved p z)"
proof
  assume c: "proofs_complete p"
  have "length (map fst (zp_resolved p)) = length (zp_expected p)"
    using c by (simp add: proofs_complete_def)
  then have "card (set (map fst (zp_resolved p))) = card (set (zp_expected p))"
    using assms by (simp only: proofs_ok_def distinct_card)
  then have "set (map fst (zp_resolved p)) = set (zp_expected p)"
    using assms by (intro card_subset_eq) (auto simp: proofs_ok_def)
  then show "\<forall>z \<in> set (zp_expected p). zone_proved p z"
    using c assms by (auto simp: zone_proved_def proofs_complete_def proofs_ok_def list_all_iff split: option.split
        dest!: map_of_SomeD simp: map_of_eq_None_iff)
next
  assume all: "\<forall>z \<in> set (zp_expected p). zone_proved p z"
  then have "map_of (zp_resolved p) z \<noteq> None" if "z \<in> set (zp_expected p)" for z
    using that by (auto simp: zone_proved_def split: option.splits)
  then have dom: "set (zp_expected p) \<subseteq> set (map fst (zp_resolved p))"
    by (auto simp: map_of_eq_None_iff)
  then have eq: "set (map fst (zp_resolved p)) = set (zp_expected p)"
    using assms by (auto simp: proofs_ok_def)
  then have "length (map fst (zp_resolved p)) = length (zp_expected p)"
    using assms by (metis proofs_ok_def distinct_card)
  moreover have "zid \<in> set (zp_proven_ids p)" if "(z, zid) \<in> set (zp_resolved p)" for z zid
  proof -
    have "z \<in> set (zp_expected p)" "map_of (zp_resolved p) z = Some zid"
      using that eq assms by (force, simp add: proofs_ok_def)
    then show ?thesis using all by (auto simp: zone_proved_def)
  qed
  ultimately show "proofs_complete p"
    by (auto simp: proofs_complete_def list_all_iff)
qed

lemma or_insert_not_Nil [simp]: "or_insert k v m \<noteq> []"
  by (cases m) (auto split: if_splits)

lemma unverified_entry_id: "zone_proved p z \<Longrightarrow> unverified_entry p z m = m"
  by (auto simp: zone_proved_def unverified_entry_def split: option.splits)

lemma unverified_entry_new: "\<not> zone_proved p z \<Longrightarrow> unverified_entry p z m \<noteq> []"
  by (auto simp: zone_proved_def unverified_entry_def split: option.splits)

lemma unverified_entry_keeps: "m \<noteq> [] \<Longrightarrow> unverified_entry p z m \<noteq> []"
  by (auto simp: unverified_entry_def split: option.split)

lemma fold_unverified_keeps: "m \<noteq> [] \<Longrightarrow> fold (unverified_entry p) zs m \<noteq> []"
  by (induction zs arbitrary: m) (simp_all add: unverified_entry_keeps)

lemma fold_unverified_Nil: "fold (unverified_entry p) zs [] = [] \<longleftrightarrow> (\<forall>z \<in> set zs. zone_proved p z)"
proof (induction zs)
  case (Cons z zs)
  then show ?case
    using unverified_entry_id [of p z "[]"] fold_unverified_keeps [OF unverified_entry_new [of p z "[]"], of p zs]
    by (cases "zone_proved p z") auto
qed simp


text \<open>
  The two summaries of the zone proofs agree: the edit permission counts as verified exactly
  when no zone is reported as unverified, in whatever order the hash set is iterated; both hold
  exactly when each configured zone was resolved to an identifier that was proved.
\<close>

lemma unverified_targets_decide:
  assumes "proofs_ok p" and "set (order (zp_expected p)) = set (zp_expected p)"
  shows "(unverified_targets order p = [] \<longleftrightarrow> proofs_complete p) \<and>
    (proofs_complete p \<longleftrightarrow> (\<forall>z \<in> set (zp_expected p). \<exists>zid.
       map_of (zp_resolved p) z = Some zid \<and> zid \<in> set (zp_proven_ids p)))"
  using assms(2) proofs_complete_iff [OF assms(1)]
  by (auto simp: unverified_targets_def fold_unverified_Nil zone_proved_def split: option.splits)

lemma unverified_targets_decide_witness:
  "unverified_targets rev (proofs_for_config sample_config) \<noteq> []"
  using unverified_targets_decide [of "proofs_for_config sample_config" rev] proofs_ok_start [of sample_config]
  by (simp add: proofs_for_config_def sample_config_def)

section \<open>What a successful check has proved\<close>

text \<open>A changing request of a check in a zone, whose reply in the trace the client takes for a success.\<close>

definition zone_write :: "'w env \<Rightarrow> cloudflare_client \<Rightarrow> string \<Rightarrow> log_entry \<Rightarrow> bool" where
  "zone_write env client zid e \<longleftrightarrow>
     ((\<exists>x. le_request e = probe_request client zid x) \<or> (\<exists>payload. le_request e = create_request client zid payload)) \<and>
     (\<exists>outcome op response. le_reply e = Some outcome \<and>
        handle_response client (ev_json_record env) op outcome = Inr response)"

definition extends_proofs :: "'w env \<Rightarrow> cloudflare_client \<Rightarrow> record_config list \<Rightarrow> 'w sys \<Rightarrow> zone_proofs \<Rightarrow> 'w sys \<Rightarrow> zone_proofs \<Rightarrow> bool" where
  "extends_proofs env client rs s p s' p' \<longleftrightarrow>
     (\<exists>new. trace s' = new @ trace s \<and>
       (\<forall>zid \<in> set (zp_proven_ids p'). zid \<in> set (zp_proven_ids p) \<or> (\<exists>e \<in> set new. zone_write env client zid e))) \<and>
     zp_expected p' = zp_expected p \<and> (zone_for_record ` set rs \<subseteq> set (zp_expected p) \<longrightarrow> proofs_ok p \<longrightarrow> proofs_ok p')"

lemma extends_refl: "trace s' = new @ trace s \<Longrightarrow> extends_proofs env client rs s p s' p"
  by (auto simp: extends_proofs_def)

lemma extends_trans:
  assumes "extends_proofs env client rs s p t q" and "extends_proofs env client rs t q u r"
  shows "extends_proofs env client rs s p u r"
proof -
  from assms obtain n1 n2 where n: "trace t = n1 @ trace s" "trace u = n2 @ trace t"
    "\<forall>zid \<in> set (zp_proven_ids q). zid \<in> set (zp_proven_ids p) \<or> (\<exists>e \<in> set n1. zone_write env client zid e)"
    "\<forall>zid \<in> set (zp_proven_ids r). zid \<in> set (zp_proven_ids q) \<or> (\<exists>e \<in> set n2. zone_write env client zid e)"
    unfolding extends_proofs_def by blast
  then have "\<exists>new. trace u = new @ trace s \<and>
       (\<forall>zid \<in> set (zp_proven_ids r). zid \<in> set (zp_proven_ids p) \<or> (\<exists>e \<in> set new. zone_write env client zid e))"
    by (intro exI [of _ "n2 @ n1"]) auto
  moreover have "zp_expected r = zp_expected p" "zone_for_record ` set rs \<subseteq> set (zp_expected p) \<longrightarrow> proofs_ok p \<longrightarrow> proofs_ok r"
    using assms by (simp_all add: extends_proofs_def)
  ultimately show ?thesis
    unfolding extends_proofs_def by blast
qed

lemma extends_resolved:
  assumes "trace s' = new @ trace s" and "r \<in> set rs"
  shows "extends_proofs env client rs s p s' (mark_resolved r zid p)"
  using assms proofs_ok_resolved
  by (auto simp: extends_proofs_def mark_resolved_def)

lemma extends_written:
  assumes "timers s = []" and "guarded (send_record env client q op zid) s = (Done (Inr d), s')"
    and "(\<exists>x. q = probe_request client zid x) \<or> (\<exists>payload. q = create_request client zid payload)"
  shows "extends_proofs env client rs s p s' (mark_proven zid p)"
proof -
  obtain e where e: "trace s' = e # trace s" "le_request e = q"
    using guarded_send_record(5) [OF assms(1,2)] by blast
  obtain outcome t response where t: "await env q (set_in_flight True s) = (Done outcome, t)" "trace s' = trace t"
    "handle_response client (ev_json_record env) op outcome = Inr response"
    using assms(2)
    by (auto simp: guarded_def send_record_def send_in_zone_def send_def bind_ok_def bind_io_def ret_def
        split: prod.splits fut.splits sum.splits)
  have "le_reply e = Some outcome"
    using await_reply [OF t(1)] t(2) e(1) by auto
  then have "zone_write env client zid e"
    unfolding zone_write_def e(2) using assms(3) t(3) by blast
  then show ?thesis
    using e(1) by (auto simp: extends_proofs_def mark_proven_def proofs_ok_def intro!: exI [of _ "[e]"])
qed

lemma extends_reads: "reads_only s s' \<Longrightarrow> extends_proofs env client rs s p s' p"
  by (auto simp: reads_only_def elim!: addsE intro: extends_refl)

text \<open>A guarded write, accepted or not.\<close>

lemma guarded_extends:
  assumes "timers s = []" and "guarded (send_record env client q op zid) s = (Done res, s')"
    and "(\<exists>x. q = probe_request client zid x) \<or> (\<exists>payload. q = create_request client zid payload)"
  shows "extends_proofs env client rs s p s' (case res of Inr _ \<Rightarrow> mark_proven zid p | Inl _ \<Rightarrow> p)"
proof (cases res)
  case (Inl e)
  then show ?thesis
    using guarded_send_record(5) [OF assms(1,2)] by (auto intro: extends_refl [of _ "[_]"])
next
  case (Inr d)
  then show ?thesis using extends_written [OF assms(1) assms(2) [unfolded Inr] assms(3)] by simp
qed

lemma gated_create_extends:
  assumes "timers t = []"
    and "(if \<not> mutation_can_finish_before env client (co_deadline options) t
        then ret (True, p, push_check check_deadline_failure report)
        else bind_io (guarded (create_record env client zid payload))
          (\<lambda>outcome. ret (case outcome of
             Inr _ \<Rightarrow> (False, mark_proven zid p, report\<lparr>ck_created := ck_created report + 1\<rparr>)
           | Inl e \<Rightarrow> step_failed target FsCreation e p report))) t = (Done (abort, p', report'), s')"
  shows "extends_proofs env client rs t p s' p'"
proof (cases "mutation_can_finish_before env client (co_deadline options) t")
  case False
  then show ?thesis using assms(2) by (auto simp: ret_def intro: extends_refl [of _ "[]"])
next
  case True
  then obtain res where g: "guarded (create_record env client zid payload) t = (Done res, s')"
      "p' = (case res of Inr _ \<Rightarrow> mark_proven zid p | Inl _ \<Rightarrow> p)"
    using assms(2) by (auto simp: bind_io_def ret_def step_failed_def split: prod.splits fut.splits sum.splits)
  then show ?thesis
    using guarded_extends [OF assms(1) g(1) [unfolded create_record_def]] by blast
qed

lemma existing_extends:
  assumes "timers s = []"
    and "handle_existing_check_record env client options r zid existing p report s = (Done (abort, p', report'), s')"
  shows "extends_proofs env client rs s p s' p'"
proof (cases "\<not> co_allow_edit_probe options \<or> \<not> needs_proof p zid \<or>
    \<not> mutation_can_finish_before env client (co_deadline options) s")
  case True
  then have "p' = p" "s' = s"
    using assms(2) by (auto simp: handle_existing_check_record_def Let_def async_simps split: if_splits)
  then show ?thesis by (simp add: extends_refl [of _ "[]"])
next
  case False
  let ?g = "guarded (send_record env client (probe_request client zid existing) ''probing DNS edit permission'' zid)"
  have run: "bind_io (bind_ok ?g (\<lambda>_. ret (Inr ()))) (\<lambda>outcome. ret (case outcome of
      Inr _ \<Rightarrow> (False, mark_proven zid p, report\<lparr>ck_existing := ck_existing report + 1\<rparr>)
    | Inl e \<Rightarrow> step_failed (name r) FsEditPermission e p (report\<lparr>ck_existing := ck_existing report + 1\<rparr>))) s =
      (Done (abort, p', report'), s')"
    using assms(2) False
    by (simp add: handle_existing_check_record_def Let_def get_sys_apply probe_edit_permission_def probe_record_edit_def
        cong del: sum.case_cong_weak)
  obtain res where g: "?g s = (Done res, s')" "p' = (case res of Inr _ \<Rightarrow> mark_proven zid p | Inl _ \<Rightarrow> p)"
    using run by (auto simp: bind_io_def bind_ok_def ret_def step_failed_def split: prod.splits fut.splits sum.splits)
  show ?thesis
    unfolding g(2) by (rule guarded_extends [OF assms(1) g(1)]) blast
qed

lemma missing_extends:
  assumes "timers s = []"
    and "handle_missing_check_record env client addresses options r zid p report s = (Done (abort, p', report'), s')"
  shows "extends_proofs env client rs s p s' p'"
proof (cases "create_if_missing r \<and> co_allow_create options \<and> (\<exists>a. address_for_record addresses r = Inr a) \<and>
    mutation_can_finish_before env client (co_deadline options) s")
  case False
  then have "p' = p" "s' = s"
    using assms(2) by (auto simp: handle_missing_check_record_def get_sys_apply ret_def split: if_splits sum.splits)
  then show ?thesis by (simp add: extends_refl [of _ "[]"])
next
  case True
  then obtain a where a: "address_for_record addresses r = Inr a" by blast
  let ?find = "timeout_at (co_deadline options)
      (find_record env client zid (rp_record_type (payload_for r a)) (rp_name (payload_for r a)))"
  obtain y t where y: "?find s = (y, t)" by (cases "?find s")
  have t: "timers t = []" "extends_proofs env client rs s p t p"
    using frameD [OF timers_frame.frame_timeout_at [OF timers_frame.frame_find_record] y]
      frameD [OF reads_frame.frame_timeout_at [OF reads_frame.frame_find_record] y] assms(1) extends_reads
    by (simp_all add: same_timers_def)
  note step = assms(2) [unfolded handle_missing_check_record_def]
  consider (existing) e where "y = Done (Some (Inr (Some e)))" | (missing) "y = Done (Some (Inr None))"
    | (other) "\<nexists>e. y = Done (Some (Inr e))"
    by (metis option.exhaust)
  then show ?thesis
  proof cases
    case existing
    then have "handle_existing_check_record env client options r zid e p report t = (Done (abort, p', report'), s')"
      using step True a y by (simp add: get_sys_apply bind_io_DoneI)
    then show ?thesis using extends_trans [OF t(2) existing_extends [OF t(1)]] by blast
  next
    case missing
    show ?thesis
      by (rule extends_trans [OF t(2) gated_create_extends [OF t(1)]])
         (use step True a y missing in \<open>simp add: get_sys_apply bind_io_DoneI\<close>)
  next
    case other
    then have "p' = p" "s' = t"
      using step True a y
      by (auto simp: get_sys_def bind_io_def ret_def step_failed_def split: fut.splits option.splits sum.splits)
    then show ?thesis using t(2) by simp
  qed
qed


lemma inspect_extends:
  assumes "r \<in> set rs" and "inspect_check_record env client r deadline p s = (Done (p', x), s')"
  shows "extends_proofs env client rs s p s' p'"
proof -
  obtain new where new: "trace s' = new @ trace s"
    using frameD [OF reads_frame.frame_inspect assms(2)] by (auto simp: reads_only_def elim: addsE)
  have "p' = p \<or> (\<exists>zid. p' = mark_resolved r zid p)"
    using assms(2)
    by (auto simp: inspect_check_record_def bind_io_def ret_def split: prod.splits fut.splits sum.splits)
  then show ?thesis
    using extends_refl [OF new] extends_resolved [OF new assms(1)] by auto
qed

lemma check_record_extends:
  assumes "timers s = []" and "r \<in> set rs"
    and "check_record env client addresses options r p report s = (Done (abort, p', report'), s')"
  shows "extends_proofs env client rs s p s' p'"
proof -
  obtain q x t where q: "inspect_check_record env client r (co_deadline options) p s = (Done (q, x), t)"
    and rest: "(case x of
         Inl ClDeadline \<Rightarrow> ret (True, q, push_check check_deadline_failure report)
       | Inl (ClCloudflare stage e) \<Rightarrow> ret (step_failed (name r) stage e q report)
       | Inr (zid, Some existing) \<Rightarrow> handle_existing_check_record env client options r zid existing q report
       | Inr (zid, None) \<Rightarrow> handle_missing_check_record env client addresses options r zid q report) t =
      (Done (abort, p', report'), s')"
    using assms(3) by (auto simp: check_record_def bind_io_Done_iff)
  have t: "timers t = []"
    using frameD [OF timers_frame.frame_inspect q] assms(1) by (simp add: same_timers_def)
  have "extends_proofs env client rs t q s' p'"
    using rest existing_extends [OF t] missing_extends [OF t]
    by (auto simp: ret_def step_failed_def split: sum.splits check_lookup_error.splits prod.splits option.splits
        intro: extends_refl [of _ "[]"])
  then show ?thesis by (rule extends_trans [OF inspect_extends [OF assms(2) q]])
qed

lemma check_loop_extends:
  "check_loop env client addresses options rs p report s = (Done (p', report'), s') \<Longrightarrow> timers s = [] \<Longrightarrow>
     set rs \<subseteq> set all \<Longrightarrow> extends_proofs env client all s p s' p'"
proof (induction rs arbitrary: p report s)
  case Nil
  then show ?case by (simp add: ret_def extends_refl [of _ "[]"])
next
  case (Cons r rs)
  obtain abort q report1 t where q: "check_record env client addresses options r p report s = (Done (abort, q, report1), t)"
    "(if abort then ret (q, report1) else check_loop env client addresses options rs q report1) t = (Done (p', report'), s')"
    using Cons.prems(1) by (auto simp: bind_io_Done_iff)
  have t: "timers t = []"
    using frame_topD [OF frame_top_check_record q(1) Cons.prems(2), of "r # rs"] by simp
  have first: "extends_proofs env client all s p t q"
    using check_record_extends [OF Cons.prems(2) _ q(1), of all] Cons.prems(3) by simp
  show ?case
  proof (cases abort)
    case True
    then show ?thesis using q(2) first by (simp add: ret_def)
  next
    case False
    then show ?thesis
      using extends_trans [OF first Cons.IH [OF _ t]] q(2) Cons.prems(3) by simp
  qed
qed

lemma fold_push_check:
  "ck_failures (fold (\<lambda>x. push_check (f x)) xs report) = ck_failures report @ map f xs"
  "ck_edit_permission_verified (fold (\<lambda>x. push_check (f x)) xs report) = ck_edit_permission_verified report"
  by (induction xs arbitrary: report) (simp_all add: push_check_def)

section \<open>A sample check\<close>

abbreviation probe_deadline :: instant where
  "probe_deadline \<equiv> from_secs 100"

lemma home_verifies:
  assumes "\<not> listening s"
  shows "\<exists>t. verify_token (home_service rs) sample_client s = (Done (Inr ()), t) \<and> zone_cache t = zone_cache s
    \<and> \<not> listening t"
proof -
  have "handle_response sample_client (ev_json_token (home_service rs)) op (Inr (ok_response ''{}'')) =
      Inr \<lparr>ar_result = \<lparr>tv_status = ''active''\<rparr>, ar_result_info = Some \<lparr>ri_total_pages = Some 1\<rparr>\<rparr>" for op
    by (rule handle_ok_response) (simp add: home_service_def)
  then show ?thesis
    using assms
    by (simp add: verify_token_def send_def home_service_await get_request_def verify_endpoint_def endpoint_def Let_def
        sample_client_def bind_io_def ret_def)
qed

lemma home_inspects:
  assumes "zone_cache s (named_key ''example.com'') = Some ''z1''"
  shows "\<exists>t. inspect_check_record (home_service [sample_dns_record]) sample_client sample_record probe_deadline p s =
    (Done (mark_resolved sample_record ''z1'' p, Inr (''z1'', Some sample_dns_record)), t)"
proof -
  let ?s = "s\<lparr>timers := probe_deadline # timers s\<rparr>"
  have r: "resolve_zone_id (home_service [sample_dns_record]) sample_client ''example.com'' None ?s = (Done (Inr ''z1''), ?s)"
    by (rule resolve_zone_id_hit) (use assms in simp)
  obtain t where "find_record (home_service [sample_dns_record]) sample_client ''z1'' ''A'' ''home.example.com'' ?s =
      (Done (Inr (Some sample_dns_record)), t)"
    using find_record_served [OF home_service_serves [of "[sample_dns_record]" sample_client "''z1''"
        "''A''" "''home.example.com''"], of ?s] home_record_matches
    by (auto simp: MAX_PAGES_def)
  then show ?thesis
    using r
    by (simp add: inspect_check_record_def sample_record_def lookup_before_def timeout_at_def bind_io_def ret_def map_err_def)
qed

lemma home_probe_accepted:
  "\<exists>t. guarded (probe_record_edit (home_service rs) sample_client zid x) s = (Done (Inr sample_dns_record), t)"
proof -
  have "handle_response sample_client (ev_json_record (home_service rs)) op (Inr (ok_response ''{}'')) =
      Inr \<lparr>ar_result = sample_dns_record, ar_result_info = Some \<lparr>ri_total_pages = Some 1\<rparr>\<rparr>" for op
    by (rule handle_ok_response) (simp add: home_service_def sample_service_def)
  then show ?thesis
    by (simp add: guarded_def probe_record_edit_def send_record_def send_in_zone_def send_def home_service_await
        probe_request_def json_request_def endpoint_def Let_def bind_ok_def bind_io_def ret_def)
qed

lemma home_probe_in_time: "mutation_can_finish_before (home_service rs) sample_client probe_deadline s"
  by (simp add: mutation_can_finish_before_def saturating_add_def sample_client_def MUTATION_START_MARGIN_def
      from_secs_def nanos_per_sec_def)

lemma home_check:
  "\<exists>report s'. check_until (home_service [sample_dns_record]) rev home_updater False True probe_deadline home_sys =
    (Done report, s') \<and> check_success report"
proof -
  let ?env = "home_service [sample_dns_record]"
  obtain t where t: "timeout_at probe_deadline (verify_token ?env sample_client) home_sys = (Done (Some (Inr ())), t)"
    "zone_cache t = zone_cache home_sys" "\<not> listening t"
    using home_verifies [of "home_sys\<lparr>timers := [probe_deadline]\<rparr>" "[sample_dns_record]"]
    by (auto simp: timeout_at_def home_sys_def)
  obtain t' where t': "timeout_at probe_deadline (discover_required_addresses ?env home_updater) t =
      (Done (Some \<lparr>da_ipv4 = Some (Inr home_address), da_ipv6 = None\<rparr>), t')" "zone_cache t' = zone_cache home_sys"
    using home_required_addresses [of "t\<lparr>timers := probe_deadline # timers t\<rparr>" "[sample_dns_record]"] t(2,3)
    by (auto simp: timeout_at_def)
  let ?u = "t'\<lparr>control := \<lparr>stop_requested = False, mutation_in_flight = False\<rparr>\<rparr>" and ?p = "proofs_for_config sample_config"
  obtain u where u: "inspect_check_record ?env sample_client sample_record probe_deadline ?p ?u =
      (Done (mark_resolved sample_record ''z1'' ?p, Inr (''z1'', Some sample_dns_record)), u)"
    using home_inspects [of ?u ?p] t'(2) by (auto simp: home_sys_def)
  obtain v where v: "guarded (probe_record_edit ?env sample_client ''z1'' sample_dns_record) u = (Done (Inr sample_dns_record), v)"
    using home_probe_accepted by blast
  show ?thesis
    using t(1) t'(1) u v home_probe_in_time
    by (simp add: check_until_def Let_def home_updater_def sample_config_def bind_io_def check_records_def
        fresh_control_def modify_sys_def check_record_def handle_existing_check_record_def needs_proof_def
        mark_resolved_def proofs_for_config_def get_sys_def probe_edit_permission_def bind_ok_def ret_def
        mark_proven_def finalize_check_report_def summarize_check_proofs_def unverified_targets_def
        unverified_entry_def proofs_complete_def verified_count_def check_success_def empty_check_report_def
        discovery_failures_def)
qed

theorem check_writes_safe_witness:
  "\<exists>new. trace (snd (check_until (home_service [sample_dns_record]) rev home_updater False True probe_deadline home_sys)) = new \<and>
    (\<forall>e \<in> set new. is_mutation (le_request e) \<longrightarrow> le_fate e = Replied)"
  using check_writes_safe [of home_sys "home_service [sample_dns_record]" rev home_updater False True probe_deadline]
  by auto

end
