(* ===== verification/Daemon.thy ===== *)
theory Daemon
  imports Updater
begin

unbundle bit_operations_syntax

text \<open>
  \<open>daemon.rs\<close>: the retry policy and the synchronisation loop. The loop is a state machine: it
  waits for its delay, runs a cycle, and computes the next delay; the shutdown signal ends it
  while it waits, before a cycle starts, or inside a cycle at one of its suspension points.
\<close>

section \<open>Retry policy\<close>

definition INITIAL_BACKOFF :: duration where "INITIAL_BACKOFF = from_secs 5"
definition MAX_BACKOFF :: duration where "MAX_BACKOFF = from_secs 300"

text \<open>The saturating operations on \<open>u64\<close> and \<open>u32\<close>.\<close>

definition saturating_mul_u64 :: "nat \<Rightarrow> nat \<Rightarrow> nat" where
  "saturating_mul_u64 a b = min (a * b) (2 ^ 64 - 1)"

definition saturating_sub_u32 :: "u32 \<Rightarrow> u32 \<Rightarrow> u32" where
  "saturating_sub_u32 a b = (if a < b then 0 else a - b)"

definition saturating_inc_u32 :: "u32 \<Rightarrow> u32" where
  "saturating_inc_u32 a = (if a = - 1 then a else a + 1)"

text \<open>\<open>Ord::clamp\<close> on \<open>u16\<close>\<close>

definition clamp_u16 :: "u16 \<Rightarrow> u16 \<Rightarrow> u16 \<Rightarrow> u16" where
  "clamp_u16 x low high = (if x < low then low else if high < x then high else x)"

definition calculate_backoff :: "u32 \<Rightarrow> duration \<Rightarrow> duration \<Rightarrow> u16 \<Rightarrow> duration" where
  "calculate_backoff consecutive_failures initial maximum jitter_percent =
     (let exponent = min (unat (saturating_sub_u32 consecutive_failures 1)) 31;
          multiplier = 2 ^ exponent;
          uncapped_seconds = saturating_mul_u64 (as_secs initial) multiplier;
          capped_seconds = min uncapped_seconds (as_secs maximum);
          jitter = unat (clamp_u16 jitter_percent 50 100);
          jittered_seconds = saturating_mul_u64 capped_seconds jitter div 100
      in from_secs (min (max jittered_seconds 1) (as_secs maximum)))"

definition backoff_delay :: "u32 \<Rightarrow> u16 \<Rightarrow> duration" where
  "backoff_delay consecutive_failures jitter_percent =
     calculate_backoff consecutive_failures INITIAL_BACKOFF MAX_BACKOFF jitter_percent"

definition retry_delay :: "cycle_report \<Rightarrow> u32 \<Rightarrow> duration \<Rightarrow> u16 \<Rightarrow> duration" where
  "retry_delay report consecutive_failures period jitter_percent =
     (let policy_delay =
        (if has_authentication_failure report then MAX_BACKOFF
         else if has_retryable_failure report then backoff_delay consecutive_failures jitter_percent
         else period)
      in case report_retry_after report of None \<Rightarrow> policy_delay | Some d \<Rightarrow> max policy_delay d)"

section \<open>The surroundings of the loop\<close>

text \<open>
  What the loop asks of the runtime besides a cycle: the outcome of waiting for a delay (the
  signal's result if it resolves first), the signal's result if it has resolved when a cycle is
  about to start, the time since the epoch in seconds and nanoseconds (if after it), and the
  process identifier.
\<close>

record 'w host =
  ho_env :: "'w env"
  ho_sleep :: "duration \<Rightarrow> 'w \<Rightarrow> string option option \<times> 'w"
  ho_ready :: "'w \<Rightarrow> (string option \<times> 'w) option"
  ho_time :: "'w \<Rightarrow> (u64 \<times> u32) option"
  ho_pid :: u32

definition JITTER_COUNTER :: u64 where "JITTER_COUNTER = 0x9e3779b97f4a7c15"

definition jitter_mix :: "u64 \<Rightarrow> u64" where
  "jitter_mix m0 =
     (let m1 = m0 XOR drop_bit 30 m0;
          m2 = m1 * 0xbf58476d1ce4e5b9;
          m3 = m2 XOR drop_bit 27 m2;
          m4 = m3 * 0x94d049bb133111eb
      in m4 XOR drop_bit 31 m4)"

text \<open>The percentage and the new value of the process-wide counter.\<close>

definition jitter_percent :: "'w host \<Rightarrow> 'w \<Rightarrow> u64 \<Rightarrow> u16 \<times> u64" where
  "jitter_percent h w counter =
     (let timestamp = (case ho_time h w of None \<Rightarrow> 0 | Some (secs, nanos) \<Rightarrow> secs XOR ucast nanos);
          mixed = jitter_mix (timestamp XOR counter XOR ucast (ho_pid h));
          percent = 50 + mixed mod 51
      in (if unat percent < 2 ^ 16 then ucast percent else 75, counter + 0x9e3779b97f4a7c15))"

section \<open>The loop\<close>

datatype daemon_error = DaemonRuntimeLock string | DaemonSignal string

fun daemon_error_text :: "daemon_error \<Rightarrow> string" where
  "daemon_error_text (DaemonRuntimeLock message) = ''could not acquire the exclusive runtime lock: '' @ message"
| "daemon_error_text (DaemonSignal message) = ''could not wait for a shutdown signal: '' @ message"

text \<open>\<open>signal_result.map_err(DaemonError::Signal)\<close>\<close>

definition signal_result :: "string option \<Rightarrow> (unit, daemon_error) result" where
  "signal_result res = (case res of None \<Rightarrow> Inr () | Some message \<Rightarrow> Inl (DaemonSignal message))"

record daemon_state =
  ds_next_delay :: duration
  ds_failures :: u32
  ds_jitter :: u64

definition first_state :: "u64 \<Rightarrow> daemon_state" where
  "first_state jitter = \<lparr>ds_next_delay = 0, ds_failures = 0, ds_jitter = jitter\<rparr>"

text \<open>The end of an iteration.\<close>

definition after_cycle :: "'w host \<Rightarrow> 'w \<Rightarrow> duration \<Rightarrow> cycle_report \<Rightarrow> daemon_state \<Rightarrow> daemon_state" where
  "after_cycle h w period report st =
     (if cycle_success report then st\<lparr>ds_failures := 0, ds_next_delay := period\<rparr>
      else
        let failures = saturating_inc_u32 (ds_failures st) in
        case jitter_percent h w (ds_jitter st) of (percent, counter) \<Rightarrow>
          \<lparr>ds_next_delay = retry_delay report failures period percent, ds_failures = failures, ds_jitter = counter\<rparr>)"

text \<open>\<open>log_discovery_failures\<close>: the pairs of target and message it warns about.\<close>

definition log_discovery_failures :: "cycle_report \<Rightarrow> (string \<times> string) list" where
  "log_discovery_failures report =
     map (\<lambda>f. (cf_target f, cf_message f)) (filter (\<lambda>f. cf_stage f = FsDiscovery) (cr_failures report))"

text \<open>A fresh control block; the select now polls the signal beside the cycle.\<close>

definition begin_cycle :: "'w sys \<Rightarrow> 'w sys" where
  "begin_cycle s = s\<lparr>control := \<lparr>stop_requested = False, mutation_in_flight = False\<rparr>,
     listening := True, shutdown := None\<rparr>"

datatype daemon_phase = Waiting daemon_state | Cycling daemon_state | Returned "(unit, daemon_error) result"

text \<open>One step of the loop; \<open>None\<close> when there is none.\<close>

fun daemon_next :: "'w host \<Rightarrow> updater \<Rightarrow> daemon_phase \<times> 'w sys \<Rightarrow> (daemon_phase \<times> 'w sys) option" where
  "daemon_next h up (Waiting st, s) =
     (if ds_next_delay st = 0 then Some (Cycling st, s)
      else
        (case ho_sleep h (ds_next_delay st) (world s) of
           (Some res, w) \<Rightarrow> Some (Returned (signal_result res), s\<lparr>world := w\<rparr>)
         | (None, w) \<Rightarrow> Some (Cycling st, s\<lparr>world := w\<rparr>)))"
| "daemon_next h up (Cycling st, s) =
     (case ho_ready h (world s) of
        Some (res, w) \<Rightarrow> Some (Returned (signal_result res), note_signal res ((begin_cycle s)\<lparr>world := w\<rparr>))
      | None \<Rightarrow>
          (case run_cycle_locked (ho_env h) up (begin_cycle s) of
             (Done report, s') \<Rightarrow>
               (case shutdown s' of
                  Some res \<Rightarrow> Some (Returned (signal_result res), s')
                | None \<Rightarrow> Some (Waiting (after_cycle h (world s') (interval (up_config up)) report st), s'))
           | (Dropped, s') \<Rightarrow>
               (case shutdown s' of Some res \<Rightarrow> Some (Returned (signal_result res), s') | None \<Rightarrow> None)
           | (Expired n, s') \<Rightarrow> None))"
| "daemon_next h up (Returned r, s) = None"

inductive daemon_step :: "'w host \<Rightarrow> updater \<Rightarrow> daemon_phase \<times> 'w sys \<Rightarrow> daemon_phase \<times> 'w sys \<Rightarrow> bool" for h up where
  at_once: "ds_next_delay st = 0 \<Longrightarrow> daemon_step h up (Waiting st, s) (Cycling st, s)"
| slept: "ds_next_delay st \<noteq> 0 \<Longrightarrow> ho_sleep h (ds_next_delay st) (world s) = (None, w) \<Longrightarrow>
     daemon_step h up (Waiting st, s) (Cycling st, s\<lparr>world := w\<rparr>)"
| woken: "ds_next_delay st \<noteq> 0 \<Longrightarrow> ho_sleep h (ds_next_delay st) (world s) = (Some res, w) \<Longrightarrow>
     daemon_step h up (Waiting st, s) (Returned (signal_result res), s\<lparr>world := w\<rparr>)"
| preempted: "ho_ready h (world s) = Some (res, w) \<Longrightarrow>
     daemon_step h up (Cycling st, s) (Returned (signal_result res), note_signal res ((begin_cycle s)\<lparr>world := w\<rparr>))"
| dropped_cycle: "ho_ready h (world s) = None \<Longrightarrow> run_cycle_locked (ho_env h) up (begin_cycle s) = (Dropped, s') \<Longrightarrow>
     shutdown s' = Some res \<Longrightarrow> daemon_step h up (Cycling st, s) (Returned (signal_result res), s')"
| finished_cycle: "ho_ready h (world s) = None \<Longrightarrow> run_cycle_locked (ho_env h) up (begin_cycle s) = (Done report, s') \<Longrightarrow>
     shutdown s' = Some res \<Longrightarrow> daemon_step h up (Cycling st, s) (Returned (signal_result res), s')"
| completed: "ho_ready h (world s) = None \<Longrightarrow> run_cycle_locked (ho_env h) up (begin_cycle s) = (Done report, s') \<Longrightarrow>
     shutdown s' = None \<Longrightarrow> daemon_step h up (Cycling st, s)
       (Waiting (after_cycle h (world s') (interval (up_config up)) report st), s')"

inductive_cases waiting_step: "daemon_step h up (Waiting st, s) c"
inductive_cases cycling_step: "daemon_step h up (Cycling st, s) c"
inductive_cases returned_step: "daemon_step h up (Returned r, s) c"

text \<open>\<open>run_loop\<close> for at most the given number of steps.\<close>

fun run_loop :: "'w host \<Rightarrow> updater \<Rightarrow> nat \<Rightarrow> daemon_phase \<times> 'w sys \<Rightarrow> daemon_phase \<times> 'w sys" where
  "run_loop h up 0 c = c"
| "run_loop h up (Suc n) c = (case daemon_next h up c of None \<Rightarrow> c | Some c' \<Rightarrow> run_loop h up n c')"

text \<open>
  \<open>daemon::run\<close>, given what acquiring the runtime lock returned and the value of the jitter
  counter: where the process is after at most the given number of steps.
\<close>

definition daemon_run :: "'w host \<Rightarrow> (string list option, runtime_lock_error) result \<Rightarrow> updater \<Rightarrow> u64 \<Rightarrow> nat
    \<Rightarrow> 'w sys \<Rightarrow> daemon_phase \<times> 'w sys" where
  "daemon_run h lock up jitter fuel s =
     (case lock of
        Inl e \<Rightarrow> (Returned (Inl (DaemonRuntimeLock (runtime_lock_error_text e))), s)
      | Inr _ \<Rightarrow> run_loop h up fuel (Waiting (first_state jitter), s))"

section \<open>Delays\<close>

lemma backoff_secs: "as_secs INITIAL_BACKOFF = 5" "as_secs MAX_BACKOFF = 300"
  by (simp_all add: INITIAL_BACKOFF_def MAX_BACKOFF_def)

lemma saturating_sub_one: "unat (saturating_sub_u32 n 1) = unat n - 1"
proof (cases "n = 0")
  case False
  then have "1 \<le> n" by (simp add: word_less_1 linorder_not_less [symmetric])
  then show ?thesis by (simp add: saturating_sub_u32_def unat_sub not_less)
qed (simp add: saturating_sub_u32_def)

lemma clamp_bounds: "50 \<le> unat (clamp_u16 j 50 100)" "unat (clamp_u16 j 50 100) \<le> 100"
  by (auto simp: clamp_u16_def word_less_nat_alt not_less)

lemma clamp_mono: "i \<le> j \<Longrightarrow> unat (clamp_u16 i 50 100) \<le> unat (clamp_u16 j 50 100)"
  by (auto simp: clamp_u16_def word_less_nat_alt word_le_nat_alt not_less)

definition backoff_base :: "u32 \<Rightarrow> nat" where
  "backoff_base n = min (5 * 2 ^ min (unat n - 1) 31) 300"

text \<open>The product is far from saturating.\<close>

lemma backoff_delay_eq:
  "backoff_delay n j = from_secs (backoff_base n * unat (clamp_u16 j 50 100) div 100)"
proof -
  let ?e = "min (unat n - 1) 31" and ?c = "unat (clamp_u16 j 50 100)"
  have "(2 :: nat) ^ ?e \<le> 2 ^ 31" by (rule power_increasing) auto
  then have mul: "saturating_mul_u64 5 (2 ^ ?e) = 5 * 2 ^ ?e"
    by (simp add: saturating_mul_u64_def min_def)
  have "5 * 1 \<le> 5 * (2 :: nat) ^ ?e" by (rule mult_le_mono2) simp
  then have base: "5 \<le> backoff_base n" "backoff_base n \<le> 300"
    by (simp_all add: backoff_base_def)
  have "backoff_base n * ?c \<le> 300 * 100"
    using base(2) clamp_bounds(2) by (rule mult_le_mono)
  then have sat: "saturating_mul_u64 (backoff_base n) ?c = backoff_base n * ?c"
    and hi: "backoff_base n * ?c div 100 \<le> 300"
    by (simp_all add: saturating_mul_u64_def min_def)
  have "5 * 50 \<le> backoff_base n * ?c"
    using base(1) clamp_bounds(1) by (rule mult_le_mono)
  then have lo: "1 \<le> backoff_base n * ?c div 100" by simp
  have "backoff_delay n j = from_secs (min (max (backoff_base n * ?c div 100) 1) 300)"
    unfolding backoff_delay_def calculate_backoff_def Let_def backoff_secs saturating_sub_one mul
      backoff_base_def [symmetric] sat ..
  then show ?thesis
    using lo hi by (simp only: max_absorb1 min_absorb1)
qed

lemma backoff_base_mono: "n \<le> m \<Longrightarrow> backoff_base n \<le> backoff_base m"
  unfolding backoff_base_def word_le_nat_alt
  by (intro min.mono mult_le_mono2 power_increasing) auto

lemma backoff_base_bounds: "5 \<le> backoff_base n" "backoff_base n \<le> 300"
proof -
  have "5 * 1 \<le> 5 * (2 :: nat) ^ min (unat n - 1) 31" by (rule mult_le_mono2) simp
  then show "5 \<le> backoff_base n" by (simp add: backoff_base_def)
qed (simp add: backoff_base_def)

lemma backoff_delay_bounds: "from_secs 2 \<le> backoff_delay n j" "backoff_delay n j \<le> from_secs 300"
proof -
  have "5 * 50 \<le> backoff_base n * unat (clamp_u16 j 50 100)"
    using backoff_base_bounds(1) clamp_bounds(1) by (rule mult_le_mono)
  then show "from_secs 2 \<le> backoff_delay n j" by (simp add: backoff_delay_eq)
  have "backoff_base n * unat (clamp_u16 j 50 100) \<le> 300 * 100"
    using backoff_base_bounds(2) clamp_bounds(2) by (rule mult_le_mono)
  then show "backoff_delay n j \<le> from_secs 300" by (simp add: backoff_delay_eq)
qed

text \<open>
  The backoff is between 2 seconds and the cap of 300 seconds for every failure count and
  every jitter value, it never decreases with more failures or a larger percentage, doubles
  from 5 seconds at full jitter until it reaches the cap with the seventh failure, and no
  intermediate product saturates.
\<close>

lemma backoff_bounds:
  "from_secs 2 \<le> backoff_delay n j \<and> backoff_delay n j \<le> MAX_BACKOFF \<and>
   (n \<le> m \<longrightarrow> i \<le> j \<longrightarrow> backoff_delay n i \<le> backoff_delay m j) \<and>
   (100 \<le> j \<longrightarrow> backoff_delay n j = from_secs (min (5 * 2 ^ min (unat n - 1) 31) 300)) \<and>
   (100 \<le> j \<longrightarrow> 7 \<le> n \<longrightarrow> backoff_delay n j = MAX_BACKOFF)"
proof (intro conjI impI)
  show "from_secs 2 \<le> backoff_delay n j" "backoff_delay n j \<le> MAX_BACKOFF"
    using backoff_delay_bounds by (simp_all add: MAX_BACKOFF_def)
  show "backoff_delay n i \<le> backoff_delay m j" if "n \<le> m" "i \<le> j"
    unfolding backoff_delay_eq from_secs_mono
    by (intro div_le_mono mult_le_mono backoff_base_mono clamp_mono that)
  have full: "backoff_delay n j = from_secs (backoff_base n)" if "100 \<le> j"
  proof -
    have "unat (clamp_u16 j 50 100) = 100"
      using that by (auto simp: clamp_u16_def word_less_nat_alt word_le_nat_alt)
    then show ?thesis by (simp add: backoff_delay_eq)
  qed
  then show "backoff_delay n j = from_secs (min (5 * 2 ^ min (unat n - 1) 31) 300)" if "100 \<le> j"
    using that by (simp add: backoff_base_def)
  show "backoff_delay n j = MAX_BACKOFF" if "100 \<le> j" "7 \<le> n"
  proof -
    have "(2 :: nat) ^ 6 \<le> 2 ^ min (unat n - 1) 31"
      using that(2) by (intro power_increasing) (auto simp: word_le_nat_alt)
    then show ?thesis
      using full [OF that(1)] by (simp add: backoff_base_def MAX_BACKOFF_def)
  qed
qed

theorem backoff_bounds_witness:
  "backoff_delay 3 100 = from_secs 20 \<and> backoff_delay 9 100 = from_secs 300 \<and> backoff_delay 3 60 \<le> backoff_delay 4 70"
  using backoff_bounds [of 3 100] backoff_bounds [of 9 100] backoff_bounds [of 3 70 4 60] by simp

lemma jitter_percent_range:
  "50 \<le> unat (fst (jitter_percent h w counter))" "unat (fst (jitter_percent h w counter)) \<le> 100"
proof -
  define x where "x = jitter_mix ((case ho_time h w of None \<Rightarrow> 0 | Some (secs, nanos) \<Rightarrow> secs XOR ucast nanos)
      XOR counter XOR ucast (ho_pid h))"
  have m: "unat (x mod 51) < 51" by (simp add: unat_mod)
  then have "unat (50 + x mod 51) = 50 + unat (x mod 51)"
    by (subst unat_add_lem [THEN iffD1]) simp_all
  moreover from this m have "unat (ucast (50 + x mod 51) :: u16) = 50 + unat (x mod 51)"
    by (simp add: unsigned_ucast_eq take_bit_nat_eq_self)
  ultimately have "unat (fst (jitter_percent h w counter)) = 50 + unat (x mod 51)"
    using m by (simp add: jitter_percent_def Let_def x_def)
  with m show "50 \<le> unat (fst (jitter_percent h w counter))" "unat (fst (jitter_percent h w counter)) \<le> 100"
    by simp_all
qed

text \<open>
  The jitter is a percentage between 50 and 100 whatever the clock, the process identifier
  and the counter are; the fallback for a failed conversion is never taken, and the counter
  moves on by its odd constant, modulo \<open>2 ^ 64\<close>.
\<close>

lemma jitter_in_range:
  "50 \<le> fst (jitter_percent h w counter) \<and> fst (jitter_percent h w counter) \<le> 100 \<and>
   snd (jitter_percent h w counter) = counter + 0x9e3779b97f4a7c15"
  using jitter_percent_range [of h w counter] by (simp add: word_le_nat_alt jitter_percent_def Let_def)

lemma foldl_max_Max: "foldl max d ds = Max (set (d # ds :: nat list))"
proof -
  have "(\<lambda>x s. max s x) = (max :: nat \<Rightarrow> nat \<Rightarrow> nat)"
    by (intro ext) (rule max.commute)
  then show ?thesis
    unfolding Max.set_eq_fold foldl_conv_fold by simp
qed

lemma foldl_max_ge: "x \<in> set (d # ds) \<Longrightarrow> x \<le> foldl max d (ds :: nat list)"
  unfolding foldl_max_Max by (rule Max_ge) simp_all

lemma foldl_max_in: "foldl max d (ds :: nat list) \<in> set (d # ds)"
  unfolding foldl_max_Max by (rule Max_in) simp_all

lemma report_retry_after_ge:
  assumes "f \<in> set (cr_failures report)" and "cf_delay f = Some d"
  shows "\<exists>e. report_retry_after report = Some e \<and> d \<le> e"
proof -
  have d: "d \<in> set (List.map_filter cf_delay (cr_failures report))"
    using assms by (force simp: List.map_filter_def)
  then obtain x xs where xs: "List.map_filter cf_delay (cr_failures report) = x # xs"
    by (cases "List.map_filter cf_delay (cr_failures report)") auto
  then show ?thesis
    using foldl_max_ge [of d x xs] d by (simp add: report_retry_after_def)
qed

lemma report_retry_after_from:
  assumes "report_retry_after report = Some e"
  shows "\<exists>f \<in> set (cr_failures report). cf_delay f = Some e"
proof -
  obtain x xs where xs: "List.map_filter cf_delay (cr_failures report) = x # xs" "e = foldl max x xs"
    using assms by (auto simp: report_retry_after_def split: list.splits)
  then have "e \<in> set (List.map_filter cf_delay (cr_failures report))"
    using foldl_max_in by simp
  then show ?thesis by (auto simp: List.map_filter_def)
qed

lemma retry_delay_pos: "0 < period \<Longrightarrow> 0 < retry_delay report n period j"
proof -
  assume "0 < period"
  moreover have "0 < backoff_delay n j"
    using backoff_delay_bounds(1) [of n j] from_secs_pos [of 2] by linarith
  moreover have "0 < MAX_BACKOFF" by (simp add: MAX_BACKOFF_def)
  ultimately show ?thesis
    by (auto simp: retry_delay_def Let_def split: option.split)
qed

text \<open>
  C38: the retry policy. The delay after an incomplete cycle is never zero; it is at least every
  delay the API asked for in a failure of the report, at least 300 seconds after an
  authentication failure, and it exceeds both the cap of 300 seconds and the configured interval
  only when the API asked for that very delay.
\<close>

theorem retry_policy:
  assumes "0 < period"
  shows "0 < retry_delay report n period j \<and>
    (\<forall>f \<in> set (cr_failures report). \<forall>d. cf_delay f = Some d \<longrightarrow> d \<le> retry_delay report n period j) \<and>
    (has_authentication_failure report \<longrightarrow> MAX_BACKOFF \<le> retry_delay report n period j) \<and>
    (retry_delay report n period j \<le> max MAX_BACKOFF period \<or>
     (\<exists>f \<in> set (cr_failures report). cf_delay f = Some (retry_delay report n period j)))"
proof (intro conjI ballI allI impI)
  show "0 < retry_delay report n period j" by (rule retry_delay_pos [OF assms])
  show "d \<le> retry_delay report n period j"
    if "f \<in> set (cr_failures report)" "cf_delay f = Some d" for f d
    using report_retry_after_ge [OF that] by (auto simp: retry_delay_def Let_def)
  show "MAX_BACKOFF \<le> retry_delay report n period j" if "has_authentication_failure report"
    using that by (auto simp: retry_delay_def Let_def split: option.split)
  have b: "backoff_delay n j \<le> MAX_BACKOFF"
    using backoff_delay_bounds(2) by (simp add: MAX_BACKOFF_def)
  show "retry_delay report n period j \<le> max MAX_BACKOFF period \<or>
     (\<exists>f \<in> set (cr_failures report). cf_delay f = Some (retry_delay report n period j))"
  proof (cases "report_retry_after report")
    case None
    then show ?thesis using b by (auto simp: retry_delay_def Let_def)
  next
    case (Some e)
    define policy where "policy = (if has_authentication_failure report then MAX_BACKOFF
      else if has_retryable_failure report then backoff_delay n j else period)"
    have "policy \<le> max MAX_BACKOFF period" "retry_delay report n period j = max policy e"
      using b Some by (auto simp: policy_def retry_delay_def Let_def)
    then show ?thesis
      using report_retry_after_from [OF Some] by (cases "policy \<le> e") auto
  qed
qed

theorem retry_policy_witness:
  "from_secs 900 \<le> retry_delay ((empty_report 1)\<lparr>cr_failures :=
     [\<lparr>cf_target = ''a'', cf_stage = FsUpdate, cf_kind = FkRateLimited, cf_delay = Some (from_secs 900), cf_message = []\<rparr>]\<rparr>)
     1 (from_secs 60) 100"
  using retry_policy [of "from_secs 60"] by simp

section \<open>Timers are balanced\<close>

text \<open>
  \<open>settled m\<close>: the stack of deadlines is restored, and an expiry that leaves \<open>m\<close> belongs to an
  enclosing deadline. A settled computation outside every timeout cannot expire.
\<close>

definition settled :: "('w, 'a) io \<Rightarrow> bool" where
  "settled m \<longleftrightarrow> (\<forall>s x s'. m s = (x, s') \<longrightarrow> timers s' = timers s \<and> (\<forall>n. x = Expired n \<longrightarrow> n < length (timers s)))"

lemma settledI:
  "(\<And>s x s'. m s = (x, s') \<Longrightarrow> timers s' = timers s) \<Longrightarrow> (\<And>s n s'. m s = (Expired n, s') \<Longrightarrow> n < length (timers s)) \<Longrightarrow> settled m"
  by (auto simp: settled_def)

lemma settledD: "settled m \<Longrightarrow> m s = (x, s') \<Longrightarrow> timers s' = timers s \<and> (\<forall>n. x = Expired n \<longrightarrow> n < length (timers s))"
  unfolding settled_def by blast

lemma settled_ret: "settled (ret a)"
  by (simp add: settled_def ret_def)

lemma settled_bind:
  assumes "settled m" and "\<And>a. settled (f a)"
  shows "settled (bind_io m f)"
  unfolding settled_def
proof (intro allI impI)
  fix s x s'
  assume "bind_io m f s = (x, s')"
  then show "timers s' = timers s \<and> (\<forall>n. x = Expired n \<longrightarrow> n < length (timers s))"
  proof (cases rule: bind_io_cases)
    case (Done a t)
    then show ?thesis using settledD [OF assms(1) Done(1)] settledD [OF assms(2) Done(2)] by simp
  next
    case (Expired k)
    then show ?thesis using settledD [OF assms(1) Expired(1)] by simp
  next
    case Dropped
    then show ?thesis using settledD [OF assms(1) Dropped(1)] by simp
  qed
qed

lemma settled_bind_ok:
  assumes "settled m" and "\<And>a. settled (f a)"
  shows "settled (bind_ok m f)"
  unfolding bind_ok_def by (intro settled_bind assms) (auto intro: assms settled_ret split: sum.split)

lemma settled_get_sys: "(\<And>t. settled (f t)) \<Longrightarrow> settled (bind_io get_sys f)"
  by (simp add: settled_def async_simps)

lemma settled_await: "settled (await env r)"
  by (rule settledI)
     (auto simp: await_def complete_request_def note_signal_def dest: await_frame(1)
       split: option.splits prod.splits if_splits)

lemma settled_timeout: "settled m \<Longrightarrow> settled (timeout_at d m)"
  by (rule settledI) (fastforce simp: settled_def timeout_at_def split: prod.splits fut.splits nat.splits)+

lemma settled_join2: "settled m1 \<Longrightarrow> settled m2 \<Longrightarrow> settled (join2 env m1 m2)"
  by (rule settledI) (auto simp: settled_def join2_def split: prod.splits fut.splits if_splits)

lemma settled_cache: "settled (modify_sys (\<lambda>s. s\<lparr>zone_cache := f s\<rparr>))"
  by (simp add: settled_def modify_sys_def)

lemma settled_cursor: "settled (modify_sys (\<lambda>s. s\<lparr>record_cursor := f s\<rparr>))"
  by (simp add: settled_def modify_sys_def)

lemma settled_if: "settled m \<Longrightarrow> settled n \<Longrightarrow> settled (if b then m else n)"
  by simp

lemma settled_guarded: "settled m \<Longrightarrow> settled (guarded m)"
  by (rule settledI) (force simp: settled_def guarded_def split: prod.splits)+

lemmas settled_intros = settled_ret settled_bind settled_bind_ok settled_get_sys settled_await settled_timeout
  settled_join2 settled_cache settled_cursor settled_if settled_guarded

lemma settled_send: "settled (send env client decode r op)"
  unfolding send_def by (intro settled_intros)

lemma settled_send_in_zone: "settled (send_in_zone env client decode r op zid)"
  unfolding send_in_zone_def invalidate_zone_after_not_found_def
  by (auto intro!: settled_intros settled_send split: sum.split)

lemma settled_zone_pages: "settled (zone_pages env client zname exact inactive k)"
  by (induction k arbitrary: exact inactive)
     (auto intro!: settled_intros settled_send simp: cache_zone_def split: option.split sum.split)

lemma settled_resolve_zone_id: "settled (resolve_zone_id env client zname explicit)"
  unfolding resolve_zone_id_def resolve_named_zone_id_def resolve_explicit_zone_id_def
  by (auto intro!: settled_intros settled_send settled_zone_pages simp: cache_zone_def split: option.split sum.split)

lemma settled_find_record: "settled (find_record env client zid rtype rname)"
proof -
  have "settled (record_pages env client zid rtype rname exact k)" for exact k
    by (induction k arbitrary: exact) (auto intro!: settled_intros settled_send_in_zone split: sum.split)
  then show ?thesis by (simp add: find_record_def)
qed

lemma settled_send_record: "settled (send_record env client r op zid)"
  unfolding send_record_def by (intro settled_intros settled_send_in_zone)

lemma settled_discover_lane: "settled (discover_lane env client needed family ps)"
proof -
  have "settled (discover_from env client family started ps fs)" for started fs
    by (induction ps arbitrary: fs)
       (auto intro!: settled_intros simp: query_provider_def Let_def split: option.split sum.split)
  then show ?thesis
    unfolding discover_lane_def discover_def by (intro settled_intros)
qed

lemma settled_sync_record: "settled (sync_record env client deadline r address)"
  unfolding sync_record_def plan_record_def at_stage_def execute_record_plan_def update_record_def create_record_def
  by (auto intro!: settled_intros settled_resolve_zone_id settled_find_record settled_send_record
      split: option.split sum.split record_plan.split)

lemma settled_run_cycle_locked: "settled (run_cycle_locked env up)"
proof -
  have "settled (cycle_records env client deadline addresses rs report)" for client deadline addresses rs report
    by (induction rs arbitrary: report)
       (auto intro!: settled_intros settled_sync_record simp: Let_def cycle_records.simps(2) split: option.split sum.split)
  then show ?thesis
    unfolding run_cycle_locked_def run_cycle_until_def discover_required_addresses_def next_start_def Let_def
    by (auto intro!: settled_intros settled_discover_lane split: option.split)
qed

section \<open>Frames of a whole cycle\<close>

context write_frame
begin

lemma top_plan: "frame_top R (timeout_at d (plan_record env client r address))"
  by (intro frame_top_read frame_timeout_at frame_plan_record timers_frame.frame_timeout_at
      timers_frame.frame_plan_record)

lemma top_discovery: "frame_top R (timeout_at d (discover_required_addresses env up))"
  by (intro frame_top_read frame_timeout_at frame_discover_required timers_frame.frame_timeout_at
      timers_frame.frame_discover_required)

lemma top_execute: "frame_top R (execute_record_plan env client plan)"
  unfolding execute_record_plan_def at_stage_def update_record_def create_record_def
  by (auto intro!: top_ret top_bind_ok top_bind_io top_send_record split: record_plan.split)

lemma top_sync_record: "frame_top R (sync_record env client deadline r address)"
  unfolding sync_record_def
  by (auto intro!: top_bind_io top_plan top_ret frame_top_get_sys frame_top_if top_execute
      split: option.split sum.split)

lemma top_cycle_records: "frame_top R (cycle_records env client deadline addresses rs report)"
  by (induction rs arbitrary: report)
     (auto intro!: top_ret top_bind_io frame_top_get_sys frame_top_if top_sync_record
       simp: Let_def cycle_records.simps(2) split: option.split sum.split)

lemma top_next_start: "frame_top R (next_start n)"
  unfolding next_start_def by (intro top_intros)

lemma top_run_cycle_locked: "frame_top R (run_cycle_locked env up)"
  unfolding run_cycle_locked_def run_cycle_until_def Let_def
  by (auto intro!: top_bind_io top_discovery top_ret frame_top_get_sys top_next_start top_cycle_records
      split: option.split)

end

section \<open>The step relation\<close>

lemma daemon_step_iff: "daemon_step h up c c' \<longleftrightarrow> daemon_next h up c = Some c'"
proof
  assume "daemon_step h up c c'"
  then show "daemon_next h up c = Some c'"
    by (cases rule: daemon_step.cases) simp_all
next
  assume n: "daemon_next h up c = Some c'"
  obtain p s where c: "c = (p, s)" by (cases c)
  show "daemon_step h up c c'"
  proof (cases p)
    case (Waiting st)
    then show ?thesis
      using n c by (auto intro: daemon_step.intros split: if_splits prod.splits option.splits)
  next
    case (Cycling st)
    then show ?thesis
      using n c by (auto intro: daemon_step.intros split: option.splits prod.splits fut.splits)
  qed (use n c in simp)
qed

lemma begin_cycle_simps [simp]:
  "timers (begin_cycle s) = timers s" "trace (begin_cycle s) = trace s" "world (begin_cycle s) = world s"
  "listening (begin_cycle s)" "shutdown (begin_cycle s) = None"
  "\<not> stop_requested (control (begin_cycle s))" "\<not> mutation_in_flight (control (begin_cycle s))"
  by (simp_all add: begin_cycle_def)

definition at_rest :: "'w sys \<Rightarrow> bool" where
  "at_rest s \<longleftrightarrow> timers s = [] \<and> \<not> mutation_in_flight (control s)"

text \<open>A whole cycle, as the loop runs it.\<close>

lemma cycle_at_rest:
  assumes "at_rest s" and "run_cycle_locked env up (begin_cycle s) = (x, s')"
  shows "at_rest s'" and "\<And>n. x \<noteq> Expired n" and "x = Dropped \<Longrightarrow> shutdown s' \<noteq> None"
proof -
  let ?d = "now env (begin_cycle s) + interval (up_config up)"
  have top: "timers (begin_cycle s) = []" using assms(1) by (simp add: at_rest_def)
  have u: "run_cycle_until env up ?d (begin_cycle s) = (x, s')"
    using assms(2) by (simp add: run_cycle_locked_def get_sys_apply)
  note sd = settledD [OF settled_run_cycle_locked assms(2)]
  show stray: "\<And>n. x \<noteq> Expired n" using sd top by auto
  have "quiet_end x s'"
    by (rule run_cycle_until_quiet [OF _ _ _ u]) (use top in simp_all)
  then show "at_rest s'" "x = Dropped \<Longrightarrow> shutdown s' \<noteq> None"
    using sd top by (auto simp: at_rest_def quiet_end_def orderly_def split: if_splits)
qed


section \<open>Reachable states\<close>

definition daemon_reach :: "'w host \<Rightarrow> updater \<Rightarrow> daemon_phase \<times> 'w sys \<Rightarrow> daemon_phase \<times> 'w sys \<Rightarrow> bool" where
  "daemon_reach h up = (daemon_step h up)\<^sup>*\<^sup>*"

text \<open>What a step does to the part of the state that the loop shares with its cycles.\<close>

definition loop_ok :: "updater \<Rightarrow> 'w sys \<Rightarrow> 'w sys \<Rightarrow> bool" where
  "loop_ok up s s' \<longleftrightarrow> at_rest s' \<and> adds (\<lambda>e. \<exists>deadline. managed_write up deadline e) s s'"

lemma loop_ok_trans: "loop_ok up s t \<Longrightarrow> loop_ok up t u \<Longrightarrow> loop_ok up s u"
  unfolding loop_ok_def using adds_trans by blast

lemma daemon_step_ok:
  assumes "daemon_step h up (p, s) (p', s')" and "at_rest s"
  shows "loop_ok up s s'"
proof -
  have same: "loop_ok up s s'" if "trace s' = trace s" "timers s' = timers s" "\<not> mutation_in_flight (control s')"
    using that assms(2) by (auto simp: loop_ok_def at_rest_def intro: adds_same)
  have cycle: "loop_ok up s s'" if "run_cycle_locked (ho_env h) up (begin_cycle s) = (x, s')" for x
  proof -
    have "run_cycle_until (ho_env h) up (now (ho_env h) (begin_cycle s) + interval (up_config up)) (begin_cycle s) = (x, s')"
      using that by (simp add: run_cycle_locked_def get_sys_apply)
    moreover have "timers (begin_cycle s) = []" using assms(2) by (simp add: at_rest_def)
    ultimately have "adds (\<lambda>e. \<exists>deadline. managed_write up deadline e) (begin_cycle s) s'"
      using run_cycle_until_writes [of "begin_cycle s" "ho_env h" up _ x s'] unfolding adds_def by blast
    then show ?thesis
      using cycle_at_rest(1) [OF assms(2) that] by (simp add: loop_ok_def adds_def)
  qed
  from assms(1) show ?thesis
    by (cases rule: daemon_step.cases) (use same cycle assms(2) in \<open>auto simp: at_rest_def\<close>)
qed

lemma daemon_reach_ok:
  assumes "daemon_reach h up (p, s) (p', s')" and "at_rest s"
  shows "loop_ok up s s'"
proof -
  have "loop_ok up s (snd c)" if "(daemon_step h up)\<^sup>*\<^sup>* (p, s) c" for c
    using that
  proof (induction rule: rtranclp_induct)
    case base
    then show ?case using assms(2) by (auto simp: loop_ok_def intro: adds_same)
  next
    case (step c d)
    have "daemon_step h up (fst c, snd c) (fst d, snd d)" using step.hyps(2) by simp
    moreover have "at_rest (snd c)" using step.IH by (simp add: loop_ok_def)
    ultimately show ?case
      using loop_ok_trans [OF step.IH] daemon_step_ok by blast
  qed
  then show ?thesis using assms(1) by (auto simp: daemon_reach_def)
qed

text \<open>
  C10: the daemon never leaves DNS in doubt. In every state the daemon can reach from a process at
  rest, whatever the replies, the deadlines, the moment of the signal and the length of the run
  were, no mutation is in flight between two steps, and every request of its trace that can
  change DNS wrote a configured record with a public address of its family and was awaited until
  its reply, also when the daemon has returned.
\<close>

theorem daemon_writes_safe:
  assumes "daemon_reach h up (Waiting (first_state jitter), s) (p, s')"
    and "timers s = []" and "\<not> mutation_in_flight (control s)"
  shows "\<not> mutation_in_flight (control s') \<and>
    (\<exists>new. trace s' = new @ trace s \<and> (\<forall>e \<in> set new. is_mutation (le_request e) \<longrightarrow>
       le_fate e = Replied \<and>
       (\<exists>r \<in> set (records (up_config up)). \<exists>a.
          is_public_address a \<and> family_matches (record_family (record_type r)) a \<and>
          ((\<exists>zid rid. le_request e = update_request (up_cloudflare up) zid rid (payload_for r a)) \<or>
           (create_if_missing r \<and> (\<exists>zid. le_request e = create_request (up_cloudflare up) zid (payload_for r a)))))))"
proof -
  have ok: "loop_ok up s s'"
    using daemon_reach_ok [OF assms(1)] assms(2,3) by (simp add: at_rest_def)
  then obtain new where "trace s' = new @ trace s" "\<forall>e \<in> set new. \<exists>deadline. managed_write up deadline e"
    by (auto simp: loop_ok_def elim: addsE)
  then show ?thesis
    using ok unfolding loop_ok_def at_rest_def managed_write_def by fast
qed

text \<open>
  The loop is never stuck and never has a choice: from every state it can reach there is a
  next step unless it has returned, and it is the one the executable step function computes. In
  particular a cycle outside every timeout neither expires nor is dropped without a signal.
\<close>

lemma daemon_progress:
  assumes "daemon_reach h up (Waiting (first_state jitter), s) (p, s')"
    and "timers s = []" and "\<not> mutation_in_flight (control s)"
  shows "((\<exists>c. daemon_step h up (p, s') c) \<longleftrightarrow> (\<nexists>r. p = Returned r)) \<and>
    (\<forall>c. daemon_step h up (p, s') c \<longleftrightarrow> daemon_next h up (p, s') = Some c)"
proof -
  have rest: "at_rest s'"
    using daemon_reach_ok [OF assms(1)] assms(2,3) by (simp add: at_rest_def loop_ok_def)
  have "daemon_next h up (p, s') \<noteq> None" if "\<nexists>r. p = Returned r"
  proof (cases p)
    case (Waiting st)
    then show ?thesis by (auto split: prod.split option.split)
  next
    case (Cycling st)
    obtain x t where x: "run_cycle_locked (ho_env h) up (begin_cycle s') = (x, t)"
      by (cases "run_cycle_locked (ho_env h) up (begin_cycle s')")
    then show ?thesis
      using Cycling cycle_at_rest(2,3) [OF rest x] by (cases x) (auto split: option.split)
  qed (use that in simp)
  then show ?thesis
    unfolding daemon_step_iff by auto
qed

section \<open>Delays between cycles\<close>

text \<open>Every error a computation returns satisfies \<open>P\<close>.\<close>

definition fails_with :: "('e \<Rightarrow> bool) \<Rightarrow> ('w, ('a, 'e) result) io \<Rightarrow> bool" where
  "fails_with P m \<longleftrightarrow> (\<forall>s e s'. m s = (Done (Inl e), s') \<longrightarrow> P e)"

lemma fails_ret: "(\<And>e. r = Inl e \<Longrightarrow> P e) \<Longrightarrow> fails_with P (ret r)"
  by (simp add: fails_with_def ret_def)

lemma fails_bind: "(\<And>a. fails_with P (f a)) \<Longrightarrow> fails_with P (bind_io m f)"
  unfolding fails_with_def bind_io_Done_iff by blast

lemma fails_bind_ok: "fails_with P m \<Longrightarrow> (\<And>a. fails_with P (f a)) \<Longrightarrow> fails_with P (bind_ok m f)"
  unfolding fails_with_def bind_ok_Done_iff by blast

lemma fails_guarded: "fails_with P m \<Longrightarrow> fails_with P (guarded m)"
  by (auto simp: fails_with_def guarded_def split: prod.splits)

text \<open>The API never makes the client wait for more than an hour.\<close>

definition short_delay :: "cloudflare_error \<Rightarrow> bool" where
  "short_delay e \<longleftrightarrow> (\<forall>d. cf_retry_after e = Some d \<longrightarrow> d \<le> from_secs 3600)"

lemma short_local [simp]:
  "short_delay (PaginationLimit op)" "short_delay (ZoneNotActive z st)" "short_delay (ZoneNotFound z)"
  "short_delay (AmbiguousZone z)" "short_delay (AmbiguousRecord rtype rname)" "short_delay (RecordNotFound rtype rname)"
  "short_delay (ZoneNameMismatch z a i)" "short_delay (ZoneIdMismatch i a)"
  by (simp_all add: short_delay_def)

lemma handle_response_short:
  assumes "handle_response client decode op outcome = Inl e"
  shows "short_delay e"
proof (cases "\<exists>response body. outcome = Inr response \<and> limited_body CF_MAX_RESPONSE_BYTES response = Inr body")
  case True
  then obtain response body where "outcome = Inr response" "limited_body CF_MAX_RESPONSE_BYTES response = Inr body"
    by blast
  then have "classify_response client op (rs_status response) (parse_retry_after (rs_retry_after response)) (decode body) = Inl e"
    using assms by (simp add: handle_response_cases)
  then show ?thesis
    using classify_response_Inl(5) parse_retry_after_bound unfolding short_delay_def by blast
next
  case False
  then show ?thesis
    using assms
    by (cases outcome) (auto simp: short_delay_def handle_response_def read_response_body_def map_err_def
        split: sum.splits body_error.splits)
qed

lemma short_send: "fails_with short_delay (send env client decode r op)"
  unfolding send_def by (intro fails_bind fails_ret) (rule handle_response_short)

lemma short_send_in_zone: "fails_with short_delay (send_in_zone env client decode r op zid)"
  unfolding fails_with_def
proof (intro allI impI)
  fix s e s'
  assume "send_in_zone env client decode r op zid s = (Done (Inl e), s')"
  then obtain t where "send env client decode r op s = (Done (Inl e), t)"
    by (auto simp: send_in_zone_def bind_io_def ret_def split: prod.splits fut.splits sum.splits)
  then show "short_delay e"
    using short_send unfolding fails_with_def by blast
qed

lemma short_send_record: "fails_with short_delay (send_record env client r op zid)"
  unfolding send_record_def by (intro fails_bind_ok short_send_in_zone fails_ret) simp

lemma short_scan_zones: "scan_zones client zname exact inactive zs = Inl e \<Longrightarrow> short_delay e"
  by (induction zs arbitrary: exact inactive) (auto split: if_splits)

lemma short_scan_records: "scan_records rtype rname exact rs = Inl e \<Longrightarrow> short_delay e"
  by (induction rs arbitrary: exact) (auto split: if_splits)

lemma short_zone_pages: "fails_with short_delay (zone_pages env client zname exact inactive k)"
  by (induction k arbitrary: exact inactive)
     (auto intro!: fails_ret fails_bind_ok fails_bind short_send split: sum.split option.split
       simp: no_zone_def dest: short_scan_zones)

lemma short_resolve: "fails_with short_delay (resolve_zone_id env client zname explicit)"
  unfolding resolve_zone_id_def resolve_named_zone_id_def resolve_explicit_zone_id_def
  by (auto intro!: fails_ret fails_bind_ok fails_bind short_send short_zone_pages
      simp: check_explicit_zone_def split: sum.split option.split if_splits)

lemma short_find: "fails_with short_delay (find_record env client zid rtype rname)"
proof -
  have "fails_with short_delay (record_pages env client zid rtype rname exact k)" for exact k
    by (induction k arbitrary: exact)
       (auto intro!: fails_ret fails_bind_ok short_send_in_zone split: sum.split
         dest: short_scan_records)
  then show ?thesis by (simp add: find_record_def)
qed

lemma short_at_stage: "fails_with short_delay m \<Longrightarrow> fails_with (\<lambda>(st, e). short_delay e) (at_stage stage m)"
  by (auto simp: fails_with_def at_stage_def bind_io_def ret_def map_err_def split: prod.splits fut.splits sum.splits)


lemma short_sync_record:
  assumes "sync_record env client deadline r address s = (Done (Some (Inl (stage, e))), s')"
  shows "short_delay e"
proof -
  have plan: "fails_with (\<lambda>(st, e). short_delay e) (plan_record env client r address)"
    unfolding plan_record_def
    by (auto intro!: fails_bind_ok short_at_stage short_resolve short_find fails_ret split: option.split)
  have run: "fails_with (\<lambda>(st, e). short_delay e) (execute_record_plan env client plan)" for plan
    unfolding execute_record_plan_def update_record_def create_record_def
    by (auto intro!: fails_bind_ok short_at_stage fails_guarded short_send_record fails_ret split: record_plan.split)
  from assms consider t where "timeout_at deadline (plan_record env client r address) s = (Done (Some (Inl (stage, e))), t)"
    | plan t where "execute_record_plan env client plan t = (Done (Inl (stage, e)), s')"
    by (auto simp: sync_record_def bind_io_def get_sys_def ret_def split: prod.splits fut.splits option.splits sum.splits if_splits)
  then show ?thesis
  proof cases
    case 1
    then show ?thesis using plan by (auto simp: fails_with_def elim!: timeout_at_Done)
  next
    case 2
    then show ?thesis using run [of plan] by (fastforce simp: fails_with_def)
  qed
qed

definition short_failure :: "cycle_failure \<Rightarrow> bool" where
  "short_failure f \<longleftrightarrow> (\<forall>d. cf_delay f = Some d \<longrightarrow> d \<le> from_secs 3600)"

lemma cycle_records_short:
  "cycle_records env client deadline addresses rs report s = (Done report', s') \<Longrightarrow>
     (\<forall>f \<in> set (cr_failures report). short_failure f) \<Longrightarrow> (\<forall>f \<in> set (cr_failures report'). short_failure f)"
proof (induction rs arbitrary: report s)
  case Nil
  then show ?case by (auto simp: ret_def)
next
  case (Cons r rs)
  have fail: "short_failure (cloudflare_failure (name r) stage e)"
    if "sync_record env client deadline r a s = (Done (Some (Inl (stage, e))), t)" for a stage e t
    using short_sync_record [OF that] by (simp add: short_failure_def cloudflare_failure_def short_delay_def)
  from Cons.prems(1) show ?case
  proof (cases rule: cycle_records_Cons)
    case (skipped m)
    then show ?thesis using Cons.IH Cons.prems(2) by blast
  next
    case (handled a out t)
    then show ?thesis using Cons.IH [OF handled(4)] Cons.prems(2) by simp
  next
    case (failed a stage e t)
    then show ?thesis using Cons.IH [OF failed(6)] Cons.prems(2) fail [OF failed(3)] by simp
  qed (use Cons.prems(2) fail in \<open>auto simp: short_failure_def cycle_deadline_failure_def\<close>)
qed

lemma cycle_short:
  assumes "run_cycle_locked env up s = (Done report, s')"
  shows "\<forall>f \<in> set (cr_failures report). short_failure f"
proof -
  have "run_cycle_until env up (now env s + interval (up_config up)) s = (Done report, s')"
    using assms by (simp add: run_cycle_locked_def get_sys_apply)
  then show ?thesis
  proof (cases rule: run_cycle_until_cases)
    case late
    then show ?thesis by (simp add: empty_report_def short_failure_def cycle_deadline_failure_def)
  next
    case (run addresses t n)
    have "\<forall>f \<in> set (discovery_failures addresses). short_failure f"
      by (auto simp: discovery_failures_def discovery_failure_def short_failure_def split: option.splits sum.splits)
    then show ?thesis using cycle_records_short [OF run(4)] by simp
  qed auto
qed

text \<open>The delay the loop has computed: zero only at the start, and bounded.\<close>

definition delay_ok :: "updater \<Rightarrow> u64 \<Rightarrow> daemon_phase \<Rightarrow> bool" where
  "delay_ok up jitter p \<longleftrightarrow> (\<forall>st. p = Waiting st \<longrightarrow> st = first_state jitter \<or>
     (min (from_secs 2) (interval (up_config up)) \<le> ds_next_delay st \<and>
      ds_next_delay st \<le> max (from_secs 3600) (interval (up_config up))))"

lemma retry_delay_bounds:
  assumes "\<forall>f \<in> set (cr_failures report). short_failure f"
  shows "min (from_secs 2) period \<le> retry_delay report n period j" and "retry_delay report n period j \<le> max (from_secs 3600) period"
proof -
  define policy where "policy = (if has_authentication_failure report then MAX_BACKOFF
      else if has_retryable_failure report then backoff_delay n j else period)"
  have p: "min (from_secs 2) period \<le> policy" "policy \<le> max (from_secs 300) period"
    using backoff_delay_bounds [of n j] by (auto simp: policy_def MAX_BACKOFF_def)
  have "e \<le> from_secs 3600" if "report_retry_after report = Some e" for e
    using report_retry_after_from [OF that] assms by (auto simp: short_failure_def)
  then have "retry_delay report n period j = policy \<or> (\<exists>e \<le> from_secs 3600. retry_delay report n period j = max policy e)"
    by (auto simp: retry_delay_def policy_def Let_def split: option.split)
  then show "min (from_secs 2) period \<le> retry_delay report n period j" "retry_delay report n period j \<le> max (from_secs 3600) period"
    using p by (auto simp: from_secs_def nanos_per_sec_def)
qed

lemma after_cycle_delay:
  assumes "\<forall>f \<in> set (cr_failures report). short_failure f"
  shows "min (from_secs 2) period \<le> ds_next_delay (after_cycle h w period report st)"
    and "ds_next_delay (after_cycle h w period report st) \<le> max (from_secs 3600) period"
  using retry_delay_bounds [OF assms] by (auto simp: after_cycle_def Let_def split: prod.split)

lemma daemon_reach_delay:
  assumes "daemon_reach h up (Waiting (first_state jitter), s) c"
  shows "delay_ok up jitter (fst c)"
  using assms unfolding daemon_reach_def
proof (induction rule: rtranclp_induct)
  case base
  then show ?case by (simp add: delay_ok_def)
next
  case (step c d)
  from step.hyps(2) show ?case
    by (cases rule: daemon_step.cases)
       (auto simp: delay_ok_def dest!: cycle_short intro: after_cycle_delay)
qed

text \<open>
  C23: with a validated configuration the daemon neither spins nor falls asleep: every wait after
  the first cycle takes at least 2 seconds, whatever failed, and at most the longer of one hour
  and the configured interval, which is at most a day, whatever delays the API asks for.
\<close>

theorem daemon_delays_bounded:
  assumes "validate parse (up_config up) = Inr ()"
    and "daemon_reach h up (Waiting (first_state jitter), s) (Waiting st, s')" and "st \<noteq> first_state jitter"
  shows "from_secs 2 \<le> ds_next_delay st \<and> ds_next_delay st \<le> max (from_secs 3600) (interval (up_config up)) \<and>
    ds_next_delay st \<le> from_secs 86400"
proof -
  have "valid_config parse (up_config up)"
    using assms(1) by (simp add: validate_iff_valid)
  then have i: "from_secs 60 \<le> interval (up_config up)" "interval (up_config up) \<le> from_secs 86400"
    by (auto simp: valid_config_def interval_def)
  show ?thesis
    using daemon_reach_delay [OF assms(2)] assms(3) i by (auto simp: delay_ok_def from_secs_def nanos_per_sec_def)
qed

section \<open>Runs of the loop\<close>

text \<open>The fuelled loop against the step relation.\<close>

lemma run_loop_reach: "daemon_reach h up c (run_loop h up n c)"
proof (induction n arbitrary: c)
  case 0
  then show ?case by (simp add: daemon_reach_def)
next
  case (Suc n)
  show ?case
  proof (cases "daemon_next h up c")
    case None
    then show ?thesis by (simp add: daemon_reach_def)
  next
    case (Some d)
    then have "daemon_step h up c d" by (simp add: daemon_step_iff)
    then show ?thesis
      using Suc.IH [of d] Some by (simp add: daemon_reach_def converse_rtranclp_into_rtranclp)
  qed
qed

lemma reach_run_loop:
  assumes "daemon_reach h up c d"
  shows "\<exists>n. run_loop h up n c = d"
  using assms unfolding daemon_reach_def
proof (induction rule: converse_rtranclp_induct)
  case base
  then show ?case by (intro exI [of _ 0]) simp
next
  case (step c e)
  then obtain n where "run_loop h up n e = d" by blast
  then show ?case
    using step.hyps(1) by (intro exI [of _ "Suc n"]) (simp add: daemon_step_iff)
qed

lemma run_loop_returned: "run_loop h up n (Returned r, s) = (Returned r, s)"
  by (cases n) simp_all

lemma run_loop_add: "run_loop h up (m + n) c = run_loop h up n (run_loop h up m c)"
proof (induction m arbitrary: c)
  case (Suc m)
  have "run_loop h up n c = c" if "daemon_next h up c = None"
    using that by (cases n) simp_all
  then show ?case using Suc.IH by (simp split: option.split)
qed simp

text \<open>
  A host on which no shutdown signal resolves, whatever the replies are.
\<close>

definition quiet_host :: "'w host \<Rightarrow> bool" where
  "quiet_host h \<longleftrightarrow> (\<forall>r w. ev_signalled (ho_env h) r w = None) \<and>
     (\<forall>d w. fst (ho_sleep h d w) = None) \<and> (\<forall>w. ho_ready h w = None)"

definition unsignalled :: "'w frame_rel" where
  "unsignalled b s s' \<longleftrightarrow> (shutdown s = None \<longrightarrow> \<not> b \<and> shutdown s' = None)"

lemma await_unsignalled:
  assumes "\<And>r w. ev_signalled env r w = None" and "await env r s = (x, s')"
  shows "\<not> dropped x \<and> shutdown s' = shutdown s"
  using assms by (auto simp: await_def complete_request_def split: option.splits prod.splits if_splits)

lemma quiet_write_frame:
  assumes "\<And>r w. ev_signalled (env :: 'w env) r w = None"
  shows "write_frame env unsignalled"
proof
  fix s s' :: "'w sys" and r x
  assume "await env r s = (x, s')"
  then show "unsignalled False s s'"
    using await_unsignalled [OF assms] by (simp add: unsignalled_def)
next
  fix s s' :: "'w sys" and u q x
  assume "await env (get_request u q) s = (x, s')"
  then show "unsignalled (dropped x) s s'"
    using await_unsignalled [OF assms] by (simp add: unsignalled_def)
qed (auto simp: unsignalled_def merge_sys_def set_in_flight_def)

lemma quiet_cycle:
  assumes "quiet_host h" and "at_rest s"
  obtains report s' where "run_cycle_locked (ho_env h) up (begin_cycle s) = (Done report, s')" "shutdown s' = None"
proof -
  obtain x s' where x: "run_cycle_locked (ho_env h) up (begin_cycle s) = (x, s')"
    by (cases "run_cycle_locked (ho_env h) up (begin_cycle s)")
  have "write_frame (ho_env h) unsignalled"
    using assms(1) by (intro quiet_write_frame) (simp add: quiet_host_def)
  then have "unsignalled (dropped x) (begin_cycle s) s'"
    using frame_topD [OF write_frame.top_run_cycle_locked x] assms(2) by (auto simp: at_rest_def)
  then show ?thesis
    using that x cycle_at_rest(2) [OF assms(2) x] by (cases x) (auto simp: unsignalled_def)
qed

lemma quiet_sleep: "quiet_host h \<Longrightarrow> \<exists>w'. ho_sleep h d w = (None, w')"
  by (metis prod.collapse quiet_host_def)

text \<open>Between two cycles the daemon starts the next one in the world as it is, or as the sleep left it.\<close>

lemma quiet_wait:
  assumes "quiet_host h"
  obtains w where "daemon_next h up (Waiting st, s) = Some (Cycling st, s\<lparr>world := w\<rparr>)"
    "w = world s \<or> (\<exists>d. w = snd (ho_sleep h d (world s)))"
proof (cases "ds_next_delay st = 0")
  case True
  then show ?thesis using that [of "world s"] by simp
next
  case False
  obtain w where w: "ho_sleep h (ds_next_delay st) (world s) = (None, w)"
    using quiet_sleep [OF assms] by blast
  then have "w = snd (ho_sleep h (ds_next_delay st) (world s))" by simp
  moreover have "daemon_next h up (Waiting st, s) = Some (Cycling st, s\<lparr>world := w\<rparr>)" using w False by simp
  ultimately show ?thesis using that by blast
qed

lemma quiet_two_steps:
  assumes "quiet_host h" and "at_rest s"
  shows "\<exists>st' s' w. run_loop h up (Suc (Suc n)) (Waiting st, s) = run_loop h up n (Waiting st', s') \<and> at_rest s' \<and>
    (\<exists>report. run_cycle_locked (ho_env h) up (begin_cycle (s\<lparr>world := w\<rparr>)) = (Done report, s') \<and>
      st' = after_cycle h (world s') (interval (up_config up)) report st)"
proof -
  obtain w where w: "daemon_next h up (Waiting st, s) = Some (Cycling st, s\<lparr>world := w\<rparr>)"
    using quiet_wait [OF assms(1)] by blast
  have rest: "at_rest (s\<lparr>world := w\<rparr>)" using assms(2) by (simp add: at_rest_def)
  obtain report s' where c: "run_cycle_locked (ho_env h) up (begin_cycle (s\<lparr>world := w\<rparr>)) = (Done report, s')" "shutdown s' = None"
    by (rule quiet_cycle [OF assms(1) rest])
  moreover have "at_rest s'" by (rule cycle_at_rest(1) [OF rest c(1)])
  moreover have "ho_ready h w = None" using assms(1) by (simp add: quiet_host_def)
  ultimately show ?thesis
    using w by (intro exI [of _ "after_cycle h (world s') (interval (up_config up)) report st"] exI [of _ s'] exI [of _ w]) simp
qed

lemma quiet_steps:
  assumes "quiet_host h" and "at_rest s"
  shows "\<exists>st s'. run_loop h up (2 * n) (Waiting st0, s) = (Waiting st, s') \<and> at_rest s'"
  using assms(2)
proof (induction n arbitrary: st0 s)
  case (Suc n)
  obtain st s' where "run_loop h up (Suc (Suc (2 * n))) (Waiting st0, s) = run_loop h up (2 * n) (Waiting st, s')" "at_rest s'"
    using quiet_two_steps [OF assms(1) Suc.prems] by blast
  then show ?case using Suc.IH [of s' st] by simp
qed simp

text \<open>
  C22: the service survives every synchronisation failure. Without a shutdown signal the loop runs
  for ever whatever the requests return: after every pair of steps it is waiting for the next
  cycle, and in between it has run one more cycle to its end.
\<close>

theorem daemon_runs_for_ever:
  assumes "quiet_host h" and "timers s = []" and "\<not> mutation_in_flight (control s)"
  shows "\<exists>st s'. run_loop h up (2 * n) (Waiting st0, s) = (Waiting st, s') \<and>
    (\<exists>w report s''. run_cycle_locked (ho_env h) up (begin_cycle (s'\<lparr>world := w\<rparr>)) = (Done report, s'') \<and>
       run_loop h up (2 * n + 2) (Waiting st0, s) =
         (Waiting (after_cycle h (world s'') (interval (up_config up)) report st), s''))"
proof -
  obtain st s' where n: "run_loop h up (2 * n) (Waiting st0, s) = (Waiting st, s')" "at_rest s'"
    using quiet_steps [OF assms(1), of s up n st0] assms(2,3) by (auto simp: at_rest_def)
  obtain st' s'' w report where m: "run_loop h up (Suc (Suc 0)) (Waiting st, s') = (Waiting st', s'')"
    "run_cycle_locked (ho_env h) up (begin_cycle (s'\<lparr>world := w\<rparr>)) = (Done report, s'')"
    "st' = after_cycle h (world s'') (interval (up_config up)) report st"
    using quiet_two_steps [OF assms(1) n(2), of up 0 st] unfolding run_loop.simps(1) by blast
  have "run_loop h up (2 * n + 2) (Waiting st0, s) = (Waiting st', s'')"
    using m(1) n(1) unfolding run_loop_add numeral_2_eq_2 by simp
  then show ?thesis using n(1) m(2,3) by blast
qed

text \<open>
  The number of steps given to the executable loop is immaterial: it visits exactly the
  states the step relation reaches, and once it has returned a result, every larger number of
  steps gives the same result in the same state.
\<close>

lemma run_loop_adequate:
  "(daemon_reach h up c d \<longleftrightarrow> (\<exists>n. run_loop h up n c = d)) \<and>
   (run_loop h up m c = (Returned r, s) \<longrightarrow> run_loop h up (m + k) c = (Returned r, s))"
proof (intro conjI impI)
  show "daemon_reach h up c d \<longleftrightarrow> (\<exists>n. run_loop h up n c = d)"
    using run_loop_reach [of h up c] reach_run_loop [of h up c d] by auto
qed (simp add: run_loop_add run_loop_returned)

section \<open>A running daemon\<close>

text \<open>The service of the examples, on a host without signals.\<close>

definition home_host :: "nat host" where
  "home_host = \<lparr>ho_env = home_service [sample_dns_record], ho_sleep = (\<lambda>d w. (None, w)),
     ho_ready = (\<lambda>_. None), ho_time = (\<lambda>_. Some (1700000000, 0)), ho_pid = 1\<rparr>"

lemma home_quiet: "quiet_host home_host"
  by (simp add: quiet_host_def home_host_def home_service_def sample_service_def prompt_def scripted_def)

theorem daemon_runs_for_ever_witness:
  "\<exists>st s'. run_loop home_host home_updater 14 (Waiting (first_state 0), home_sys) = (Waiting st, s')"
  using daemon_runs_for_ever [OF home_quiet, of home_sys home_updater 7 "first_state 0"] by auto

lemma run_loop_adequate_witness:
  "run_loop home_host home_updater (0 + 7) (Returned (Inr ()), home_sys) = (Returned (Inr ()), home_sys)"
  using run_loop_adequate [of home_host home_updater "(Returned (Inr ()), home_sys)" _ 0 "Inr ()" home_sys 7] by simp

theorem daemon_writes_safe_witness:
  "\<not> mutation_in_flight (control (snd (run_loop home_host home_updater 3 (Waiting (first_state 0), home_sys))))"
  using daemon_writes_safe [of home_host home_updater 0 home_sys] run_loop_reach
  by (metis home_idle(1,3) prod.collapse)

lemma daemon_progress_witness:
  "\<exists>c. daemon_step home_host home_updater (run_loop home_host home_updater 4 (Waiting (first_state 0), home_sys)) c"
proof -
  obtain st s' where r: "run_loop home_host home_updater (2 * 2) (Waiting (first_state 0), home_sys) = (Waiting st, s')"
    using quiet_steps [OF home_quiet, of home_sys home_updater 2 "first_state 0"] by (auto simp: at_rest_def)
  have "daemon_reach home_host home_updater (Waiting (first_state 0), home_sys) (Waiting st, s')"
    using run_loop_reach [of home_host home_updater "(Waiting (first_state 0), home_sys)" "2 * 2"] r by simp
  then have "\<exists>c. daemon_step home_host home_updater (Waiting st, s') c"
    using daemon_progress [of home_host home_updater 0 home_sys "Waiting st" s'] by (metis daemon_phase.distinct(3) home_idle(1,3))
  then show ?thesis using r by simp
qed

theorem daemon_delays_bounded_witness:
  "\<exists>st s'. run_loop home_host home_updater 2 (Waiting (first_state 0), home_sys) = (Waiting st, s') \<and>
     from_secs 2 \<le> ds_next_delay st \<and> ds_next_delay st \<le> from_secs 86400"
proof -
  have valid: "validate sample_url_parser (up_config home_updater) = Inr ()"
    using sample_config_valid by (simp add: validate_iff_valid home_updater_def)
  have rest: "at_rest home_sys" by (simp add: at_rest_def)
  obtain w report s' where r: "run_loop home_host home_updater (Suc (Suc 0)) (Waiting (first_state 0), home_sys) =
      (Waiting (after_cycle home_host (world s') (interval (up_config home_updater)) report (first_state 0)), s')"
    "run_cycle_locked (ho_env home_host) home_updater (begin_cycle (home_sys\<lparr>world := w\<rparr>)) = (Done report, s')"
    using quiet_two_steps [OF home_quiet rest, of home_updater 0 "first_state 0"] unfolding run_loop.simps(1) by blast
  let ?st = "after_cycle home_host (world s') (interval (up_config home_updater)) report (first_state 0)"
  have "min (from_secs 2) (interval (up_config home_updater)) \<le> ds_next_delay ?st"
    by (rule after_cycle_delay(1) [OF cycle_short [OF r(2)]])
  moreover have "0 < min (from_secs 2) (interval (up_config home_updater))"
    by (simp add: interval_def home_updater_def sample_config_def default_config_def DEFAULT_INTERVAL_SECONDS_def)
  moreover have "ds_next_delay (first_state 0) = 0" by (simp add: first_state_def)
  ultimately have new: "?st \<noteq> first_state 0"
    by (metis le_zero_eq less_irrefl)
  have "daemon_reach home_host home_updater (Waiting (first_state 0), home_sys) (Waiting ?st, s')"
    using run_loop_reach [of home_host home_updater "(Waiting (first_state 0), home_sys)" "Suc (Suc 0)"] r(1) by simp
  then show ?thesis
    using daemon_delays_bounded [OF valid _ new] r(1) unfolding numeral_2_eq_2 by auto
qed

end
