(* ===== verification/Cli.thy ===== *)
theory Cli
  imports Check Daemon
begin

text \<open>
  \<open>main.rs\<close> and \<open>error.rs\<close>: the commands, from the construction of the updater to the exit
  code. A command runs from a fresh process; the files, the token variable, the HTTP client
  builders, the lock library, the log library and standard output are fields of the record
  \<open>machine\<close>. The command line is parsed by a library, so the parsed arguments are given.
\<close>

section \<open>Errors and exit codes\<close>

definition FAILURE_EXIT_CODE :: u8 where "FAILURE_EXIT_CODE = 1"

datatype app_error =
    AppConfig config_error
  | AppCloudflare cloudflare_error
  | AppPublicIp public_ip_error
  | AppDaemon daemon_error
  | AppLogging string
  | AppOutput io_error
  | AppSynchronization string
  | AppCheck string

fun app_error_text :: "app_error \<Rightarrow> string" where
  "app_error_text (AppConfig e) = config_error_text e"
| "app_error_text (AppCloudflare e) = cloudflare_error_text e"
| "app_error_text (AppPublicIp e) = public_ip_error_text e"
| "app_error_text (AppDaemon e) = daemon_error_text e"
| "app_error_text (AppLogging message) = ''failed to initialize logging: '' @ message"
| "app_error_text (AppOutput e) = ''failed to write output: '' @ io_text e"
| "app_error_text (AppSynchronization message) = ''synchronization failed: '' @ message"
| "app_error_text (AppCheck message) = ''configuration check failed: '' @ message"

section \<open>Commands\<close>

datatype command = CmdRun | CmdOnce | CmdCheck bool bool | CmdPrintConfig

record cli =
  cli_config :: string
  cli_verbose :: u8
  cli_quiet :: bool
  cli_command :: command

text \<open>A line of the log: its level, its text and its fields.\<close>

datatype log_level = LevelError | LevelWarn | LevelInfo

record log_line =
  ll_level :: log_level
  ll_message :: string
  ll_fields :: "(string \<times> string) list"

text \<open>
  What surrounds the process: the host of the daemon, the deserialiser, the files behind the
  paths of the configuration and of the token, the token variable, the test of a header value,
  the outcomes of the two HTTP client builders, what the lock identity and the lock ask of the
  file system, the lock library, the iteration order of the zones, writing to standard output
  (its outcome and what was written), and the log library over its filters.
\<close>

record ('w, 'l, 'f) machine =
  ma_host :: "'w host"
  ma_toml :: toml_parser
  ma_config_file :: "string \<Rightarrow> file_view"
  ma_token_var :: env_var
  ma_token_file :: "string \<Rightarrow> file_view"
  ma_header_ok :: "string \<Rightarrow> bool"
  ma_cf_builder :: "string option"
  ma_pip_builder :: "string option"
  ma_var_lib :: "(metadata, io_error) result"
  ma_tmp :: "string option"
  ma_lock_os :: lock_os
  ma_locker :: "'l locker"
  ma_zone_order :: "configured_zone list \<Rightarrow> configured_zone list"
  ma_write_all :: "string \<Rightarrow> (unit, io_error) result \<times> string"
  ma_rust_log :: "string option"
  ma_filter_new :: "string \<Rightarrow> 'f"
  ma_filter_try_new :: "string \<Rightarrow> 'f option"
  ma_try_init :: "'f \<Rightarrow> string option"

definition ma_env :: "('w, 'l, 'f) machine \<Rightarrow> 'w env" where
  "ma_env m = ho_env (ma_host m)"

text \<open>The process: the state of the runtime, the advisory locks, and what was printed and logged.\<close>

record ('w, 'l) process =
  pr_sys :: "'w sys"
  pr_locks :: 'l
  pr_log :: "log_line list"
  pr_stdout :: string
  pr_stderr :: string

definition fresh_process :: "'w \<Rightarrow> 'l \<Rightarrow> ('w, 'l) process" where
  "fresh_process w l = \<lparr>pr_sys = idle_sys w, pr_locks = l, pr_log = [], pr_stdout = [], pr_stderr = []\<rparr>"

definition log_lines :: "log_line list \<Rightarrow> ('w, 'l) process \<Rightarrow> ('w, 'l) process" where
  "log_lines ls pr = pr\<lparr>pr_log := pr_log pr @ ls\<rparr>"

section \<open>Logging\<close>

definition select_log_filter :: "('w, 'l, 'f) machine \<Rightarrow> u8 \<Rightarrow> bool \<Rightarrow> string option \<Rightarrow> 'f" where
  "select_log_filter m verbose quiet rust_log =
     (if quiet then ma_filter_new m ''cirrusync=warn''
      else if verbose = 0 then
        (case rust_log of
           None \<Rightarrow> ma_filter_new m ''cirrusync=info''
         | Some directives \<Rightarrow>
             if trim directives = [] then ma_filter_new m ''cirrusync=info''
             else (case ma_filter_try_new m directives of
                 None \<Rightarrow> ma_filter_new m ''cirrusync=info''
               | Some selected \<Rightarrow> selected))
      else if verbose = 1 then ma_filter_new m ''cirrusync=debug''
      else ma_filter_new m ''cirrusync=trace'')"

definition init_logging :: "('w, 'l, 'f) machine \<Rightarrow> u8 \<Rightarrow> bool \<Rightarrow> (unit, app_error) result" where
  "init_logging m verbose quiet =
     (case ma_try_init m (select_log_filter m verbose quiet (ma_rust_log m)) of
        Some e \<Rightarrow> Inl (AppLogging e)
      | None \<Rightarrow> Inr ())"

definition failure_line :: "string \<Rightarrow> cycle_failure \<Rightarrow> log_line" where
  "failure_line message f = \<lparr>ll_level = LevelError, ll_message = message,
     ll_fields = [(''target_name'', cf_target f), (''stage'', failure_stage_text (cf_stage f)), (''error'', cf_message f)]\<rparr>"

definition bool_text :: "bool \<Rightarrow> string" where
  "bool_text b = (if b then ''true'' else ''false'')"

definition report_cycle :: "cycle_report \<Rightarrow> log_line list" where
  "report_cycle report =
     map (failure_line ''record synchronization failed'') (cr_failures report) @
     [if cycle_success report
      then \<lparr>ll_level = LevelInfo, ll_message = ''synchronization cycle completed'',
            ll_fields = [(''report'', cycle_report_text report)]\<rparr>
      else \<lparr>ll_level = LevelWarn, ll_message = ''synchronization cycle completed with failures'',
            ll_fields = [(''report'', cycle_report_text report)]\<rparr>]"

definition report_check :: "check_report \<Rightarrow> log_line list" where
  "report_check report =
     map (failure_line ''configuration check failed'') (ck_failures report) @
     (if check_success report then
        [\<lparr>ll_level = LevelInfo, ll_message = ''configuration check completed'',
          ll_fields = [(''report'', check_report_text report), (''authenticated'', bool_text (ck_authenticated report)),
            (''edit_permission_verified'', bool_text (ck_edit_permission_verified report))]\<rparr>] @
        (if ck_creatable report > 0 then
           [\<lparr>ll_level = LevelWarn,
             ll_message = ''configured missing records are eligible for creation but were not created'',
             ll_fields = [(''eligible_missing_records'', show_nat (ck_creatable report))]\<rparr>]
         else [])
      else [])"

section \<open>The example configuration\<close>

definition EXAMPLE_CONFIG :: string where
  \<open>EXAMPLE_CONFIG = concat (map (\<lambda>line. line @ [CHR 0x0A])
     [''interval_seconds = 300'',
      ''request_timeout_seconds = 15'',
      '''',
      ''[cloudflare]'',
      ''api_token_file = "/etc/cirrusync/token"'',
      ''# Required for a cfat_ account-owned token; omit for a user-owned token.'',
      ''# account_id = "0123456789abcdef0123456789abcdef"'',
      '''',
      ''[ipv4]'',
      ''enabled = true'',
      ''providers = ['',
      ''    "https://api.cloudflare.com/cdn-cgi/trace",'',
      ''    "https://api.ipify.org",'',
      '']'',
      '''',
      ''[ipv6]'',
      ''enabled = false'',
      ''providers = ["https://api6.ipify.org"]'',
      '''',
      ''[[records]]'',
      ''zone = "example.com"'',
      ''name = "home.example.com"'',
      ''type = "A"'',
      ''ttl = 120'',
      ''proxied = false'',
      ''create_if_missing = false''])\<close>

definition example_toml :: string where
  "example_toml = EXAMPLE_CONFIG"

definition write_example_config :: "('w, 'l, 'f) machine \<Rightarrow> ('w, 'l) process
    \<Rightarrow> (unit, app_error) result \<times> ('w, 'l) process" where
  "write_example_config m pr =
     (case ma_write_all m example_toml of (r, written) \<Rightarrow>
        (map_err AppOutput r, pr\<lparr>pr_stdout := pr_stdout pr @ written\<rparr>))"

section \<open>Executing a command\<close>

text \<open>The updater, and the line logged once the configuration is loaded.\<close>

definition build_updater :: "('w, 'l, 'f) machine \<Rightarrow> string \<Rightarrow> (updater, app_error) result \<times> log_line list" where
  "build_updater m path =
     (let parse = ev_parse_url (ma_env m) in
      case config_load (ma_toml m) parse path (ma_config_file m path) of
        Inl e \<Rightarrow> (Inl (AppConfig e), [])
      | Inr c \<Rightarrow>
          (bind_res (map_err AppConfig (load_api_token c (ma_token_var m) (ma_token_file m (api_token_file (cloudflare c))))) (\<lambda>token.
           bind_res (map_err AppCloudflare
             (case account_id (cloudflare c) of
                Some aid \<Rightarrow> cf_new_with_account_id (ma_header_ok m) (ma_cf_builder m) parse token aid (request_timeout c)
              | None \<Rightarrow> cf_new (ma_header_ok m) (ma_cf_builder m) parse token (request_timeout c))) (\<lambda>client.
           bind_res (map_err AppPublicIp (pip_build (request_timeout c) (ma_pip_builder m))) (\<lambda>public_ip.
           map_err AppConfig (updater_new parse (ma_var_lib m) (ma_tmp m) c client public_ip)))),
           [\<lparr>ll_level = LevelInfo, ll_message = ''configuration loaded'',
             ll_fields = [(''path'', path), (''records'', show_nat (length (records c))),
               (''interval_seconds'', show_nat (interval_seconds c))]\<rparr>]))"

text \<open>
  \<open>acquire_runtime_lock\<close> around a computation: the guard that it returns is dropped, and its
  files are unlocked, when the computation is over.
\<close>

definition guard_files :: "(string list option, runtime_lock_error) result \<Rightarrow> string list" where
  "guard_files lock = (case lock of Inr (Some files) \<Rightarrow> files | _ \<Rightarrow> [])"

definition with_runtime_lock :: "('w, 'l, 'f) machine \<Rightarrow> updater
    \<Rightarrow> ((string list option, runtime_lock_error) result \<Rightarrow> ('w, 'a) io) \<Rightarrow> ('w, 'l) process
    \<Rightarrow> 'a fut \<times> ('w, 'l) process" where
  "with_runtime_lock m up body pr =
     (case acquire (ma_locker m) (ma_lock_os m) (up_runtime_lock up) (pr_locks pr) of (lock, l) \<Rightarrow>
        case body lock (pr_sys pr) of (x, s) \<Rightarrow>
          (x, pr\<lparr>pr_sys := s, pr_locks := release (ma_locker m) (guard_files lock) l\<rparr>))"

text \<open>\<open>daemon::run\<close> as the command runs it: \<open>None\<close> while the loop is running.\<close>

definition execute_run :: "nat \<Rightarrow> ('w, 'l, 'f) machine \<Rightarrow> updater \<Rightarrow> ('w, 'l) process
    \<Rightarrow> (unit, app_error) result option \<times> ('w, 'l) process" where
  "execute_run fuel m up pr =
     (case acquire (ma_locker m) (ma_lock_os m) (up_runtime_lock up) (pr_locks pr) of (lock, l) \<Rightarrow>
        case daemon_run (ma_host m) lock up JITTER_COUNTER fuel (pr_sys pr) of (p, s) \<Rightarrow>
          (case p of
             Returned r \<Rightarrow> (Some (map_err AppDaemon r),
               pr\<lparr>pr_sys := s, pr_locks := release (ma_locker m) (guard_files lock) l\<rparr>)
           | _ \<Rightarrow> (None, pr\<lparr>pr_sys := s, pr_locks := l\<rparr>)))"

definition execute_once :: "('w, 'l, 'f) machine \<Rightarrow> updater \<Rightarrow> ('w, 'l) process
    \<Rightarrow> (unit, app_error) result option \<times> ('w, 'l) process" where
  "execute_once m up pr =
     (case with_runtime_lock m up (\<lambda>lock. run_cycle (ma_env m) lock up) pr of
        (Done report, pr') \<Rightarrow>
          (Some (if cycle_success report then Inr () else Inl (AppSynchronization (cycle_report_text report))),
           log_lines (report_cycle report) pr')
      | (_, pr') \<Rightarrow> (None, pr'))"

text \<open>A check without permissions does not take the lock.\<close>

definition execute_check :: "('w, 'l, 'f) machine \<Rightarrow> updater \<Rightarrow> bool \<Rightarrow> bool \<Rightarrow> ('w, 'l) process
    \<Rightarrow> (unit, app_error) result option \<times> ('w, 'l) process" where
  "execute_check m up allow_create allow_edit_probe pr =
     (let run = (\<lambda>lock. check (ma_env m) (ma_zone_order m) lock up allow_create allow_edit_probe) in
      case (if allow_create \<or> allow_edit_probe then with_runtime_lock m up run pr
            else (case run (Inr None) (pr_sys pr) of (x, s) \<Rightarrow> (x, pr\<lparr>pr_sys := s\<rparr>))) of
        (Done report, pr') \<Rightarrow>
          (Some (if check_success report then Inr () else Inl (AppCheck (check_report_text report))),
           log_lines (report_check report) pr')
      | (_, pr') \<Rightarrow> (None, pr'))"

definition execute :: "nat \<Rightarrow> ('w, 'l, 'f) machine \<Rightarrow> cli \<Rightarrow> ('w, 'l) process
    \<Rightarrow> (unit, app_error) result option \<times> ('w, 'l) process" where
  "execute fuel m args pr =
     (if cli_command args = CmdPrintConfig then
        (case write_example_config m pr of (r, pr') \<Rightarrow> (Some r, pr'))
      else
        (case build_updater m (cli_config args) of
           (Inl e, ls) \<Rightarrow> (Some (Inl e), log_lines ls pr)
         | (Inr up, ls) \<Rightarrow>
             (case cli_command args of
                CmdRun \<Rightarrow> execute_run fuel m up (log_lines ls pr)
              | CmdOnce \<Rightarrow> execute_once m up (log_lines ls pr)
              | CmdCheck allow_create allow_edit_probe \<Rightarrow>
                  execute_check m up allow_create allow_edit_probe (log_lines ls pr)
              | CmdPrintConfig \<Rightarrow> (case write_example_config m (log_lines ls pr) of (r, pr') \<Rightarrow> (Some r, pr')))))"

text \<open>The exit code, or \<open>None\<close> while the process is running.\<close>

definition main :: "nat \<Rightarrow> ('w, 'l, 'f) machine \<Rightarrow> cli \<Rightarrow> 'w \<Rightarrow> 'l \<Rightarrow> u8 option \<times> ('w, 'l) process" where
  "main fuel m args w l =
     (let pr = fresh_process w l in
      case init_logging m (cli_verbose args) (cli_quiet args) of
        Inl e \<Rightarrow> (Some FAILURE_EXIT_CODE,
          pr\<lparr>pr_stderr := ''cirrusync: '' @ app_error_text e @ [CHR 0x0A]\<rparr>)
      | Inr _ \<Rightarrow>
          (case execute fuel m args pr of
             (None, pr') \<Rightarrow> (None, pr')
           | (Some (Inr _), pr') \<Rightarrow> (Some 0, pr')
           | (Some (Inl e), pr') \<Rightarrow> (Some FAILURE_EXIT_CODE,
               log_lines [\<lparr>ll_level = LevelError, ll_message = ''command failed'',
                 ll_fields = [(''error'', app_error_text e)]\<rparr>] pr')))"

section \<open>Whole commands\<close>

text \<open>
  Frames of the check, for relations that allow a fresh control block; and the frame of a
  computation that nobody can interrupt: without a listener for the signal it is never dropped.
\<close>

context write_frame
begin

lemma top_existing: "frame_top R (handle_existing_check_record env client options r zid existing proofs report)"
  unfolding handle_existing_check_record_def probe_edit_permission_def probe_record_edit_def Let_def
  by (auto intro!: top_intros top_send_record)

lemma top_missing: "frame_top R (handle_missing_check_record env client addresses options r zid proofs report)"
proof -
  have find: "frame_top R (timeout_at d (find_record env client zid rtype rname))" for d rtype rname
    by (intro frame_top_read frame_timeout_at frame_find_record timers_frame.frame_timeout_at timers_frame.frame_find_record)
  show ?thesis
    unfolding handle_missing_check_record_def create_record_def
    by (auto intro!: top_intros top_send_record top_existing find split: sum.split option.split)
qed

lemma top_check_loop: "frame_top R (check_loop env client addresses options rs proofs report)"
proof (induction rs arbitrary: proofs report)
  case (Cons r rs)
  have "frame_top R (inspect_check_record env client r (co_deadline options) proofs)" for proofs
    by (intro frame_top_read frame_inspect timers_frame.frame_inspect)
  then have "frame_top R (check_record env client addresses options r proofs report)" for proofs report
    unfolding check_record_def
    by (auto intro!: top_bind_io top_ret top_existing top_missing
        split: sum.split check_lookup_error.split option.split prod.split)
  then show ?case
    using Cons.IH by (auto intro!: top_bind_io top_ret split: prod.split)
qed (simp add: top_ret)

lemma top_check_until:
  assumes "frame_top R fresh_control"
  shows "frame_top R (check_until env order up allow_create allow_edit_probe deadline)"
proof -
  have "frame_top R (timeout_at deadline (verify_token env client))" for client
    by (intro frame_top_read frame_timeout_at frame_verify_token timers_frame.frame_timeout_at timers_frame.frame_verify_token)
  then show ?thesis
    unfolding check_until_def check_records_def Let_def
    by (auto intro!: top_bind_io top_discovery top_ret assms top_check_loop split: option.split sum.split prod.split)
qed

lemma top_check:
  assumes "frame_top R fresh_control"
  shows "frame_top R (check env order lock up allow_create allow_edit_probe)"
  unfolding check_def Let_def
  by (auto intro!: frame_top_get_sys top_check_until assms top_ret split: sum.split)

lemma top_run_cycle:
  assumes "frame_top R fresh_control"
  shows "frame_top R (run_cycle env lock up)"
  unfolding run_cycle_def by (auto intro!: top_bind_io top_run_cycle_locked assms top_ret split: sum.split)

end

lemma settled_check: "settled (check env order lock up allow_create allow_edit_probe)"
proof -
  have control: "settled fresh_control" by (simp add: settled_def fresh_control_def modify_sys_def)
  have inspect: "settled (inspect_check_record env client r deadline proofs)" for client r deadline proofs
    unfolding inspect_check_record_def lookup_before_def
    by (auto intro!: settled_intros settled_resolve_zone_id settled_find_record split: sum.split)
  have existing: "settled (handle_existing_check_record env client options r zid e proofs report)" for client options r zid e proofs report
    unfolding handle_existing_check_record_def probe_edit_permission_def probe_record_edit_def Let_def
    by (auto intro!: settled_intros settled_send_record)
  have missing: "settled (handle_missing_check_record env client addresses options r zid proofs report)"
    for client addresses options r zid proofs report
    unfolding handle_missing_check_record_def create_record_def
    by (auto intro!: settled_intros settled_send_record settled_find_record existing split: sum.split option.split)
  have loop: "settled (check_loop env client addresses options rs proofs report)" for client addresses options rs proofs report
    by (induction rs arbitrary: proofs report)
       (auto intro!: settled_intros inspect existing missing simp: check_record_def
         split: sum.split check_lookup_error.split option.split prod.split)
  have verify: "settled (verify_token env client)" for client
    unfolding verify_token_def by (intro settled_intros settled_send)
  have discover: "settled (discover_required_addresses env up)"
    unfolding discover_required_addresses_def Let_def by (auto intro!: settled_intros settled_discover_lane)
  have "settled (check_until env order up allow_create allow_edit_probe deadline)" for deadline
    unfolding check_until_def check_records_def Let_def
    by (auto intro!: settled_intros control verify discover loop split: option.split sum.split prod.split)
  then show ?thesis
    unfolding check_def Let_def by (auto intro!: settled_intros split: sum.split)
qed

lemma settled_run_cycle: "settled (run_cycle env lock up)"
proof -
  have "settled fresh_control" by (simp add: settled_def fresh_control_def modify_sys_def)
  then show ?thesis
    unfolding run_cycle_def by (auto intro!: settled_bind settled_run_cycle_locked settled_ret split: sum.split)
qed

definition deaf :: "'w frame_rel" where
  "deaf b s s' \<longleftrightarrow> (\<not> listening s \<longrightarrow> \<not> b \<and> \<not> listening s')"

interpretation deaf_write: write_frame env deaf for env :: "'w env"
proof
  fix s s' :: "'w sys" and r x
  assume "await env r s = (x, s')"
  then show "deaf False s s'"
    by (auto simp: deaf_def await_def complete_request_def split: option.splits prod.splits if_splits)
next
  fix s s' :: "'w sys" and u q x
  assume "await env (get_request u q) s = (x, s')"
  then show "deaf (dropped x) s s'"
    by (auto simp: deaf_def await_def complete_request_def split: option.splits prod.splits if_splits)
qed (auto simp: deaf_def merge_sys_def set_in_flight_def)

lemma undisturbed_Done:
  assumes "settled m" and "frame_top deaf m" and "timers s = []" and "\<not> listening s"
  obtains a s' where "m s = (Done a, s')"
proof -
  obtain x s' where x: "m s = (x, s')" by (cases "m s")
  have "\<not> dropped x" using frame_topD [OF assms(2) x assms(3)] assms(4) by (simp add: deaf_def)
  moreover have "x \<noteq> Expired n" for n using settledD [OF assms(1) x] assms(3) by auto
  ultimately show ?thesis using that x by (cases x) auto
qed

lemma control_frames:
  "frame_top deaf fresh_control" "frame_top (\<lambda>_. mutations_replied) fresh_control"
  by (auto simp: frame_top_def fresh_control_def modify_sys_def deaf_def mutations_replied_def intro: adds_same)

section \<open>The updater of a command\<close>

lemma with_api_base_Inr:
  assumes "with_api_base header_ok builder_error parse token aid timeout base = Inr client"
  shows "cc_api_token client = token" and "cc_request_timeout client = timeout"
    and "select_verification_target token aid = Inr (cc_verification_target client)"
    and "header_ok (''Bearer '' @ token)"
  using assms by (auto simp: with_api_base_def bind_res_Inr_iff Let_def)

lemma cf_client_choice:
  "(case aid of Some a \<Rightarrow> cf_new_with_account_id header_ok builder_error parse token a timeout
      | None \<Rightarrow> cf_new header_ok builder_error parse token timeout) =
     with_api_base header_ok builder_error parse token aid timeout API_BASE"
  by (simp add: cf_new_def cf_new_with_account_id_def split: option.split)

lemma build_updater_Inr:
  assumes "build_updater m path = (Inr up, ls)"
  shows "config_load (ma_toml m) (ev_parse_url (ma_env m)) path (ma_config_file m path) = Inr (up_config up)"
    and "load_api_token (up_config up) (ma_token_var m) (ma_token_file m (api_token_file (cloudflare (up_config up)))) =
      Inr (cc_api_token (up_cloudflare up))"
    and "select_verification_target (cc_api_token (up_cloudflare up)) (account_id (cloudflare (up_config up))) =
      Inr (cc_verification_target (up_cloudflare up))"
    and "cc_request_timeout (up_cloudflare up) = request_timeout (up_config up)"
    and "pc_timeout (up_public_ip up) = request_timeout (up_config up)"
    and "validate (ev_parse_url (ma_env m)) (up_config up) = Inr ()"
    and "up_runtime_lock up = for_config (ma_var_lib m) (ma_tmp m) (up_config up)"
proof -
  let ?parse = "ev_parse_url (ma_env m)"
  obtain c token client pip where steps:
    "config_load (ma_toml m) ?parse path (ma_config_file m path) = Inr c"
    "load_api_token c (ma_token_var m) (ma_token_file m (api_token_file (cloudflare c))) = Inr token"
    "with_api_base (ma_header_ok m) (ma_cf_builder m) ?parse token (account_id (cloudflare c)) (request_timeout c) API_BASE = Inr client"
    "pip_build (request_timeout c) (ma_pip_builder m) = Inr pip"
    "updater_new ?parse (ma_var_lib m) (ma_tmp m) c client pip = Inr up"
    using assms
    by (auto simp: build_updater_def Let_def cf_client_choice bind_res_Inr_iff split: sum.splits)
  have up: "up_config up = c" "up_cloudflare up = client" "up_public_ip up = pip"
    "up_runtime_lock up = for_config (ma_var_lib m) (ma_tmp m) c" "validate ?parse c = Inr ()"
    using steps(5) by (auto simp: updater_new_def bind_res_Inr_iff)
  show "config_load (ma_toml m) (ev_parse_url (ma_env m)) path (ma_config_file m path) = Inr (up_config up)"
    "load_api_token (up_config up) (ma_token_var m) (ma_token_file m (api_token_file (cloudflare (up_config up)))) =
      Inr (cc_api_token (up_cloudflare up))"
    "select_verification_target (cc_api_token (up_cloudflare up)) (account_id (cloudflare (up_config up))) =
      Inr (cc_verification_target (up_cloudflare up))"
    "cc_request_timeout (up_cloudflare up) = request_timeout (up_config up)"
    "validate (ev_parse_url (ma_env m)) (up_config up) = Inr ()"
    "up_runtime_lock up = for_config (ma_var_lib m) (ma_tmp m) (up_config up)"
    using steps(1,2) with_api_base_Inr [OF steps(3)] up by simp_all
  show "pc_timeout (up_public_ip up) = request_timeout (up_config up)"
    unfolding up using steps(4) by (auto simp: pip_build_def split: if_splits option.splits)
qed

lemma built_lock_enabled: "build_updater m path = (Inr up, ls) \<Longrightarrow> \<not> rl_disabled (up_runtime_lock up)"
  by (simp add: build_updater_Inr(7) for_config_def Let_def)

text \<open>
  An updater is built only from trusted parts: a configuration that was loaded from its file
  and is valid, a token that \<open>load_api_token\<close> accepted, whose kind agrees with the configured
  account, and two clients that share the configured request timeout, between 1 and 120 seconds.
\<close>

lemma build_updater_trusted:
  assumes "fst (build_updater m path) = Inr up"
  shows "config_load (ma_toml m) (ev_parse_url (ma_env m)) path (ma_config_file m path) = Inr (up_config up) \<and>
    validate (ev_parse_url (ma_env m)) (up_config up) = Inr () \<and>
    load_api_token (up_config up) (ma_token_var m) (ma_token_file m (api_token_file (cloudflare (up_config up)))) =
      Inr (cc_api_token (up_cloudflare up)) \<and>
    select_verification_target (cc_api_token (up_cloudflare up)) (account_id (cloudflare (up_config up))) =
      Inr (cc_verification_target (up_cloudflare up)) \<and>
    cc_request_timeout (up_cloudflare up) = pc_timeout (up_public_ip up) \<and>
    from_secs 1 \<le> pc_timeout (up_public_ip up) \<and> pc_timeout (up_public_ip up) \<le> from_secs 120 \<and>
    set (rl_resource_hashes (up_runtime_lock up)) = resource_lock_hash ` set (records (up_config up))"
proof -
  obtain ls where b: "build_updater m path = (Inr up, ls)"
    using assms by (cases "build_updater m path") auto
  have "valid_config (ev_parse_url (ma_env m)) (up_config up)"
    using build_updater_Inr(6) [OF b] by (simp add: validate_iff_valid)
  then show ?thesis
    using build_updater_Inr [OF b] by (simp add: valid_config_def request_timeout_def for_config_hashes)
qed

section \<open>Commands, locks and requests\<close>

lemma log_lines_simps [simp]:
  "pr_sys (log_lines ls pr) = pr_sys pr" "pr_locks (log_lines ls pr) = pr_locks pr"
  by (simp_all add: log_lines_def)

text \<open>What a command leaves: the shape of the process after each of them.\<close>

lemma main_cases:
  assumes "main fuel m args w l = (code, pr)"
  obtains (inert) "pr_sys pr = idle_sys w" "pr_locks pr = l" "code \<noteq> None" "code = Some 0 \<Longrightarrow> cli_command args = CmdPrintConfig"
    | (command) up ls r pr' where "build_updater m (cli_config args) = (Inr up, ls)"
      "pr_sys pr = pr_sys pr'" "pr_locks pr = pr_locks pr'"
      "code = map_option (\<lambda>x. case x of Inl _ \<Rightarrow> FAILURE_EXIT_CODE | Inr _ \<Rightarrow> 0) r"
      "(r, pr') = (case cli_command args of
          CmdRun \<Rightarrow> execute_run fuel m up (log_lines ls (fresh_process w l))
        | CmdOnce \<Rightarrow> execute_once m up (log_lines ls (fresh_process w l))
        | CmdCheck a b \<Rightarrow> execute_check m up a b (log_lines ls (fresh_process w l))
        | CmdPrintConfig \<Rightarrow> undefined)" "cli_command args \<noteq> CmdPrintConfig"
proof (cases "init_logging m (cli_verbose args) (cli_quiet args)")
  case (Inl e)
  then show ?thesis using assms inert by (auto simp: main_def Let_def fresh_process_def FAILURE_EXIT_CODE_def)
next
  case (Inr u)
  obtain r pr' where e: "execute fuel m args (fresh_process w l) = (r, pr')"
    by (cases "execute fuel m args (fresh_process w l)")
  have out: "pr_sys pr = pr_sys pr'" "pr_locks pr = pr_locks pr'"
    "code = map_option (\<lambda>x. case x of Inl _ \<Rightarrow> FAILURE_EXIT_CODE | Inr _ \<Rightarrow> 0) r"
    using assms Inr e by (auto simp: main_def Let_def split: option.splits sum.splits)
  show ?thesis
  proof (cases "cli_command args = CmdPrintConfig")
    case True
    then show ?thesis
      using e out inert by (auto simp: execute_def write_example_config_def fresh_process_def split: prod.splits)
  next
    case False
    obtain b ls where b: "build_updater m (cli_config args) = (b, ls)"
      by (cases "build_updater m (cli_config args)")
    show ?thesis
    proof (cases b)
      case (Inl err)
      then show ?thesis
        using e out b False inert by (auto simp: execute_def fresh_process_def FAILURE_EXIT_CODE_def)
    next
      case (Inr up)
      then show ?thesis
        using command [OF b [unfolded Inr] out] e b False
        by (auto simp: execute_def split: command.splits)
    qed
  qed
qed

text \<open>A computation under the lock: the lock is free again afterwards, and was granted if anything was written.\<close>

lemma with_runtime_lock_releases:
  assumes "exclusive (ma_locker m) holds" and "\<not> rl_disabled (up_runtime_lock up)"
    and "with_runtime_lock m up body pr = (x, pr')"
  shows "holds (pr_locks pr') q \<longleftrightarrow> holds (pr_locks pr) q"
proof -
  obtain lock k where a: "acquire (ma_locker m) (ma_lock_os m) (up_runtime_lock up) (pr_locks pr) = (lock, k)"
    by (cases "acquire (ma_locker m) (ma_lock_os m) (up_runtime_lock up) (pr_locks pr)")
  have "pr_locks pr' = release (ma_locker m) (guard_files lock) k"
    using assms(3) a by (auto simp: with_runtime_lock_def split: prod.splits)
  then show ?thesis
    using acquire_holds [OF assms(1) a assms(2)] release_holds [OF assms(1)]
    by (auto simp: guard_files_def split: sum.splits option.splits)
qed

lemma acquire_enabled:
  "\<not> rl_disabled lock \<Longrightarrow> acquire lk os lock l = (r, l') \<Longrightarrow> r \<noteq> Inr None"
  by (auto simp: acquire_def split: sum.splits prod.splits if_splits)

lemma execute_once_ends:
  assumes "timers (pr_sys pr) = []" and "\<not> listening (pr_sys pr)" and "execute_once m up pr = (r, pr')"
  obtains report pr1 where "with_runtime_lock m up (\<lambda>lock. run_cycle (ma_env m) lock up) pr = (Done report, pr1)"
    "r = Some (if cycle_success report then Inr () else Inl (AppSynchronization (cycle_report_text report)))"
    "pr' = log_lines (report_cycle report) pr1"
proof -
  obtain lock k where a: "acquire (ma_locker m) (ma_lock_os m) (up_runtime_lock up) (pr_locks pr) = (lock, k)"
    by (cases "acquire (ma_locker m) (ma_lock_os m) (up_runtime_lock up) (pr_locks pr)")
  obtain report s where "run_cycle (ma_env m) lock up (pr_sys pr) = (Done report, s)"
    by (rule undisturbed_Done [OF settled_run_cycle deaf_write.top_run_cycle [OF control_frames(1)] assms(1,2)])
  then have w: "\<exists>pr1. with_runtime_lock m up (\<lambda>lock. run_cycle (ma_env m) lock up) pr = (Done report, pr1)"
    by (simp add: with_runtime_lock_def a)
  then show ?thesis
    using that assms(3) by (auto simp: execute_once_def)
qed

lemma execute_check_ends:
  assumes "timers (pr_sys pr) = []" and "\<not> listening (pr_sys pr)"
  shows "fst (execute_check m up allow_create allow_edit_probe pr) \<noteq> None"
proof -
  obtain lock k where a: "acquire (ma_locker m) (ma_lock_os m) (up_runtime_lock up) (pr_locks pr) = (lock, k)"
    by (cases "acquire (ma_locker m) (ma_lock_os m) (up_runtime_lock up) (pr_locks pr)")
  have "\<exists>report s. check (ma_env m) (ma_zone_order m) g up allow_create allow_edit_probe (pr_sys pr) = (Done report, s)" for g
    by (rule undisturbed_Done [OF settled_check deaf_write.top_check [OF control_frames(1)] assms]) blast
  from this [of lock] this [of "Inr None"] show ?thesis
    by (auto simp: execute_check_def with_runtime_lock_def a)
qed

lemma fresh_process_simps [simp]:
  "pr_sys (fresh_process w l) = idle_sys w" "pr_locks (fresh_process w l) = l"
  by (simp_all add: fresh_process_def)

lemma main_ends:
  assumes "cli_command args \<noteq> CmdRun" and "main fuel m args w l = (code, pr)"
  shows "code \<noteq> None"
  using assms(2)
proof (cases rule: main_cases)
  case (command up ls r pr')
  have idle: "timers (pr_sys (log_lines ls (fresh_process w l))) = []" "\<not> listening (pr_sys (log_lines ls (fresh_process w l)))"
    by simp_all
  have "r \<noteq> None"
  proof (cases "cli_command args")
    case CmdOnce
    then have "execute_once m up (log_lines ls (fresh_process w l)) = (r, pr')"
      using command(5) by simp
    then show ?thesis by (rule execute_once_ends [OF idle]) simp
  next
    case (CmdCheck a b)
    then have "execute_check m up a b (log_lines ls (fresh_process w l)) = (r, pr')"
      using command(5) by simp
    then show ?thesis using execute_check_ends [OF idle, of m up a b] by simp
  qed (use assms(1) command(6) in simp_all)
  then show ?thesis using command(4) by simp
qed simp

text \<open>The state each command leaves, given what acquiring the lock returned.\<close>

lemma execute_run_sys:
  assumes "acquire (ma_locker m) (ma_lock_os m) (up_runtime_lock up) (pr_locks pr) = (lock, k)"
  shows "pr_sys (snd (execute_run fuel m up pr)) = snd (daemon_run (ma_host m) lock up JITTER_COUNTER fuel (pr_sys pr))"
  using assms by (simp add: execute_run_def split: prod.split daemon_phase.split)

lemma execute_once_sys:
  assumes "acquire (ma_locker m) (ma_lock_os m) (up_runtime_lock up) (pr_locks pr) = (lock, k)"
  shows "pr_sys (snd (execute_once m up pr)) = snd (run_cycle (ma_env m) lock up (pr_sys pr))"
  using assms by (simp add: execute_once_def with_runtime_lock_def split: prod.split fut.split)

lemma execute_check_sys:
  assumes "acquire (ma_locker m) (ma_lock_os m) (up_runtime_lock up) (pr_locks pr) = (lock, k)"
  shows "pr_sys (snd (execute_check m up a b pr)) =
    snd (check (ma_env m) (ma_zone_order m) (if a \<or> b then lock else Inr None) up a b (pr_sys pr))"
  using assms by (simp add: execute_check_def with_runtime_lock_def split: prod.split fut.split)

lemma execute_once_locks:
  assumes "exclusive (ma_locker m) holds" and "\<not> rl_disabled (up_runtime_lock up)"
  shows "holds (pr_locks (snd (execute_once m up pr))) q \<longleftrightarrow> holds (pr_locks pr) q"
proof -
  let ?w = "with_runtime_lock m up (\<lambda>lock. run_cycle (ma_env m) lock up) pr"
  have "pr_locks (snd (execute_once m up pr)) = pr_locks (snd ?w)"
    by (simp add: execute_once_def split: prod.split fut.split)
  then show ?thesis
    using with_runtime_lock_releases [OF assms surjective_pairing] by simp
qed

lemma execute_check_locks:
  assumes "exclusive (ma_locker m) holds" and "\<not> rl_disabled (up_runtime_lock up)"
  shows "holds (pr_locks (snd (execute_check m up a b pr))) q \<longleftrightarrow> holds (pr_locks pr) q"
proof (cases "a \<or> b")
  case True
  let ?w = "with_runtime_lock m up (\<lambda>lock. check (ma_env m) (ma_zone_order m) lock up a b) pr"
  have "pr_locks (snd (execute_check m up a b pr)) = pr_locks (snd ?w)"
    using True by (simp add: execute_check_def split: prod.split fut.split)
  then show ?thesis
    using with_runtime_lock_releases [OF assms surjective_pairing] by simp
next
  case False
  then show ?thesis by (simp add: execute_check_def split: prod.split fut.split)
qed

lemma execute_run_locks:
  assumes "exclusive (ma_locker m) holds" and "\<not> rl_disabled (up_runtime_lock up)"
    and "execute_run fuel m up pr = (r, pr')"
  shows "if r = None
    then \<exists>files. fst (acquire (ma_locker m) (ma_lock_os m) (up_runtime_lock up) (pr_locks pr)) = Inr (Some files) \<and>
      (\<forall>q. holds (pr_locks pr') q \<longleftrightarrow> holds (pr_locks pr) q \<or> q \<in> set files)
    else \<forall>q. holds (pr_locks pr') q \<longleftrightarrow> holds (pr_locks pr) q"
proof -
  obtain lock k where a: "acquire (ma_locker m) (ma_lock_os m) (up_runtime_lock up) (pr_locks pr) = (lock, k)"
    by (cases "acquire (ma_locker m) (ma_lock_os m) (up_runtime_lock up) (pr_locks pr)")
  obtain p s where d: "daemon_run (ma_host m) lock up JITTER_COUNTER fuel (pr_sys pr) = (p, s)"
    by (cases "daemon_run (ma_host m) lock up JITTER_COUNTER fuel (pr_sys pr)")
  have "\<exists>e. p = Returned e" if "lock = Inl e" for e
    using d that by (auto simp: daemon_run_def)
  then show ?thesis
    using assms(3) a d acquire_holds [OF assms(1) a assms(2)] release_holds [OF assms(1)]
    by (auto simp: execute_run_def guard_files_def split: daemon_phase.splits sum.splits option.splits)
qed

text \<open>
  C27: locks never leak. When a command has returned its exit code, whatever it did, exactly those
  locks are held that were held before; while \<open>run\<close> is running it holds the lock of each of its
  records on top of them.
\<close>

theorem commands_release_locks:
  assumes "exclusive (ma_locker m) holds" and "main fuel m args w l = (code, pr)"
  shows "case code of
      Some _ \<Rightarrow> \<forall>q. holds (pr_locks pr) q \<longleftrightarrow> holds l q
    | None \<Rightarrow> \<exists>up files. fst (build_updater m (cli_config args)) = Inr up \<and>
        fst (acquire (ma_locker m) (ma_lock_os m) (up_runtime_lock up) l) = Inr (Some files) \<and>
        (\<forall>q. holds (pr_locks pr) q \<longleftrightarrow> holds l q \<or> q \<in> set files)"
  using assms(2)
proof (cases rule: main_cases)
  case (command up ls r pr')
  note on = built_lock_enabled [OF command(1)]
  let ?pr = "log_lines ls (fresh_process w l)"
  have idle: "timers (pr_sys ?pr) = []" "\<not> listening (pr_sys ?pr)" by simp_all
  show ?thesis
  proof (cases "cli_command args")
    case CmdRun
    then show ?thesis
      using execute_run_locks [OF assms(1) on command(5) [unfolded CmdRun command.case, symmetric]] command(1-4)
      by (auto split: if_splits)
  next
    case CmdOnce
    then have o: "execute_once m up ?pr = (r, pr')" using command(5) by simp
    then have "r \<noteq> None" by (rule execute_once_ends [OF idle]) simp
    then show ?thesis
      using execute_once_locks [OF assms(1) on, of ?pr] o command(3,4) by auto
  next
    case (CmdCheck a b)
    then have c: "execute_check m up a b ?pr = (r, pr')" using command(5) by simp
    then have "r \<noteq> None" using execute_check_ends [OF idle, of m up a b] by auto
    then show ?thesis
      using execute_check_locks [OF assms(1) on, of a b ?pr] c command(3,4) by auto
  qed (use command(6) in simp)
qed auto

text \<open>The entries a command may add to the trace, given what acquiring the lock returned.\<close>

definition locked_entry :: "(string list option, runtime_lock_error) result \<Rightarrow> log_entry \<Rightarrow> bool" where
  "locked_entry lock e \<longleftrightarrow> (is_mutation (le_request e) \<longrightarrow> le_fate e = Replied \<and> (\<exists>files. lock = Inr (Some files)))"

lemma locked_reads: "reads_only s s' \<Longrightarrow> adds (locked_entry lock) s s'"
  by (auto simp: reads_only_def adds_def locked_entry_def)

lemma locked_replied: "mutations_replied s s' \<Longrightarrow> adds (locked_entry (Inr (Some files))) s s'"
  by (auto simp: mutations_replied_def adds_def locked_entry_def)

lemma locked_cycle:
  assumes "timers s = []" and "lock \<noteq> Inr None"
  shows "adds (locked_entry lock) s (snd (run_cycle env lock up s))"
proof (cases lock)
  case (Inl e)
  then show ?thesis by (auto simp: run_cycle_def ret_def intro: adds_same)
next
  case (Inr x)
  then obtain files where "lock = Inr (Some files)" using assms(2) by auto
  then show ?thesis
    using frame_topD [OF replied_frame.top_run_cycle [OF control_frames(2)] surjective_pairing assms(1)] locked_replied by blast
qed

lemma locked_check:
  assumes "timers s = []" and "a \<or> b \<Longrightarrow> lock \<noteq> Inr None"
  shows "adds (locked_entry lock) s (snd (check env order lock up a b s))"
proof (cases "a \<or> b")
  case False
  then show ?thesis
    using frame_check_reads [of env order lock up] by (auto simp: frame_def intro: locked_reads)
next
  case True
  show ?thesis
  proof (cases lock)
    case (Inl e)
    then show ?thesis using True by (auto simp: check_def Let_def ret_def intro: adds_same)
  next
    case (Inr x)
    then obtain files where "lock = Inr (Some files)" using assms(2) True by auto
    then show ?thesis
      using frame_topD [OF replied_frame.top_check [OF control_frames(2)] surjective_pairing assms(1)] locked_replied by blast
  qed
qed

lemma locked_command_check:
  assumes "timers s = []" and "lock \<noteq> Inr None"
  shows "adds (locked_entry lock) s (snd (check env order (if a \<or> b then lock else Inr None) up a b s))"
  using locked_check [OF assms(1), of a b lock] frame_check_reads [of env order "Inr None" up] assms(2)
  by (auto simp: frame_def intro: locked_reads)

lemma locked_daemon:
  assumes "at_rest s" and "lock \<noteq> Inr None"
  shows "adds (locked_entry lock) s (snd (daemon_run h lock up jitter fuel s))"
proof (cases lock)
  case (Inl e)
  then show ?thesis by (auto simp: daemon_run_def intro: adds_same)
next
  case (Inr x)
  then obtain files where f: "lock = Inr (Some files)" using assms(2) by auto
  have "loop_ok up s (snd (run_loop h up fuel (Waiting (first_state jitter), s)))"
    using daemon_reach_ok [OF _ assms(1)] run_loop_reach by (metis prod.collapse)
  then show ?thesis
    using f by (auto simp: daemon_run_def loop_ok_def adds_def managed_write_def locked_entry_def)
qed

text \<open>
  C8: nothing changes DNS without the runtime lock. Whichever command runs, for as long as it
  runs, every request of its trace that can change DNS was awaited until its reply, and there is
  one only if the updater was built and the lock of its records was granted.
\<close>

theorem commands_write_under_lock:
  assumes "main fuel m args w l = (code, pr)"
  shows "\<forall>e \<in> set (trace (pr_sys pr)). is_mutation (le_request e) \<longrightarrow> le_fate e = Replied \<and>
    (\<exists>up files. fst (build_updater m (cli_config args)) = Inr up \<and>
       fst (acquire (ma_locker m) (ma_lock_os m) (up_runtime_lock up) l) = Inr (Some files))"
  using assms
proof (cases rule: main_cases)
  case inert
  then show ?thesis by simp
next
  case (command up ls r pr')
  obtain lock k where a: "acquire (ma_locker m) (ma_lock_os m) (up_runtime_lock up) l = (lock, k)"
    by (cases "acquire (ma_locker m) (ma_lock_os m) (up_runtime_lock up) l")
  have some: "lock \<noteq> Inr None"
    by (rule acquire_enabled [OF built_lock_enabled [OF command(1)] a])
  let ?pr = "log_lines ls (fresh_process w l)"
  have acq: "acquire (ma_locker m) (ma_lock_os m) (up_runtime_lock up) (pr_locks ?pr) = (lock, k)"
    using a by simp
  have "adds (locked_entry lock) (idle_sys w) (pr_sys pr')"
  proof (cases "cli_command args")
    case CmdRun
    then show ?thesis
      using command(5) locked_daemon [OF _ some, of "idle_sys w"] execute_run_sys [OF acq, of fuel]
      by (simp add: at_rest_def) (metis snd_conv)
  next
    case CmdOnce
    then show ?thesis
      using command(5) locked_cycle [OF _ some, of "idle_sys w"] execute_once_sys [OF acq] by simp (metis snd_conv)
  next
    case (CmdCheck x y)
    then show ?thesis
      using command(5) locked_command_check [OF _ some, of "idle_sys w"] execute_check_sys [OF acq] by simp (metis snd_conv)
  qed (use command(6) in simp)
  then have "\<forall>e \<in> set (trace (pr_sys pr)). locked_entry lock e"
    using command(2) by (auto simp: adds_def)
  then show ?thesis
    using a command(1) by (auto simp: locked_entry_def)
qed

text \<open>
  C18: what exit code 0 stands for. After \<open>print-config\<close> the whole example was written and nothing
  else happened. After \<open>once\<close> the lock was granted and every configured record
  was found unchanged, or was updated or created, without a failure; after \<open>check\<close> the token was
  verified, the edit permission was proved, and nothing failed.
\<close>

theorem exit_zero_means_success:
  assumes "main fuel m args w l = (Some 0, pr)"
  shows "(cli_command args = CmdPrintConfig \<longrightarrow>
       (\<exists>written. ma_write_all m example_toml = (Inr (), written) \<and> pr = (fresh_process w l)\<lparr>pr_stdout := written\<rparr>)) \<and>
    (cli_command args = CmdOnce \<longrightarrow> (\<exists>up files report.
       fst (build_updater m (cli_config args)) = Inr up \<and>
       fst (acquire (ma_locker m) (ma_lock_os m) (up_runtime_lock up) l) = Inr (Some files) \<and>
       run_cycle (ma_env m) (Inr (Some files)) up (idle_sys w) = (Done report, pr_sys pr) \<and>
       cr_failures report = [] \<and> \<not> cr_interrupted report \<and>
       cr_unchanged report + cr_updated report + cr_created report = length (records (up_config up)))) \<and>
    (\<forall>x y. cli_command args = CmdCheck x y \<longrightarrow> (\<exists>up lock report.
       fst (build_updater m (cli_config args)) = Inr up \<and>
       check (ma_env m) (ma_zone_order m) lock up x y (idle_sys w) = (Done report, pr_sys pr) \<and>
       ck_authenticated report \<and> ck_edit_permission_verified report \<and> ck_failures report = []))"
  using assms
proof (cases rule: main_cases)
  case inert
  then have "cli_command args = CmdPrintConfig" by simp
  moreover from this have "\<exists>written. ma_write_all m example_toml = (Inr (), written) \<and>
      pr = (fresh_process w l)\<lparr>pr_stdout := written\<rparr>"
    using assms by (auto simp: main_def Let_def execute_def write_example_config_def map_err_def fresh_process_def
        FAILURE_EXIT_CODE_def split: sum.splits prod.splits)
  ultimately show ?thesis by simp
next
  case (command up ls r pr')
  let ?pr = "log_lines ls (fresh_process w l)"
  have r: "r = Some (Inr ())"
    using command(4) by (cases r) (auto simp: FAILURE_EXIT_CODE_def split: sum.splits)
  obtain lock k where a: "acquire (ma_locker m) (ma_lock_os m) (up_runtime_lock up) l = (lock, k)"
    by (cases "acquire (ma_locker m) (ma_lock_os m) (up_runtime_lock up) l")
  show ?thesis
  proof (cases "cli_command args")
    case CmdOnce
    then obtain report where c: "run_cycle (ma_env m) lock up (idle_sys w) = (Done report, pr_sys pr)" "cycle_success report"
      using command(2,5) a r
      by (auto simp: execute_once_def with_runtime_lock_def split: prod.splits fut.splits if_splits)
    then obtain files where f: "lock = Inr (Some files)"
      using acquire_enabled [OF built_lock_enabled [OF command(1)] a]
      by (cases lock) (auto simp: run_cycle_def ret_def push_failure_def cycle_success_def)
    have "done_count report = length (records (up_config up))"
      by (rule cycle_complete [OF _ c(2)])
         (use c(1) f in \<open>simp add: run_cycle_def run_cycle_locked_def fresh_control_def modify_sys_apply get_sys_apply\<close>)
    then show ?thesis
      using CmdOnce command(1) a c f by (auto simp: cycle_success_def done_count_def)
  next
    case (CmdCheck x y)
    then obtain g report where "check (ma_env m) (ma_zone_order m) g up x y (idle_sys w) = (Done report, pr_sys pr)" "check_success report"
      using command(2,5) a r
      by (auto simp: execute_check_def with_runtime_lock_def split: prod.splits fut.splits if_splits)
    then show ?thesis
      using CmdCheck command(1) by (auto simp: check_success_def)
  qed (use command(6) in simp_all)
qed

section \<open>The example configuration is accepted\<close>

lemma sample_config_canonical: "canonicalize sample_config = sample_config"
proof -
  have "trim p = p" if "p \<in> {''https://api.cloudflare.com/cdn-cgi/trace'', ''https://api.ipify.org'', ''https://api6.ipify.org''}" for p
    using that by (auto intro!: trim_visible_ascii simp: is_ascii_def is_whitespace_def)
  then show ?thesis
    by (simp add: canonicalize_def canonicalize_record_def canonicalize_discovery_def canonical_id_def sample_config_def
        default_config_def default_cloudflare_def sample_record_def)
qed

text \<open>
  What \<open>print-config\<close> prints is a configuration that \<open>Config::load\<close> accepts as it is. If the
  deserialiser reads the example as the values written in it, and the URL library parses its
  three provider URLs as \<open>https\<close> URLs with a host and nothing secret, each with its own text,
  then parsing the printed text succeeds and yields exactly these values.
\<close>

lemma example_config_accepted:
  assumes "toml example_toml = Inr sample_config"
    and "\<forall>p \<in> set (providers (ipv4 sample_config) @ providers (ipv6 sample_config)).
      \<exists>url. parse p = Inr url \<and> url_scheme url = ''https'' \<and> url_host url \<noteq> None \<and> url_username url = [] \<and>
        url_password url = None \<and> url_fragment url = None \<and> url_text url = p @ ''/''"
  shows "from_toml toml parse example_toml = Inr sample_config"
proof -
  have len: "length example_toml \<le> MAX_CONFIG_BYTES"
    by (simp add: example_toml_def EXAMPLE_CONFIG_def MAX_CONFIG_BYTES_def)
  have "valid_config parse sample_config"
    using assms(2) by (auto simp: valid_config_def sample_config_def default_config_def default_cloudflare_def
      sample_record_valid valid_id_def valid_discovery_def valid_provider_def provider_text_def
      family_enabled_def MAX_RECORDS_def MAX_PROVIDERS_PER_FAMILY_def
      DEFAULT_INTERVAL_SECONDS_def DEFAULT_REQUEST_TIMEOUT_SECONDS_def DEFAULT_TOKEN_PATH_def)
      (simp add: sample_record_def)
  then have "validate parse sample_config = Inr ()" by (simp add: validate_iff_valid)
  then show ?thesis
    using assms(1) len sample_config_canonical by (simp add: from_toml_def config_parse_def Let_def)
qed

section \<open>A sample process\<close>

definition sample_machine :: "'w host \<Rightarrow> ('w, string set, string) machine" where
  "sample_machine h = \<lparr>
     ma_host = h,
     ma_toml = (\<lambda>_. Inr sample_config), ma_config_file = (\<lambda>_. sample_token_view),
     ma_token_var = VarText ''abcd'', ma_token_file = (\<lambda>_. sample_token_view),
     ma_header_ok = (\<lambda>_. True), ma_cf_builder = None, ma_pip_builder = None,
     ma_var_lib = Inr sample_metadata, ma_tmp = None, ma_lock_os = sample_lock_os, ma_locker = set_locker,
     ma_zone_order = rev, ma_write_all = (\<lambda>t. (Inr (), t)), ma_rust_log = None,
     ma_filter_new = (\<lambda>t. t), ma_filter_try_new = Some, ma_try_init = (\<lambda>_. None)\<rparr>"

definition home_machine :: "(nat, string set, string) machine" where
  "home_machine = sample_machine
     (home_host\<lparr>ho_env := (home_service [sample_dns_record])\<lparr>ev_parse_url := sample_url_parser\<rparr>\<rparr>)"

abbreviation home_args :: "command \<Rightarrow> cli" where
  "home_args c \<equiv> \<lparr>cli_config = DEFAULT_CONFIG_PATH, cli_verbose = 0, cli_quiet = False, cli_command = c\<rparr>"

text \<open>The client that the sample machine builds, whatever its host is.\<close>

definition built_client :: cloudflare_client where
  "built_client = (case cf_new (\<lambda>_. True) None sample_url_parser ''abcd'' (request_timeout sample_config) of
     Inr client \<Rightarrow> client | Inl _ \<Rightarrow> sample_client)"

lemma sample_builds:
  assumes "ev_parse_url (ho_env h) = sample_url_parser"
  shows "\<exists>up ls. build_updater (sample_machine h) path = (Inr up, ls) \<and> up_config up = sample_config \<and>
    up_cloudflare up = built_client"
proof -
  have valid: "validate sample_url_parser sample_config = Inr ()"
    using sample_config_valid by (simp add: validate_iff_valid)
  then have contents: "config_parse (\<lambda>_. Inr sample_config) sample_url_parser ''abcd '' (Some path) = Inr sample_config"
    using sample_config_canonical by (simp add: config_parse_def Let_def MAX_CONFIG_BYTES_def)
  have "open_config_file path sample_token_view = Inr sample_metadata"
    by (simp add: open_config_file_def sample_token_view_def sample_metadata_def same_file_def permission_bits_def
        Let_def MAX_CONFIG_BYTES_def)
  then have load: "config_load (\<lambda>_. Inr sample_config) sample_url_parser path sample_token_view = Inr sample_config"
    using contents by (simp add: config_load_def sample_token_view_def MAX_CONFIG_BYTES_def)
  have "trim ''abcd'' = ''abcd''"
    by (rule trim_visible_ascii) (simp add: is_ascii_def is_whitespace_def)
  then have token: "secret_from_text ''abcd'' Environment = Inr ''abcd''"
    by (simp add: secret_from_text_Inr MAX_TOKEN_BYTES_def utf8_width_def is_whitespace_def is_control_def)
  have target: "select_verification_target ''abcd'' None = Inr User"
    by (simp add: select_verification_target_def normalize_account_id_def has_scannable_credential_prefix_def split_once_def)
  have "account_id (cloudflare sample_config) = None" "0 < request_timeout sample_config"
    by (simp_all add: sample_config_def default_config_def default_cloudflare_def request_timeout_def
        DEFAULT_REQUEST_TIMEOUT_SECONDS_def)
  then show ?thesis
    using load token target valid assms
    by (simp add: build_updater_def sample_machine_def ma_env_def built_client_def Let_def load_api_token_def cf_new_def with_api_base_def
        sample_url_parser_def [of API_BASE] pip_build_def updater_new_def)
qed

lemma home_builds: "\<exists>up ls. build_updater home_machine path = (Inr up, ls) \<and> up_config up = sample_config"
  unfolding home_machine_def
  using sample_builds [of "home_host\<lparr>ho_env := (home_service [sample_dns_record])\<lparr>ev_parse_url := sample_url_parser\<rparr>\<rparr>" path]
  by auto

lemma home_machine_quiet: "quiet_host (ma_host home_machine)"
  by (simp add: quiet_host_def home_machine_def sample_machine_def home_host_def home_service_def sample_service_def prompt_def scripted_def)

theorem build_updater_trusted_witness:
  "\<exists>up. fst (build_updater home_machine DEFAULT_CONFIG_PATH) = Inr up \<and> pc_timeout (up_public_ip up) \<le> from_secs 120"
  using home_builds [of DEFAULT_CONFIG_PATH] build_updater_trusted [of home_machine DEFAULT_CONFIG_PATH] by force

text \<open>While another process holds the lock of the record, a cycle sends no changing request.\<close>

theorem commands_write_under_lock_witness:
  "\<exists>path. filter (\<lambda>e. is_mutation (le_request e)) (trace (pr_sys (snd (main 0 home_machine (home_args CmdOnce) 0 {path})))) = []"
proof -
  obtain path where a: "acquire set_locker sample_lock_os sample_lock {} = (Inr (Some [path]), {path})"
    using sample_lock_acquired by blast
  have on: "\<not> rl_disabled sample_lock" by (simp add: for_config_def Let_def)
  obtain r l' where b: "acquire set_locker sample_lock_os sample_lock {path} = (r, l')"
    by (cases "acquire set_locker sample_lock_os sample_lock {path}")
  have busy: "r \<noteq> Inr (Some files)" for files
    using acquire_holds [OF set_locker_exclusive a on] acquire_holds [OF set_locker_exclusive b on]
    by (auto simp: eq_commute [of "[path]"])
  have "up_runtime_lock up = sample_lock" if "fst (build_updater home_machine DEFAULT_CONFIG_PATH) = Inr up" for up
    using that home_builds [of DEFAULT_CONFIG_PATH] build_updater_Inr(7) [of home_machine DEFAULT_CONFIG_PATH]
    by (force simp: home_machine_def sample_machine_def)
  then have "fst (acquire (ma_locker home_machine) (ma_lock_os home_machine) (up_runtime_lock up) {path}) \<noteq> Inr (Some files)"
    if "fst (build_updater home_machine DEFAULT_CONFIG_PATH) = Inr up" for up files
    using that b busy by (simp add: home_machine_def sample_machine_def)
  then have "filter (\<lambda>e. is_mutation (le_request e)) (trace (pr_sys (snd (main 0 home_machine (home_args CmdOnce) 0 {path})))) = []"
    using commands_write_under_lock [OF surjective_pairing, of 0 home_machine "home_args CmdOnce" 0 "{path}"]
    by (auto simp: filter_empty_conv)
  then show ?thesis by blast
qed

theorem exit_zero_means_success_witness:
  "pr_stdout (snd (main 0 home_machine (home_args CmdPrintConfig) 0 {})) = example_toml"
proof -
  obtain pr where "main 0 home_machine (home_args CmdPrintConfig) 0 {} = (Some 0, pr)"
    by (auto simp: main_def Let_def init_logging_def execute_def write_example_config_def home_machine_def sample_machine_def)
  then show ?thesis
    using exit_zero_means_success [of 0 home_machine "home_args CmdPrintConfig" 0 "{}" pr] by (simp add: home_machine_def sample_machine_def)
qed

theorem commands_release_locks_witness:
  "\<exists>pr path. main 2 home_machine (home_args CmdRun) 0 {} = (None, pr) \<and> pr_locks pr = {path}"
proof -
  obtain up ls where b: "build_updater home_machine DEFAULT_CONFIG_PATH = (Inr up, ls)" "up_config up = sample_config"
    using home_builds by blast
  have "up_runtime_lock up = sample_lock"
    using build_updater_Inr(7) [OF b(1)] b(2) by (simp add: home_machine_def sample_machine_def)
  then obtain path where a: "acquire (ma_locker home_machine) (ma_lock_os home_machine) (up_runtime_lock up) {} = (Inr (Some [path]), {path})"
    using sample_lock_acquired by (auto simp: home_machine_def sample_machine_def)
  obtain st s' where "run_loop (ma_host home_machine) up 2 (Waiting (first_state JITTER_COUNTER), idle_sys 0) = (Waiting st, s')"
    using quiet_steps [OF home_machine_quiet, of "idle_sys 0" up 1 "first_state JITTER_COUNTER"] by (auto simp: at_rest_def)
  then obtain pr where m: "main 2 home_machine (home_args CmdRun) 0 {} = (None, pr)"
    using a b(1) by (auto simp: main_def Let_def init_logging_def execute_def execute_run_def daemon_run_def home_machine_def sample_machine_def)
  have "exclusive (ma_locker home_machine) (\<lambda>l p. p \<in> l)"
    using set_locker_exclusive by (simp add: home_machine_def sample_machine_def)
  from commands_release_locks [OF this m] show ?thesis
    using a b(1) m by auto
qed

theorem example_config_accepted_witness:
  "from_toml (\<lambda>_. Inr sample_config) (\<lambda>p. Inr \<lparr>url_scheme = ''https'', url_host = Some ''h'', url_username = [],
     url_password = None, url_fragment = None, url_path = ''/'', url_text = p @ ''/'', url_origin = ''https://h''\<rparr>)
     example_toml = Inr sample_config"
  by (rule example_config_accepted) simp_all

end
