(* ===== verification/Request_Count.thy ===== *)
theory Request_Count
  imports Cli
begin

text \<open>
  How many requests a command sends. \<open>sends n m\<close> bounds the requests of a computation, whatever the
  state, the replies, the deadlines and the signal are: the bound is added up where the program sequences and
  joins computations, and it covers the paging loops, which end after \<open>MAX_PAGES\<close> pages whatever the
  service says, the providers, each of which is asked once, and the write of a record, which is not tried again.
\<close>

section \<open>Counting requests\<close>

definition sends :: "nat \<Rightarrow> ('w, 'a) io \<Rightarrow> bool" where
  "sends n m \<longleftrightarrow> (\<forall>s. length (trace (snd (m s))) \<le> length (trace s) + n)"

named_theorems sends_intros

lemma sendsD: "sends n m \<Longrightarrow> m s = (x, s') \<Longrightarrow> length (trace s') \<le> length (trace s) + n"
  unfolding sends_def by (metis snd_conv)

lemma sendsI: "(\<And>s x s'. m s = (x, s') \<Longrightarrow> length (trace s') \<le> length (trace s) + n) \<Longrightarrow> sends n m"
  unfolding sends_def by (metis prod.collapse)

lemma sends_mono: "sends n m \<Longrightarrow> n \<le> k \<Longrightarrow> sends k m"
  unfolding sends_def by (meson add_le_mono le_refl order_trans)

lemma sends_ret [sends_intros]: "sends n (ret a)"
  by (simp add: sends_def ret_def)

lemma sends_modify: "(\<And>s. trace (f s) = trace s) \<Longrightarrow> sends n (modify_sys f)"
  by (simp add: sends_def modify_sys_def)

lemma sends_get_sys [sends_intros]: "(\<And>s. sends n (f s)) \<Longrightarrow> sends n (bind_io get_sys f)"
  by (simp add: sends_def async_simps)

lemma sends_bind:
  assumes "sends i m" and "\<And>a. sends j (f a)" and "i + j \<le> n"
  shows "sends n (bind_io m f)"
proof (rule sendsI)
  fix s x s'
  assume "bind_io m f s = (x, s')"
  then show "length (trace s') \<le> length (trace s) + n"
  proof (cases rule: bind_io_cases)
    case (Done a t)
    then show ?thesis using sendsD [OF assms(1) Done(1)] sendsD [OF assms(2) Done(2)] assms(3) by linarith
  qed (use sendsD [OF assms(1)] assms(3) in fastforce)+
qed

lemma sends_bind_ok:
  assumes "sends i m" and "\<And>a. sends j (f a)" and "i + j \<le> n"
  shows "sends n (bind_ok m f)"
  unfolding bind_ok_def by (rule sends_bind [OF assms(1) _ assms(3)]) (auto intro: assms(2) sends_ret split: sum.split)

lemma sends_timeout [sends_intros]: "sends n m \<Longrightarrow> sends n (timeout_at d m)"
  by (intro sendsI) (auto simp: timeout_at_def split: prod.splits dest: sendsD)

lemma sends_guarded [sends_intros]: "sends n m \<Longrightarrow> sends n (guarded m)"
  by (intro sendsI) (auto simp: guarded_def split: prod.splits dest: sendsD)

lemma sends_join2:
  assumes "sends i m1" and "sends j m2"
  shows "sends (i + j) (join2 env m1 m2)"
proof (rule sendsI)
  fix s x s'
  assume "join2 env m1 m2 s = (x, s')"
  then obtain r1 s1 r2 s2 where m: "m1 s = (r1, s1)" "m2 s = (r2, s2)" "s' = merge_sys env s s1 s2"
    by (auto simp: join2_def split: prod.splits)
  show "length (trace s') \<le> length (trace s) + (i + j)"
    using sendsD [OF assms(1) m(1)] sendsD [OF assms(2) m(2)] by (simp add: m(3) merge_sys_def)
qed

lemma sends_await: "sends 1 (await env r)"
  by (rule sendsI) (auto simp: await_def complete_request_def log_request_def note_signal_def split: option.splits prod.splits if_splits)

section \<open>The client\<close>

lemma sends_send: "sends 1 (send env client decode q op)"
  unfolding send_def by (rule sends_bind [OF sends_await sends_ret [of 0]]) simp

lemma sends_in_zone: "sends 1 (send_in_zone env client decode q op zid)"
proof -
  have "sends 0 (invalidate_zone_after_not_found zid e)" for e
    unfolding invalidate_zone_after_not_found_def by (auto intro: sends_modify sends_ret)
  then show ?thesis
    unfolding send_in_zone_def
    by (intro sends_bind [OF sends_send, where j = 0]) (auto intro: sends_ret sends_bind [where i = 0 and j = 0] split: sum.split)
qed

lemma sends_record: "sends 1 (send_record env client q op zid)"
  unfolding send_record_def by (rule sends_bind_ok [OF sends_in_zone sends_ret [of 0]]) simp

lemma sends_verify: "sends 1 (verify_token env client)"
  unfolding verify_token_def by (rule sends_bind [OF sends_send sends_ret [of 0]]) simp

lemma sends_cache: "sends 0 (cache_zone key zid)"
  unfolding cache_zone_def by (rule sends_modify) simp

lemma sends_zone_pages: "sends k (zone_pages env client zname exact inactive k)"
proof (induction k arbitrary: exact inactive)
  case (Suc k)
  then show ?case
    unfolding zone_pages.simps
    by (intro sends_bind_ok [OF sends_send, where j = k])
       (auto intro: sends_ret sends_bind [OF sends_cache sends_ret [of 0]] split: sum.split option.split)
qed (simp add: sends_ret)

lemma sends_record_pages: "sends k (record_pages env client zid rtype rname exact k)"
proof (induction k arbitrary: exact)
  case (Suc k)
  then show ?case
    unfolding record_pages.simps
    by (intro sends_bind_ok [OF sends_in_zone, where j = k]) (auto intro: sends_ret split: sum.split)
qed (simp add: sends_ret)

lemma sends_find: "sends MAX_PAGES (find_record env client zid rtype rname)"
  unfolding find_record_def by (rule sends_record_pages)

lemma sends_resolve: "sends MAX_PAGES (resolve_zone_id env client zname explicit)"
proof -
  have one: "1 \<le> MAX_PAGES" by (simp add: MAX_PAGES_def)
  have tail: "sends 0 (case check_explicit_zone client zname zid z of Inl e \<Rightarrow> ret (Inl e)
      | Inr _ \<Rightarrow> bind_io (cache_zone key zid) (\<lambda>_. ret (Inr zid)))" for zid z key
    by (auto intro: sends_ret sends_bind [OF sends_cache sends_ret [of 0]] split: sum.split)
  have "sends MAX_PAGES (resolve_explicit_zone_id env client zname zid)" for zid
    unfolding resolve_explicit_zone_id_def
    using one by (auto intro!: sends_get_sys sends_ret sends_bind_ok [OF sends_send tail] split: option.split)
  moreover have "sends MAX_PAGES (resolve_named_zone_id env client zname)"
    unfolding resolve_named_zone_id_def by (auto intro!: sends_get_sys sends_ret sends_zone_pages split: option.split)
  ultimately show ?thesis
    by (simp add: resolve_zone_id_def split: option.split)
qed

section \<open>Discovery\<close>

lemma sends_discover_from: "sends (length ps) (discover_from env client family started ps fs)"
proof (induction ps arbitrary: fs)
  case (Cons p ps)
  have "sends 1 (timeout_at d (query_provider env p family))" for d
    unfolding query_provider_def by (rule sends_timeout, rule sends_bind [OF sends_await sends_ret [of 0]]) simp
  then have "sends (length (p # ps)) (bind_io (timeout_at d (query_provider env p family)) (\<lambda>outcome. case outcome of
      Some (Inr address) \<Rightarrow> ret (Inr address)
    | Some (Inl error) \<Rightarrow> discover_from env client family started ps (f error)
    | None \<Rightarrow> discover_from env client family started ps gs))" for d f gs
    by (rule sends_bind [where j = "length ps"]) (auto intro!: sends_ret Cons split: option.split sum.split)
  then show ?case
    unfolding discover_from.simps Let_def by (auto intro!: sends_get_sys sends_ret)
qed (simp add: sends_ret)

lemma sends_lane: "sends (length ps) (discover_lane env client needed family ps)"
  unfolding discover_lane_def discover_def
  by (auto intro!: sends_ret sends_bind [where i = "length ps" and j = 0] sends_get_sys sends_discover_from)

lemma sends_discovery:
  "sends (length (providers (ipv4 (up_config up))) + length (providers (ipv6 (up_config up)))) (discover_required_addresses env up)"
  unfolding discover_required_addresses_def Let_def
  by (rule sends_bind [OF sends_join2 [OF sends_lane sends_lane], where j = 0]) (auto intro: sends_ret)

section \<open>Cycles and checks\<close>

text \<open>One record: its zone, two lookups and one write.\<close>

definition record_bound :: nat where
  "record_bound = 3 * MAX_PAGES + 1"

lemma sends_plan: "sends (3 * MAX_PAGES) (plan_record env client r a)"
proof -
  have zone: "sends MAX_PAGES (at_stage st (resolve_zone_id env client (zone r) (zone_id r)))" for st
    unfolding at_stage_def by (rule sends_bind [OF sends_resolve sends_ret [of 0]]) simp
  have find: "sends MAX_PAGES (at_stage st (find_record env client zid rtype rname))" for st zid rtype rname
    unfolding at_stage_def by (rule sends_bind [OF sends_find sends_ret [of 0]]) simp
  show ?thesis
    unfolding plan_record_def
    by (rule sends_bind_ok [OF zone sends_bind_ok [OF find, where j = MAX_PAGES]])
       (auto intro!: sends_ret sends_bind_ok [OF find sends_ret [of 0]] split: option.split)
qed

lemma sends_execute: "sends 1 (execute_record_plan env client plan)"
proof -
  have "sends 1 (bind_ok (at_stage st (guarded (send_record env client q op zid))) (\<lambda>_. ret (Inr out)))" for st q op zid out
    unfolding at_stage_def
    by (rule sends_bind_ok [OF sends_bind [OF sends_guarded [OF sends_record] sends_ret [of 0], of 1] sends_ret [of 0]]) simp_all
  then show ?thesis
    by (cases plan) (simp_all add: execute_record_plan_def sends_ret update_record_def create_record_def)
qed

lemma sends_sync: "sends record_bound (sync_record env client d r a)"
proof -
  have "sends 1 (bind_io (execute_record_plan env client plan) (\<lambda>outcome. ret (Some outcome)))" for plan
    by (rule sends_bind [OF sends_execute sends_ret [of 0]]) simp
  then show ?thesis
    unfolding sync_record_def record_bound_def
    by (intro sends_bind [OF sends_timeout [OF sends_plan], where j = 1])
       (auto intro!: sends_ret sends_get_sys split: option.split sum.split)
qed

lemma sends_cycle_records: "sends (length rs * record_bound) (cycle_records env client d addresses rs report)"
proof (induction rs arbitrary: report)
  case (Cons r rs)
  let ?n = "length rs * record_bound"
  have skip: "sends (record_bound + ?n) (cycle_records env client d addresses rs report)" for report
    by (rule sends_mono [OF Cons]) simp
  have "sends (record_bound + ?n) (bind_io (sync_record env client d r a) (\<lambda>outcome. case outcome of
      None \<Rightarrow> ret (push_failure cycle_deadline_failure report)
    | Some (Inr o') \<Rightarrow> cycle_records env client d addresses rs (tally o' report)
    | Some (Inl (stage, e)) \<Rightarrow>
        let report' = push_failure (cloudflare_failure (name r) stage e) report in
        if is_authentication_failure e \<or> is_rate_limited e then ret report'
        else cycle_records env client d addresses rs report'))" for a report
    by (rule sends_bind [OF sends_sync, where j = ?n])
       (auto simp: Let_def intro: sends_ret Cons split: option.split sum.split prod.split)
  then show ?case
    unfolding cycle_records.simps list.size mult_Suc_right
    using skip by (auto intro!: sends_get_sys sends_ret split: sum.split cong del: option.case_cong_weak)
qed (simp add: sends_ret)

definition request_bound :: "config \<Rightarrow> nat" where
  "request_bound c = 1 + length (providers (ipv4 c)) + length (providers (ipv6 c)) + length (records c) * record_bound"

lemma sends_control: "sends n fresh_control"
  unfolding fresh_control_def by (rule sends_modify) simp

lemma sends_cycle: "sends (request_bound (up_config up)) (run_cycle env lock up)"
proof -
  let ?d = "length (providers (ipv4 (up_config up))) + length (providers (ipv6 (up_config up)))"
  let ?n = "length (records (up_config up)) * record_bound"
  have start: "sends 0 (next_start k)" for k
    unfolding next_start_def
    by (auto intro!: sends_ret sends_get_sys intro: sends_bind [OF sends_modify [of _ 0] sends_ret [of 0]])
  have until: "sends (?d + ?n) (run_cycle_until env up deadline)" for deadline
    unfolding run_cycle_until_def Let_def
    by (rule sends_bind [OF sends_timeout [OF sends_discovery], where j = ?n])
       (auto intro!: sends_ret sends_bind [OF start, where j = ?n] split: option.split,
        use sends_cycle_records [of "rotated_from a (records (up_config up))" for a] in \<open>simp add: rotated_from_def\<close>)
  then show ?thesis
    unfolding run_cycle_def run_cycle_locked_def request_bound_def
    by (auto intro!: sends_ret sends_get_sys sends_bind [OF sends_control [of 0], where j = "?d + ?n"] split: sum.split)
qed

lemma sends_existing: "sends 1 (handle_existing_check_record env client options r zid e p report)"
proof -
  have "sends 1 (probe_edit_permission env client zid e)"
    unfolding probe_edit_permission_def probe_record_edit_def
    by (rule sends_bind_ok [OF sends_guarded [OF sends_record] sends_ret [of 0]]) simp
  then have "sends 1 (bind_io (probe_edit_permission env client zid e) (\<lambda>outcome. ret (f outcome)))"
    for f :: "(unit, cloudflare_error) result \<Rightarrow> bool \<times> zone_proofs \<times> check_report"
    by (rule sends_bind [OF _ sends_ret [of 0]]) simp
  then show ?thesis
    unfolding handle_existing_check_record_def Let_def by (auto intro!: sends_ret sends_get_sys)
qed

lemma sends_missing: "sends (MAX_PAGES + 1) (handle_missing_check_record env client addresses options r zid p report)"
proof -
  have create: "sends 1 (bind_io get_sys (\<lambda>s. if c s then ret x
      else bind_io (guarded (create_record env client zid payload)) (\<lambda>outcome. ret (f outcome))))"
    for c x payload and f :: "(dns_record, cloudflare_error) result \<Rightarrow> bool \<times> zone_proofs \<times> check_report"
    unfolding create_record_def
    by (auto intro!: sends_ret sends_get_sys sends_bind [OF sends_guarded [OF sends_record] sends_ret [of 0]] simp del: One_nat_def)
  show ?thesis
    unfolding handle_missing_check_record_def
    by (auto intro!: sends_ret sends_get_sys sends_bind [OF sends_timeout [OF sends_find], where j = 1] create sends_existing
        simp del: One_nat_def split: sum.split option.split)
qed

lemma sends_check_record: "sends record_bound (check_record env client addresses options r p report)"
proof -
  have look: "sends MAX_PAGES m \<Longrightarrow> sends MAX_PAGES (lookup_before d st m)" for d st and m :: "('a, ('b, cloudflare_error) result) io"
    unfolding lookup_before_def by (rule sends_bind [OF sends_timeout sends_ret [of 0], of MAX_PAGES]) simp_all
  have inspect: "sends (2 * MAX_PAGES) (inspect_check_record env client r d p)" for d
    unfolding inspect_check_record_def
    by (rule sends_bind [OF look [OF sends_resolve], where j = MAX_PAGES])
       (auto intro!: sends_ret sends_bind [OF look [OF sends_find] sends_ret [of 0]] split: sum.split)
  show ?thesis
    unfolding check_record_def record_bound_def
    by (rule sends_bind [OF inspect, where j = "MAX_PAGES + 1"])
       (auto intro!: sends_ret sends_missing sends_mono [OF sends_existing] simp del: One_nat_def
         split: sum.split check_lookup_error.split option.split prod.split)
qed

lemma sends_check_loop: "sends (length rs * record_bound) (check_loop env client addresses options rs p report)"
proof (induction rs arbitrary: p report)
  case (Cons r rs)
  then show ?case
    unfolding check_loop.simps
    by (intro sends_bind [OF sends_check_record, where j = "length rs * record_bound"]) (auto intro: sends_ret split: prod.split)
qed (simp add: sends_ret)

lemma sends_check: "sends (request_bound (up_config up)) (check env order lock up allow_create allow_edit_probe)"
proof -
  let ?d = "length (providers (ipv4 (up_config up))) + length (providers (ipv6 (up_config up)))"
  let ?n = "length (records (up_config up)) * record_bound"
  have loop: "sends ?n (check_records env client addresses options (records (up_config up)) p report)"
    for client addresses options p report
    unfolding check_records_def by (rule sends_bind [OF sends_control [of 0] sends_check_loop]) simp
  have late: "sends (?d + ?n) (bind_io (timeout_at d (discover_required_addresses env up)) (\<lambda>found. case found of
      None \<Rightarrow> ret x
    | Some addresses \<Rightarrow> bind_io (check_records env client addresses options (records (up_config up)) p (g addresses))
        (\<lambda>(p', report'). ret (f p' report'))))" for d x client options p g and f :: "zone_proofs \<Rightarrow> check_report \<Rightarrow> check_report"
    by (rule sends_bind [OF sends_timeout [OF sends_discovery], where j = ?n])
       (auto intro!: sends_ret sends_bind [OF loop, where j = 0] split: option.split)
  have "sends (request_bound (up_config up)) (check_until env order up allow_create allow_edit_probe d)" for d
    unfolding check_until_def Let_def request_bound_def
    by (rule sends_bind [OF sends_timeout [OF sends_verify], where j = "?d + ?n"])
       (auto intro!: sends_ret late split: option.split sum.split)
  then show ?thesis
    unfolding check_def Let_def by (auto intro!: sends_get_sys sends_ret split: sum.split)
qed

section \<open>The commands\<close>

lemma execute_once_requests:
  "length (trace (pr_sys (snd (execute_once m up pr)))) \<le> length (trace (pr_sys pr)) + request_bound (up_config up)"
proof -
  obtain lock k where a: "acquire (ma_locker m) (ma_lock_os m) (up_runtime_lock up) (pr_locks pr) = (lock, k)"
    by (cases "acquire (ma_locker m) (ma_lock_os m) (up_runtime_lock up) (pr_locks pr)")
  show ?thesis
    unfolding execute_once_sys [OF a] by (rule sendsD [OF sends_cycle surjective_pairing])
qed

lemma execute_check_requests:
  "length (trace (pr_sys (snd (execute_check m up a b pr)))) \<le> length (trace (pr_sys pr)) + request_bound (up_config up)"
proof -
  obtain lock k where l: "acquire (ma_locker m) (ma_lock_os m) (up_runtime_lock up) (pr_locks pr) = (lock, k)"
    by (cases "acquire (ma_locker m) (ma_lock_os m) (up_runtime_lock up) (pr_locks pr)")
  show ?thesis
    unfolding execute_check_sys [OF l] by (rule sendsD [OF sends_check surjective_pairing])
qed

text \<open>
  A process that fails says so: on standard error if the log cannot be set up, else in the last line of the log.
\<close>

definition complains :: "('w, 'l) process \<Rightarrow> bool" where
  "complains pr \<longleftrightarrow> pr_stderr pr \<noteq> [] \<or> pr_log pr \<noteq> [] \<and> ll_message (last (pr_log pr)) = ''command failed''"

lemma execute_once_quiet: "execute_once m up pr = (Some (Inr ()), pr') \<Longrightarrow> pr_stderr pr = [] \<Longrightarrow> \<not> complains pr'"
  by (auto simp: execute_once_def with_runtime_lock_def complains_def log_lines_def report_cycle_def
      split: prod.splits fut.splits if_splits)

lemma execute_check_quiet: "execute_check m up a b pr = (Some (Inr ()), pr') \<Longrightarrow> pr_stderr pr = [] \<Longrightarrow> \<not> complains pr'"
  by (auto simp: execute_check_def with_runtime_lock_def complains_def log_lines_def report_check_def Let_def
      split: prod.splits fut.splits if_splits)

lemma execute_quiet:
  assumes "execute fuel m args pr = (Some (Inr ()), pr')" and "cli_command args \<noteq> CmdRun"
    and "pr_stderr pr = []" and "pr_log pr = []"
  shows "\<not> complains pr'"
proof (cases "cli_command args")
  case CmdPrintConfig
  then show ?thesis
    using assms(1,3,4) by (auto simp: execute_def write_example_config_def complains_def split: prod.splits)
next
  case CmdRun
  then show ?thesis using assms(2) by simp
next
  case CmdOnce
  then obtain up ls where "execute_once m up (log_lines ls pr) = (Some (Inr ()), pr')"
    using assms(1) by (auto simp: execute_def split: prod.splits sum.splits)
  then show ?thesis by (rule execute_once_quiet) (simp add: log_lines_def assms(3))
next
  case (CmdCheck a b)
  then obtain up ls where "execute_check m up a b (log_lines ls pr) = (Some (Inr ()), pr')"
    using assms(1) by (auto simp: execute_def split: prod.splits sum.splits)
  then show ?thesis by (rule execute_check_quiet) (simp add: log_lines_def assms(3))
qed

lemma main_exit:
  assumes "cli_command args \<noteq> CmdRun" and "main fuel m args w l = (code, pr)"
  shows "code = Some (if complains pr then 1 else 0)"
proof -
  have "code \<noteq> None" using main_ends [OF assms] .
  then show ?thesis
    using assms(2) execute_quiet [OF _ assms(1), of fuel m "fresh_process w l"]
    by (auto simp: main_def Let_def FAILURE_EXIT_CODE_def fresh_process_def complains_def log_lines_def
        split: sum.splits prod.splits option.splits)
qed

lemma main_requests:
  assumes "cli_command args \<noteq> CmdRun" and "main fuel m args w l = (code, pr)"
  shows "trace (pr_sys pr) = [] \<or> (\<exists>up ls. build_updater m (cli_config args) = (Inr up, ls) \<and>
    length (trace (pr_sys pr)) \<le> request_bound (up_config up))"
  using assms(2)
proof (cases rule: main_cases)
  case inert
  then show ?thesis by (simp add: idle_sys_def)
next
  case (command up ls r pr')
  let ?pr = "log_lines ls (fresh_process w l)"
  have start: "trace (pr_sys ?pr) = []" by (simp add: idle_sys_def)
  have "length (trace (pr_sys pr')) \<le> request_bound (up_config up)"
  proof (cases "cli_command args")
    case CmdOnce
    then have "execute_once m up ?pr = (r, pr')" using command(5) by simp
    then show ?thesis using execute_once_requests [of m up ?pr] start by simp
  next
    case (CmdCheck a b)
    then have "execute_check m up a b ?pr = (r, pr')" using command(5) by simp
    then show ?thesis using execute_check_requests [of m up a b ?pr] start by simp
  qed (use assms(1) command(6) in simp_all)
  then show ?thesis using command(1,2) by auto
qed

section \<open>The property\<close>

text \<open>
  C28: every command but \<open>run\<close> comes to an end after a bounded number of requests, whatever the
  replies, the deadlines and the signal are: at most one for the token, one for each configured provider,
  and for each record as many as the pages of three lookups and one write; and then the process exits
  with code 1 if it has reported a failure, on standard error or in the last line of its log, and with code 0
  otherwise. That each single request ends is due to the timeout of the HTTP client, which is not modelled.
\<close>

theorem commands_end:
  assumes "cli_command args \<noteq> CmdRun" and "main fuel m args w l = (code, pr)"
  shows "(trace (pr_sys pr) = [] \<or> (\<exists>up ls. build_updater m (cli_config args) = (Inr up, ls) \<and>
      length (trace (pr_sys pr)) \<le> 1 + length (providers (ipv4 (up_config up))) + length (providers (ipv6 (up_config up))) +
        length (records (up_config up)) * (3 * 100 + 1))) \<and>
    code = Some (if complains pr then 1 else 0)"
  using main_requests [OF assms] main_exit [OF assms]
  unfolding request_bound_def record_bound_def MAX_PAGES_def by simp

theorem commands_end_witness:
  "\<exists>code pr. main 0 home_machine (home_args CmdOnce) 0 {} = (code, pr) \<and> code \<noteq> None \<and> length (trace (pr_sys pr)) \<le> 400"
proof -
  obtain code pr where m: "main 0 home_machine (home_args CmdOnce) 0 {} = (code, pr)"
    by (cases "main 0 home_machine (home_args CmdOnce) 0 {}")
  obtain up ls where b: "build_updater home_machine DEFAULT_CONFIG_PATH = (Inr up, ls)" "up_config up = sample_config"
    using home_builds by blast
  show ?thesis
    using commands_end [OF _ m] m b by (auto simp: sample_config_def default_config_def)
qed

end
