(* ===== verification/Dns_Spec.thy ===== *)
theory Dns_Spec
  imports Updater
begin

text \<open>
  The abstract specification of synchronisation, over the contents of the DNS zones alone: no
  client, no requests, no pages, no deadlines. A database maps a zone identifier (in lower case)
  to the records of the zone; \<open>zn\<close> is the name of the zone an identifier belongs to. The only
  steps the program may take are to give a configured record its desired state, and to add a
  configured record that is missing; \<open>in_sync\<close> is the goal. The lemmas are the consequences
  for the owner of the zones: records that are not configured are never touched, the number of
  records that match a configuration never grows beyond one, and steps for one record do not
  undo another.
\<close>

section \<open>Databases and steps\<close>

type_synonym dns_db = "string \<Rightarrow> dns_record list"

abbreviation lower :: "string \<Rightarrow> string" where
  "lower \<equiv> to_ascii_lowercase"

definition has_key :: "string \<Rightarrow> string \<Rightarrow> dns_record \<Rightarrow> bool" where
  "has_key rtype rname x \<longleftrightarrow> lower (dr_record_type x) = lower rtype \<and> lower (dr_name x) = lower rname"

abbreviation is_for :: "record_config \<Rightarrow> dns_record \<Rightarrow> bool" where
  "is_for r \<equiv> has_key (record_type_str (record_type r)) (name r)"

text \<open>The records of a zone that a configured record stands for, ignoring ASCII case as DNS does.\<close>

definition matching :: "record_config \<Rightarrow> dns_db \<Rightarrow> string \<Rightarrow> dns_record list" where
  "matching r db zk = filter (is_for r) (db zk)"

text \<open>The zone a record may be written to: the name, and the identifier if one is configured.\<close>

definition zone_of :: "(string \<Rightarrow> string) \<Rightarrow> record_config \<Rightarrow> string \<Rightarrow> bool" where
  "zone_of zn r zk \<longleftrightarrow> zn zk = lower (zone r) \<and> (\<forall>i. zone_id r = Some i \<longrightarrow> zk = lower i)"

definition desired :: "record_config \<Rightarrow> ip_addr \<Rightarrow> string \<Rightarrow> dns_record" where
  "desired r a i = \<lparr>dr_id = i, dr_record_type = record_type_str (record_type r), dr_name = name r,
     dr_content = show_ip a, dr_ttl = ttl r, dr_proxied = proxied r\<rparr>"

definition may_publish :: "record_config \<Rightarrow> ip_addr \<Rightarrow> bool" where
  "may_publish r a \<longleftrightarrow> is_public_address a \<and> family_matches (record_family (record_type r)) a"

inductive spec_sync :: "(string \<Rightarrow> string) \<Rightarrow> record_config \<Rightarrow> ip_addr \<Rightarrow> dns_db \<Rightarrow> dns_db \<Rightarrow> bool"
  for zn r a where
  spec_update: "zone_of zn r zk \<Longrightarrow> db zk = xs @ x # ys \<Longrightarrow> matching r db zk = [x] \<Longrightarrow>
      spec_sync zn r a db (db(zk := xs @ desired r a (dr_id x) # ys))"
| spec_create: "zone_of zn r zk \<Longrightarrow> db zk = xs @ ys \<Longrightarrow> matching r db zk = [] \<Longrightarrow>
      create_if_missing r \<Longrightarrow> rid \<notin> dr_id ` set (db zk) \<Longrightarrow>
      spec_sync zn r a db (db(zk := xs @ desired r a rid # ys))"

definition spec_step :: "(string \<Rightarrow> string) \<Rightarrow> record_config list \<Rightarrow> dns_db \<Rightarrow> dns_db \<Rightarrow> bool" where
  "spec_step zn rs db db' \<longleftrightarrow> (\<exists>r \<in> set rs. \<exists>a. may_publish r a \<and> spec_sync zn r a db db')"

abbreviation spec_steps :: "(string \<Rightarrow> string) \<Rightarrow> record_config list \<Rightarrow> dns_db \<Rightarrow> dns_db \<Rightarrow> bool" where
  "spec_steps zn rs \<equiv> (spec_step zn rs)\<^sup>*\<^sup>*"

definition in_sync :: "(string \<Rightarrow> string) \<Rightarrow> record_config \<Rightarrow> ip_addr \<Rightarrow> dns_db \<Rightarrow> bool" where
  "in_sync zn r a db \<longleftrightarrow> (\<exists>zk x. zone_of zn r zk \<and> matching r db zk = [x] \<and>
     parse_ip (dr_content x) = Some a \<and> dr_ttl x = ttl r \<and> dr_proxied x = proxied r)"

section \<open>What a step changes\<close>

lemma is_for_desired [simp]: "is_for r (desired r a i)"
  by (simp add: desired_def has_key_def)

lemma desired_in_sync [simp]:
  "parse_ip (dr_content (desired r a i)) = Some a" "dr_ttl (desired r a i) = ttl r"
  "dr_proxied (desired r a i) = proxied r" "dr_id (desired r a i) = i"
  by (simp_all add: desired_def)

text \<open>Two configured records stand for disjoint sets of records, unless they agree on type and name.\<close>

definition same_target :: "record_config \<Rightarrow> record_config \<Rightarrow> bool" where
  "same_target r r' \<longleftrightarrow> record_type r = record_type r' \<and> eq_ignore_ascii_case (name r) (name r')"

lemma record_type_str_eq_iff:
  "eq_ignore_ascii_case (record_type_str t) (record_type_str t') \<longleftrightarrow> t = t'"
  by (cases t; cases t') (simp_all add: eq_ignore_ascii_case_def to_ascii_lowercase_def to_lower_def)

lemma is_for_same_target: "is_for r x \<Longrightarrow> is_for r' x \<Longrightarrow> same_target r r'"
  unfolding has_key_def same_target_def eq_ignore_ascii_case_def
  by (metis record_type_str_eq_iff eq_ignore_ascii_case_def)

text \<open>A step is the step of one configured record: in one zone, and only what it stands for.\<close>

lemma matching_single:
  assumes "db zk = xs @ x # ys" and "matching r db zk = [x]"
  shows "is_for r x" and "filter (is_for r) xs = []" and "filter (is_for r) ys = []"
proof -
  have "x \<in> set (matching r db zk)" using assms(2) by simp
  then show x: "is_for r x" by (simp add: matching_def)
  have "length (filter (is_for r) xs) + length (filter (is_for r) ys) = 0"
    using arg_cong [OF assms(2), of length] x by (simp add: matching_def assms(1))
  then show "filter (is_for r) xs = []" "filter (is_for r) ys = []" by simp_all
qed

lemma spec_sync_frame:
  assumes "spec_sync zn r a db db'"
  obtains zk i where "zone_of zn r zk" "\<And>k. k \<noteq> zk \<Longrightarrow> db' k = db k"
    "matching r db' zk = [desired r a i]" "length (matching r db zk) \<le> 1"
    "filter (\<lambda>x. \<not> is_for r x) (db' zk) = filter (\<lambda>x. \<not> is_for r x) (db zk)"
  using assms
proof (cases rule: spec_sync.cases)
  case (spec_update zk xs x ys)
  note single = matching_single [OF spec_update(3,4)]
  show ?thesis
    using spec_update single by (intro that [of zk "dr_id x"]) (auto simp: matching_def)
next
  case (spec_create zk xs ys rid)
  then show ?thesis
    by (intro that [of zk rid]) (auto simp: matching_def)
qed

lemma filter_of_others:
  assumes "filter (\<lambda>x. \<not> Q x) xs = filter (\<lambda>x. \<not> Q x) ys" and "\<And>x. Q x \<Longrightarrow> \<not> P x"
  shows "filter P xs = filter P ys"
proof -
  have "filter P zs = filter P (filter (\<lambda>x. \<not> Q x) zs)" for zs
    unfolding filter_filter using assms(2) by (intro filter_cong) auto
  then show ?thesis using assms(1) by metis
qed

lemma matching_same_target: "same_target r' r \<Longrightarrow> matching r' db zk = matching r db zk"
  by (simp add: matching_def same_target_def has_key_def [abs_def] eq_ignore_ascii_case_def)

text \<open>
  A record no configured record of the zone stands for stays as it is, in its place among the
  others of its kind.
\<close>

definition unmanaged :: "(string \<Rightarrow> string) \<Rightarrow> record_config list \<Rightarrow> string \<Rightarrow> dns_record \<Rightarrow> bool" where
  "unmanaged zn rs zk x \<longleftrightarrow> (\<forall>r \<in> set rs. zone_of zn r zk \<longrightarrow> \<not> is_for r x)"

lemma spec_step_unmanaged:
  assumes "spec_step zn rs db db'"
  shows "filter (unmanaged zn rs zk) (db' zk) = filter (unmanaged zn rs zk) (db zk)"
proof -
  obtain r a where r: "r \<in> set rs" "spec_sync zn r a db db'"
    using assms by (auto simp: spec_step_def)
  from r(2) show ?thesis
  proof (cases rule: spec_sync_frame)
    case (1 k i)
    show ?thesis
    proof (cases "zk = k")
      case True
      then show ?thesis
        using filter_of_others [OF 1(5), of "unmanaged zn rs k"] 1(1) r(1) by (auto simp: unmanaged_def)
    next
      case False
      then show ?thesis using 1(2) by simp
    qed
  qed
qed

lemma spec_steps_unmanaged:
  "spec_steps zn rs db db' \<Longrightarrow> filter (unmanaged zn rs zk) (db' zk) = filter (unmanaged zn rs zk) (db zk)"
  by (induction rule: rtranclp_induct) (simp_all add: spec_step_unmanaged)

text \<open>Matching records are replaced one for one; only one that is missing is added.\<close>

lemma spec_sync_matching:
  assumes "spec_sync zn q a db db'"
  shows "matching r db' zk = matching r db zk \<or>
    (same_target r q \<and> zone_of zn q zk \<and> length (matching r db zk) \<le> 1 \<and> length (matching r db' zk) = 1)"
  using assms
proof (cases rule: spec_sync_frame)
  case frame: (1 k i)
  consider "zk \<noteq> k" | "zk = k" "same_target r q" | "zk = k" "\<not> same_target r q" by blast
  then show ?thesis
  proof cases
    case 1
    then show ?thesis using frame(2) by (simp add: matching_def)
  next
    case 2
    then show ?thesis using frame by (auto simp: matching_same_target)
  next
    case 3
    then have "matching r db' k = matching r db k"
      unfolding matching_def using is_for_same_target by (intro filter_of_others [OF frame(5)]) blast
    then show ?thesis using 3 by simp
  qed
qed

lemma spec_steps_matching:
  "spec_steps zn rs db db' \<Longrightarrow> length (matching r db' zk) \<le> max 1 (length (matching r db zk))"
proof (induction rule: rtranclp_induct)
  case (step db' db'')
  then show ?case using spec_sync_matching [of zn _ _ db' db'' r zk] by (fastforce simp: spec_step_def)
qed simp

text \<open>A step reaches the goal of its record, and a step for one configured record does not undo another.\<close>

definition separate :: "record_config list \<Rightarrow> bool" where
  "separate rs \<longleftrightarrow> (\<forall>r \<in> set rs. \<forall>r' \<in> set rs. same_target r r' \<longrightarrow> lower (zone r) = lower (zone r') \<longrightarrow> r = r')"

lemma valid_config_separate: "valid_config parse c \<Longrightarrow> separate (records c)"
  by (auto simp: separate_def same_target_def eq_ignore_ascii_case_def intro: valid_config_records_distinct)

lemma spec_sync_in_sync: "spec_sync zn r a db db' \<Longrightarrow> in_sync zn r a db'"
  by (erule spec_sync_frame) (auto simp: in_sync_def)

lemma in_sync_other:
  assumes "in_sync zn r a db" and "spec_sync zn q b db db'"
    and "separate rs" and "r \<in> set rs" and "q \<in> set rs" and "q \<noteq> r"
  shows "in_sync zn r a db'"
proof -
  obtain zk x where zk: "zone_of zn r zk" "matching r db zk = [x]" "parse_ip (dr_content x) = Some a"
    "dr_ttl x = ttl r" "dr_proxied x = proxied r"
    using assms(1) by (auto simp: in_sync_def)
  have "\<not> (same_target r q \<and> zone_of zn q zk)"
    using assms(3-6) zk(1) by (auto simp: separate_def zone_of_def)
  then have "matching r db' zk = matching r db zk"
    using spec_sync_matching [OF assms(2), of r zk] by blast
  then show ?thesis using zk by (auto simp: in_sync_def)
qed

text \<open>Zones keep distinct record identifiers.\<close>

definition distinct_ids :: "dns_db \<Rightarrow> bool" where
  "distinct_ids db \<longleftrightarrow> (\<forall>zk. distinct (map dr_id (db zk)))"

lemma spec_sync_distinct_ids:
  assumes "spec_sync zn r a db db'" and "distinct_ids db"
  shows "distinct_ids db'"
  using assms(1)
proof (cases rule: spec_sync.cases)
  case (spec_update zk xs x ys)
  have "distinct (map dr_id (xs @ x # ys))" "\<And>k. distinct (map dr_id (db k))"
    using assms(2) spec_update(3) by (metis distinct_ids_def)+
  then show ?thesis using spec_update(1) by (simp add: distinct_ids_def)
next
  case (spec_create zk xs ys rid)
  have "distinct (map dr_id (xs @ ys))" "\<And>k. distinct (map dr_id (db k))"
    using assms(2) spec_create(3) by (metis distinct_ids_def)+
  then show ?thesis using spec_create(1,3,6) by (auto simp: distinct_ids_def)
qed

end
