(* ===== verification/Dns_Service.thy ===== *)
theory Dns_Service
  imports Dns_Spec
begin

text \<open>
  The DNS service as the updater may rely on it, and what the reading operations then return.
  The service is not part of this repository: the environment stays a parameter, and its
  documented behaviour is the predicate \<open>dns_service\<close> over it, built from one named hypothesis
  per kind of request, over the requests of the API as such: neither the client's request builders nor
  its classification of replies occur in it. Everything is allowed to fail: a hypothesis only speaks
  about replies that report success. Under it, every reading operation of the client and of the updater keeps the
  database and the truth of the zone cache, and a lookup, a zone and a plan say the truth about
  the database.
\<close>

section \<open>The contract of the DNS service\<close>

text \<open>
  \<open>db\<close> reads the database off the world. The hypotheses are the documented behaviour of the
  service, each under its own name. Only the program writes: while it waits for a reply, for a
  deadline or for the signal, the database changes only by its own mutating requests.
\<close>

definition only_writer :: "'w env \<Rightarrow> ('w \<Rightarrow> dns_db) \<Rightarrow> bool" where
  "only_writer env db \<longleftrightarrow>
     (\<forall>u q w. db (snd (ev_respond env (get_request u q) w)) = db w) \<and>
     (\<forall>ts u q w n w'. ev_expires env ts (get_request u q) w = Some (n, w') \<longrightarrow> db w' = db w) \<and>
     (\<forall>u q w res w'. ev_signalled env (get_request u q) w = Some (res, w') \<longrightarrow> db w' = db w) \<and>
     (\<forall>v w. db v = db w \<longrightarrow> db (ev_join env v w) = db w)"

text \<open>
  A reply that reports success: a complete body with a success status and an envelope that says so.
\<close>

definition accepted :: "'a decoder \<Rightarrow> (http_response, string) result \<Rightarrow> 'a \<Rightarrow> result_info option \<Rightarrow> bool" where
  "accepted decode outcome x info \<longleftrightarrow> (\<exists>response e. outcome = Inr response \<and> st_success (rs_status response) \<and>
     rs_chunk_error response = None \<and> decode (concat (rs_chunks response)) = Inr e \<and>
     ae_success e \<and> ae_result e = Some x \<and> ae_result_info e = info)"

text \<open>
  A successful listing shows page \<open>p\<close> of the records with the name and type, \<open>n\<close> to a page; the
  number of pages, where it is given, is enough for all of them.
\<close>

definition lists_records :: "'w env \<Rightarrow> ('w \<Rightarrow> dns_db) \<Rightarrow> bool" where
  "lists_records env db \<longleftrightarrow>
     (\<forall>host ps zid rtype rname p n w xs info. 1 \<le> p \<longrightarrow> 5 \<le> n \<longrightarrow>
        accepted (ev_json_records env) (fst (ev_respond env (get_request
          (ApiUrl host (ps @ [''zones'', zid, ''dns_records'']))
          [(''name.exact'', rname), (''type'', rtype), (''match'', ''all''),
           (''page'', show_nat p), (''per_page'', show_nat n)]) w)) xs info \<longrightarrow>
        (let found = filter (has_key rtype rname) (db w (lower zid)) in
         xs = take n (drop ((p - 1) * n) found) \<and>
         (\<forall>i pages. info = Some i \<longrightarrow> ri_total_pages i = Some pages \<longrightarrow> length found \<le> pages * n)))"

text \<open>A zone document, alone or in a listing, names the zone its identifier belongs to.\<close>

definition names_zones :: "'w env \<Rightarrow> (string \<Rightarrow> string) \<Rightarrow> bool" where
  "names_zones env zn \<longleftrightarrow>
     (\<forall>host ps q w zs info.
        accepted (ev_json_zones env) (fst (ev_respond env (get_request (ApiUrl host (ps @ [''zones''])) q) w)) zs info \<longrightarrow>
        (\<forall>z \<in> set zs. zn (lower (zi_id z)) = lower (zi_name z))) \<and>
     (\<forall>host ps i q w z info.
        accepted (ev_json_zone env) (fst (ev_respond env (get_request (ApiUrl host (ps @ [''zones'', i])) q) w)) z info \<longrightarrow>
        zn (lower (zi_id z)) = lower (zi_name z))"

text \<open>
  A \<open>PATCH\<close> that succeeds replaces the fields of the record with the identifier, a \<open>POST\<close> that
  succeeds adds a record with a fresh identifier; a request that is not seen to succeed may or may
  not have had that effect.
\<close>

definition replace_record :: "string \<Rightarrow> string \<Rightarrow> record_payload \<Rightarrow> dns_db \<Rightarrow> dns_db" where
  "replace_record zk rid p db =
     db(zk := map (\<lambda>x. if dr_id x = rid then stored_record rid p else x) (db zk))"

definition adds_record :: "string \<Rightarrow> record_payload \<Rightarrow> dns_db \<Rightarrow> dns_db \<Rightarrow> bool" where
  "adds_record zk p db db' \<longleftrightarrow>
     (\<exists>rid xs ys. db zk = xs @ ys \<and> rid \<notin> dr_id ` set (db zk) \<and> db' = db(zk := xs @ stored_record rid p # ys))"

definition applies_writes :: "'w env \<Rightarrow> ('w \<Rightarrow> dns_db) \<Rightarrow> bool" where
  "applies_writes env db \<longleftrightarrow>
     (\<forall>host ps zid rid p w outcome w'. ev_respond env
          (json_request PATCH (ApiUrl host (ps @ [''zones'', zid, ''dns_records'', rid])) (PayloadBody p)) w = (outcome, w') \<longrightarrow>
        db w' = replace_record (lower zid) rid p (db w) \<or>
        db w' = db w \<and> (\<forall>x info. \<not> accepted (ev_json_record env) outcome x info)) \<and>
     (\<forall>host ps zid p w outcome w'. ev_respond env
          (json_request POST (ApiUrl host (ps @ [''zones'', zid, ''dns_records''])) (PayloadBody p)) w = (outcome, w') \<longrightarrow>
        adds_record (lower zid) p (db w) (db w') \<or>
        db w' = db w \<and> (\<forall>x info. \<not> accepted (ev_json_record env) outcome x info))"

text \<open>The whole contract; identifiers are unique within a zone.\<close>

definition dns_service :: "'w env \<Rightarrow> (string \<Rightarrow> string) \<Rightarrow> ('w \<Rightarrow> dns_db) \<Rightarrow> bool" where
  "dns_service env zn db \<longleftrightarrow>
     (\<forall>w. distinct_ids (db w)) \<and> only_writer env db \<and> lists_records env db \<and>
     names_zones env zn \<and> applies_writes env db"

text \<open>What the client takes for a success is one, and its requests are those of the contract.\<close>

lemma handle_accepted:
  assumes "handle_response client decode op outcome = Inr response"
  shows "accepted decode outcome (ar_result response) (ar_result_info response)"
  using assms limited_body_Inr
  by (fastforce simp: accepted_def handle_response_cases classify_response_Inr split: sum.splits body_error.splits)

lemma has_key_matches: "has_key = record_matches"
  by (auto simp: fun_eq_iff has_key_def record_matches_def eq_ignore_ascii_case_def)

definition base_path :: "cloudflare_client \<Rightarrow> string list" where
  "base_path client = (let base = split_char (CHR ''/'') (drop 1 (url_path (cc_api_base client)))
     in if last base = [] then butlast base else base)"

lemma endpoint_path: "endpoint client segs = ApiUrl (url_origin (cc_api_base client)) (base_path client @ segs)"
  by (simp add: endpoint_def base_path_def Let_def)

section \<open>Triples for the reading operations\<close>

text \<open>
  \<open>yields P m Q\<close>: \<open>m\<close> keeps the invariant \<open>P\<close> of the state however it ends, and what it
  returns satisfies \<open>Q\<close>.
\<close>

definition yields :: "('w sys \<Rightarrow> bool) \<Rightarrow> ('w, 'a) io \<Rightarrow> ('a \<Rightarrow> bool) \<Rightarrow> bool" where
  "yields P m Q \<longleftrightarrow> (\<forall>s x s'. m s = (x, s') \<longrightarrow> P s \<longrightarrow> P s' \<and> (\<forall>a. x = Done a \<longrightarrow> Q a))"

lemma yieldsD: "yields P m Q \<Longrightarrow> m s = (x, s') \<Longrightarrow> P s \<Longrightarrow> P s' \<and> (\<forall>a. x = Done a \<longrightarrow> Q a)"
  by (simp add: yields_def)

lemma yieldsI: "(\<And>s x s'. m s = (x, s') \<Longrightarrow> P s \<Longrightarrow> P s' \<and> (\<forall>a. x = Done a \<longrightarrow> Q a)) \<Longrightarrow> yields P m Q"
  by (simp add: yields_def)

lemma yields_weaken: "yields P m Q \<Longrightarrow> (\<And>a. Q a \<Longrightarrow> Q' a) \<Longrightarrow> yields P m Q'"
  unfolding yields_def by blast

lemma yields_ret: "Q a \<Longrightarrow> yields P (ret a) Q"
  by (simp add: yields_def ret_def)

lemma yields_bind: "yields P m Q \<Longrightarrow> (\<And>a. Q a \<Longrightarrow> yields P (f a) Q') \<Longrightarrow> yields P (bind_io m f) Q'"
proof (rule yieldsI)
  fix s x s'
  assume m: "yields P m Q" and f: "\<And>a. Q a \<Longrightarrow> yields P (f a) Q'" and b: "bind_io m f s = (x, s')" and s: "P s"
  from b show "P s' \<and> (\<forall>a. x = Done a \<longrightarrow> Q' a)"
  proof (cases rule: bind_io_cases)
    case (Done a t)
    then show ?thesis using yieldsD [OF m Done(1) s] yieldsD [OF f Done(2)] by blast
  qed (use yieldsD [OF m _ s] in blast)+
qed

lemma yields_bind_ok:
  assumes "yields P m (\<lambda>x. \<forall>a. x = Inr a \<longrightarrow> Q a)" and "\<And>e. Q' (Inl e)" and "\<And>a. Q a \<Longrightarrow> yields P (f a) Q'"
  shows "yields P (bind_ok m f) Q'"
  unfolding bind_ok_def using assms(2,3)
  by (intro yields_bind [OF assms(1)]) (auto intro: yields_ret split: sum.split)

lemma yields_get_sys: "(\<And>s. P s \<Longrightarrow> yields P (f s) Q) \<Longrightarrow> yields P (bind_io get_sys f) Q"
  unfolding yields_def get_sys_apply by blast

lemma yields_modify: "(\<And>s. P s \<Longrightarrow> P (g s)) \<Longrightarrow> yields P (modify_sys g) (\<lambda>_. True)"
  by (simp add: yields_def modify_sys_def)

text \<open>The view of a database: the zones in the cache are the configured records' own.\<close>

definition record_zone_key :: "record_config \<Rightarrow> string" where
  "record_zone_key r = (case zone_id r of None \<Rightarrow> named_key (zone r) | Some i \<Rightarrow> explicit_key (zone r) i)"

definition zones_true :: "(string \<Rightarrow> string) \<Rightarrow> record_config list \<Rightarrow> (string \<Rightarrow> string option) \<Rightarrow> bool" where
  "zones_true zn rs cache \<longleftrightarrow>
     (\<forall>r \<in> set rs. \<forall>zid. cache (record_zone_key r) = Some zid \<longrightarrow> zone_of zn r (lower zid))"

definition sees :: "('w \<Rightarrow> dns_db) \<Rightarrow> (string \<Rightarrow> string) \<Rightarrow> record_config list \<Rightarrow> dns_db \<Rightarrow> 'w sys \<Rightarrow> bool" where
  "sees db zn rs D s \<longleftrightarrow> db (world s) = D \<and> zones_true zn rs (zone_cache s)"

lemma sees_simps [simp]:
  "sees db zn rs D (s\<lparr>timers := ts\<rparr>) = sees db zn rs D s"
  "sees db zn rs D (move_cursor n s) = sees db zn rs D s"
  "sees db zn rs D (set_in_flight b s) = sees db zn rs D s"
  by (simp_all add: sees_def move_cursor_def)

lemma yields_timeout:
  assumes "yields (sees db zn rs D) m Q"
  shows "yields (sees db zn rs D) (timeout_at d m) (\<lambda>x. \<forall>a. x = Some a \<longrightarrow> Q a)"
  using yieldsD [OF assms] by (intro yieldsI) (fastforce simp: timeout_at_def split: prod.splits fut.splits nat.splits)

lemma yields_join2:
  assumes "only_writer env db" and "yields (sees db zn rs D) m1 Q1" and "yields (sees db zn rs D) m2 Q2"
  shows "yields (sees db zn rs D) (join2 env m1 m2) (\<lambda>_. True)"
proof (rule yieldsI)
  fix s x s'
  assume "join2 env m1 m2 s = (x, s')" and s: "sees db zn rs D s"
  then obtain r1 s1 r2 s2 where m: "m1 s = (r1, s1)" "m2 s = (r2, s2)" "s' = merge_sys env s s1 s2"
    by (auto simp: join2_def split: prod.splits)
  have "sees db zn rs D s1" "sees db zn rs D s2"
    using yieldsD [OF assms(2) m(1) s] yieldsD [OF assms(3) m(2) s] by simp_all
  then show "sees db zn rs D s' \<and> (\<forall>a. x = Done a \<longrightarrow> True)"
    using assms(1) by (auto simp: m(3) sees_def only_writer_def)
qed

lemma await_get_sees:
  assumes "only_writer env db" and "await env (get_request u q) s = (x, s')" and "sees db zn rs D s"
  shows "sees db zn rs D s'"
    and "x = Done outcome \<Longrightarrow> outcome = fst (ev_respond env (get_request u q) (world s))"
proof -
  show "sees db zn rs D s'"
    using assms(2,3) await_frame(2) [OF assms(2)] assms(1)
    by (auto simp: only_writer_def sees_def end_world_def elim!: await_outcome split: option.splits if_splits)
  show "x = Done outcome \<Longrightarrow> outcome = fst (ev_respond env (get_request u q) (world s))"
    using assms(2) by (auto simp: await_def complete_request_def split: option.splits prod.splits if_splits)
qed

lemma yields_send:
  assumes "only_writer env db"
    and "\<And>w response. db w = D \<Longrightarrow>
      handle_response client decode op (fst (ev_respond env (get_request u q) w)) = Inr response \<Longrightarrow> Q response"
  shows "yields (sees db zn rs D) (send env client decode (get_request u q) op) (\<lambda>r. \<forall>a. r = Inr a \<longrightarrow> Q a)"
proof (rule yieldsI)
  fix s x s'
  assume m: "send env client decode (get_request u q) op s = (x, s')" and s: "sees db zn rs D s"
  from m [unfolded send_def] show "sees db zn rs D s' \<and> (\<forall>r. x = Done r \<longrightarrow> (\<forall>a. r = Inr a \<longrightarrow> Q a))"
  proof (cases rule: bind_io_cases)
    case (Done outcome t)
    note a = await_get_sees [OF assms(1) Done(1) s]
    have "db (world s) = D" using s by (simp add: sees_def)
    then show ?thesis using a Done(2) assms(2) by (auto simp: ret_def)
  qed (use await_get_sees(1) [OF assms(1) _ s] in auto)
qed

section \<open>Zones\<close>

lemma evict_zones_true: "zones_true zn rs cache \<Longrightarrow> zones_true zn rs (evict_zone zid cache)"
  by (simp add: zones_true_def evict_zone_spec)

definition ids_ok :: "record_config list \<Rightarrow> bool" where
  "ids_ok rs \<longleftrightarrow> (\<forall>r \<in> set rs. valid_id (zone_id r))"

lemma valid_config_ids: "valid_config parse c \<Longrightarrow> ids_ok (records c)"
  by (auto simp: valid_config_def ids_ok_def list_all_iff valid_record_def)

lemma record_zone_key_inj:
  assumes "valid_id (zone_id r)" and "valid_id (zone_id r')" and "record_zone_key r = record_zone_key r'"
  shows "zone_of zn r zk \<longleftrightarrow> zone_of zn r' zk"
  using assms
  by (auto simp: record_zone_key_def named_key_def explicit_key_def valid_id_def zone_of_def split: option.splits)

lemma zones_true_insert:
  assumes "zones_true zn rs cache" and "ids_ok rs" and "r \<in> set rs" and "zone_of zn r (lower zid)"
  shows "zones_true zn rs (cache(record_zone_key r \<mapsto> zid))"
  using assms record_zone_key_inj unfolding zones_true_def ids_ok_def
  by (metis fun_upd_apply option.inject)

lemma yields_cache_zone:
  assumes "ids_ok rs" and "r \<in> set rs" and "zone_of zn r (lower zid)"
  shows "yields (sees db zn rs D) (cache_zone (record_zone_key r) zid) (\<lambda>_. True)"
  unfolding cache_zone_def using zones_true_insert [OF _ assms]
  by (intro yields_modify) (simp add: sees_def)

lemma scan_zones_from:
  "scan_zones client zname exact inactive zs = Inr (Some zid, inactive') \<Longrightarrow>
     exact = Some zid \<or> (\<exists>z \<in> set zs. eq_ignore_ascii_case (zi_name z) zname \<and> zi_id z = zid)"
  by (induction zs arbitrary: exact inactive) (force split: if_splits)+

lemma yields_zone_pages:
  assumes "only_writer env db" and "names_zones env zn" and "ids_ok rs" and "r \<in> set rs" and "zone_id r = None"
  shows "(\<And>zid. exact = Some zid \<Longrightarrow> zone_of zn r (lower zid)) \<Longrightarrow>
    yields (sees db zn rs D) (zone_pages env client (zone r) exact inactive k)
      (\<lambda>x. \<forall>zid. x = Inr zid \<longrightarrow> zone_of zn r (lower zid))"
proof (induction k arbitrary: exact inactive)
  case 0
  show ?case by (simp add: yields_ret)
next
  case (Suc k)
  let ?ok = "\<lambda>response. \<forall>z \<in> set (ar_result response). zn (lower (zi_id z)) = lower (zi_name z)"
  have found: "zone_of zn r (lower zid)"
    if "?ok response" "scan_zones client (zone r) exact inactive (ar_result response) = Inr (Some zid, i)" for response zid i
    using scan_zones_from [OF that(2)] Suc.prems that(1) assms(5) by (auto simp: zone_of_def eq_ignore_ascii_case_def)
  have key: "named_key (zone r) = record_zone_key r"
    using assms(5) by (simp add: record_zone_key_def)
  have send: "yields (sees db zn rs D)
      (send env client (ev_json_zones env) (zone_page_request client (zone r) (MAX_PAGES - k)) ''looking up a zone'')
      (\<lambda>x. \<forall>a. x = Inr a \<longrightarrow> ?ok a)"
    unfolding zone_page_request_def endpoint_path
    using assms(2) unfolding names_zones_def by (intro yields_send [OF assms(1)]) (blast dest: handle_accepted)
  show ?case
    unfolding zone_pages.simps key
    by (rule yields_bind_ok [OF send], simp)
       (auto split: sum.split option.split intro!: yields_ret yields_bind [OF yields_cache_zone] Suc.IH assms(3,4) dest: found)
qed

lemma sees_hit:
  "r \<in> set rs \<Longrightarrow> sees db zn rs D s \<Longrightarrow> zone_cache s (record_zone_key r) = Some zid \<Longrightarrow> zone_of zn r (lower zid)"
  by (auto simp: sees_def zones_true_def)

lemma yields_resolve_explicit:
  assumes "only_writer env db" and "names_zones env zn" and "ids_ok rs" and "r \<in> set rs" and "zone_id r = Some i"
  shows "yields (sees db zn rs D) (resolve_explicit_zone_id env client (zone r) i)
    (\<lambda>x. \<forall>zid. x = Inr zid \<longrightarrow> zone_of zn r (lower zid))"
proof -
  let ?ok = "\<lambda>response. zn (lower (zi_id (ar_result response))) = lower (zi_name (ar_result response))"
  have key: "explicit_key (zone r) i = record_zone_key r"
    using assms(5) by (simp add: record_zone_key_def)
  have found: "zone_of zn r (lower i)"
    if "?ok response" "check_explicit_zone client (zone r) i (ar_result response) = Inr u" for response u
    using that assms(5) by (auto simp: check_explicit_zone_def zone_of_def eq_ignore_ascii_case_def split: if_splits)
  have send: "yields (sees db zn rs D)
      (send env client (ev_json_zone env) (get_request (endpoint client [''zones'', i]) []) ''verifying an explicit zone ID'')
      (\<lambda>x. \<forall>a. x = Inr a \<longrightarrow> ?ok a)"
    unfolding endpoint_path
    using assms(2) unfolding names_zones_def by (intro yields_send [OF assms(1)]) (blast dest: handle_accepted)
  have miss: "yields (sees db zn rs D)
      (bind_ok (send env client (ev_json_zone env) (get_request (endpoint client [''zones'', i]) []) ''verifying an explicit zone ID'')
        (\<lambda>response. case check_explicit_zone client (zone r) i (ar_result response) of
            Inl e \<Rightarrow> ret (Inl e)
          | Inr _ \<Rightarrow> bind_io (cache_zone (record_zone_key r) i) (\<lambda>_. ret (Inr i))))
      (\<lambda>x. \<forall>zid. x = Inr zid \<longrightarrow> zone_of zn r (lower zid))"
    by (rule yields_bind_ok [OF send], simp)
       (auto split: sum.split intro!: yields_ret yields_bind [OF yields_cache_zone] assms(3,4) dest: found)
  show ?thesis
    unfolding resolve_explicit_zone_id_def key
    using miss by (intro yields_get_sys) (auto split: option.split intro!: yields_ret dest: sees_hit [OF assms(4)])
qed

lemma yields_resolve_zone_id:
  assumes "only_writer env db" and "names_zones env zn" and "ids_ok rs" and "r \<in> set rs"
  shows "yields (sees db zn rs D) (resolve_zone_id env client (zone r) (zone_id r))
    (\<lambda>x. \<forall>zid. x = Inr zid \<longrightarrow> zone_of zn r (lower zid))"
proof (cases "zone_id r")
  case None
  then have key: "named_key (zone r) = record_zone_key r"
    by (simp add: record_zone_key_def)
  show ?thesis
    unfolding None resolve_zone_id_def resolve_named_zone_id_def key option.case
    using yields_zone_pages [OF assms None, of None]
    by (intro yields_get_sys) (auto intro!: yields_ret dest: sees_hit [OF assms(4)] split: option.split)
next
  case (Some i)
  then show ?thesis
    using yields_resolve_explicit [OF assms Some] by (simp add: resolve_zone_id_def)
qed

section \<open>Records\<close>

lemma yields_send_in_zone:
  assumes "yields (sees db zn rs D) (send env client decode q op) (\<lambda>x. \<forall>a. x = Inr a \<longrightarrow> Q a)"
  shows "yields (sees db zn rs D) (send_in_zone env client decode q op zid) (\<lambda>x. \<forall>a. x = Inr a \<longrightarrow> Q a)"
proof -
  have evict: "yields (sees db zn rs D) (invalidate_zone_after_not_found zid e) (\<lambda>_. True)" for e
    unfolding invalidate_zone_after_not_found_def
    by (auto intro!: yields_modify yields_ret simp: sees_def evict_zones_true)
  show ?thesis
    unfolding send_in_zone_def
    by (rule yields_bind [OF assms]) (auto intro!: yields_ret yields_bind [OF evict] split: sum.split)
qed

lemma lists_recordsD:
  assumes "lists_records env db" and "1 \<le> p"
    and "handle_response client (ev_json_records env) op
      (fst (ev_respond env (record_page_request client zid rtype rname p) w)) = Inr response"
  defines "found \<equiv> filter (record_matches rtype rname) (db w (lower zid))"
  shows "ar_result response = take RECORD_PAGE_SIZE (drop ((p - 1) * RECORD_PAGE_SIZE) found) \<and>
    (p * RECORD_PAGE_SIZE < length found \<longrightarrow>
      has_next_page p (length (ar_result response)) RECORD_PAGE_SIZE (ar_result_info response))"
proof -
  have page: "5 \<le> RECORD_PAGE_SIZE" by (simp add: RECORD_PAGE_SIZE_def)
  note reply = handle_accepted [OF assms(3), unfolded record_page_request_def endpoint_path]
  have xs: "ar_result response = take RECORD_PAGE_SIZE (drop ((p - 1) * RECORD_PAGE_SIZE) found)"
    and pages: "\<And>i n. ar_result_info response = Some i \<Longrightarrow> ri_total_pages i = Some n \<Longrightarrow> length found \<le> n * RECORD_PAGE_SIZE"
    using assms(1,2) page reply unfolding lists_records_def Let_def found_def has_key_matches by blast+
  have "has_next_page p (length (ar_result response)) RECORD_PAGE_SIZE (ar_result_info response)"
    if more: "p * RECORD_PAGE_SIZE < length found"
  proof -
    have "p * RECORD_PAGE_SIZE = (p - 1) * RECORD_PAGE_SIZE + RECORD_PAGE_SIZE"
      using assms(2) by (cases p) simp_all
    then have full: "length (ar_result response) = RECORD_PAGE_SIZE"
      using xs more by simp
    have "p < n" if "ar_result_info response = Some i" "ri_total_pages i = Some n" for i n
      using pages [OF that] more by (meson less_le_trans mult_less_cancel2)
    then show ?thesis using full by (auto simp: has_next_page_def split: option.split)
  qed
  then show ?thesis using xs by blast
qed

text \<open>A lookup that succeeds has seen every matching record of the zone.\<close>

lemma yields_record_pages:
  fixes D :: dns_db
  assumes "only_writer env db" and "lists_records env db"
  defines "found \<equiv> \<lambda>zid rtype rname. filter (record_matches rtype rname) (D (lower zid))"
  shows "k \<le> MAX_PAGES \<Longrightarrow>
    scan_records rtype rname None (take ((MAX_PAGES - k) * RECORD_PAGE_SIZE) (found zid rtype rname)) = Inr exact \<Longrightarrow>
    yields (sees db zn rs D) (record_pages env client zid rtype rname exact k)
      (\<lambda>x. \<forall>e. x = Inr e \<longrightarrow> scan_records rtype rname None (found zid rtype rname) = Inr e)"
proof (induction k arbitrary: exact)
  case 0
  show ?case by (simp add: yields_ret)
next
  case (Suc k)
  let ?L = "found zid rtype rname" and ?p = "MAX_PAGES - k" and ?n = RECORD_PAGE_SIZE
  let ?ok = "\<lambda>response. ar_result response = take ?n (drop ((?p - 1) * ?n) ?L) \<and>
    (?p * ?n < length ?L \<longrightarrow> has_next_page ?p (length (ar_result response)) ?n (ar_result_info response))"
  have p: "1 \<le> ?p" "MAX_PAGES - Suc k = ?p - 1" using Suc.prems(1) by auto
  have "take (?p * ?n) ?L = take ((?p - 1) * ?n) ?L @ take ?n (drop ((?p - 1) * ?n) ?L)"
    using p(1) by (metis add.commute diff_add_inverse le_add_diff_inverse mult.commute mult_Suc_right plus_1_eq_Suc take_add)
  then have next_page: "scan_records rtype rname None (take (?p * ?n) ?L) = scan_records rtype rname exact (ar_result response)"
    if "?ok response" for response
    using that Suc.prems(2) unfolding p(2) by (simp add: scan_records_append)
  have send: "yields (sees db zn rs D)
      (send env client (ev_json_records env) (record_page_request client zid rtype rname ?p) ''looking up a DNS record'')
      (\<lambda>x. \<forall>a. x = Inr a \<longrightarrow> ?ok a)"
    unfolding record_page_request_def found_def
    by (intro yields_send [OF assms(1)], drule sym)
       (use lists_recordsD [OF assms(2) p(1), unfolded record_page_request_def] in blast)
  have last: "scan_records rtype rname None ?L = Inr e"
    if "?ok response" "scan_records rtype rname exact (ar_result response) = Inr e"
      "\<not> has_next_page ?p (length (ar_result response)) ?n (ar_result_info response)" for response e
    using next_page [OF that(1)] that by simp
  have more: "yields (sees db zn rs D) (record_pages env client zid rtype rname e k)
      (\<lambda>x. \<forall>e. x = Inr e \<longrightarrow> scan_records rtype rname None ?L = Inr e)"
    if "?ok response" "scan_records rtype rname exact (ar_result response) = Inr e" for response e
    using Suc.IH [of e] Suc.prems(1) next_page [OF that(1)] that(2) by simp
  show ?case
    unfolding record_pages.simps
  proof (rule yields_bind_ok [OF yields_send_in_zone [OF send]])
    fix response
    assume ok: "?ok response"
    show "yields (sees db zn rs D) (case scan_records rtype rname exact (ar_result response) of
          Inl e \<Rightarrow> ret (Inl e)
        | Inr e' \<Rightarrow> if has_next_page ?p (length (ar_result response)) ?n (ar_result_info response)
            then record_pages env client zid rtype rname e' k else ret (Inr e'))
        (\<lambda>x. \<forall>e. x = Inr e \<longrightarrow> scan_records rtype rname None ?L = Inr e)"
      using last [OF ok] more [OF ok]
      by (cases "scan_records rtype rname exact (ar_result response)") (auto intro: yields_ret)
  qed simp
qed

lemma yields_lookup:
  assumes "only_writer env db" and "lists_records env db"
  shows "yields (sees db zn rs D) (find_record env client zid rtype rname)
    (\<lambda>x. \<forall>e. x = Inr e \<longrightarrow> scan_records rtype rname None (filter (record_matches rtype rname) (D (lower zid))) = Inr e)"
  unfolding find_record_def by (rule yields_record_pages [OF assms]) simp_all

lemma yields_find_record:
  assumes "only_writer env db" and "lists_records env db"
  shows "yields (sees db zn rs D) (find_record env client zid (record_type_str (record_type r)) (name r))
    (\<lambda>x. (x = Inr None \<longrightarrow> matching r D (lower zid) = []) \<and>
         (\<forall>e. x = Inr (Some e) \<longrightarrow> matching r D (lower zid) = [e]))"
  by (rule yields_weaken [OF yields_lookup [OF assms]])
     (auto simp: scan_records_None matching_def has_key_matches split: list.splits)

section \<open>Discovery\<close>

lemma yields_query_provider:
  assumes "only_writer env db"
  shows "yields (sees db zn rs D) (query_provider env p family) (\<lambda>_. True)"
  unfolding query_provider_def
  by (rule yields_bind [where Q = "\<lambda>_. True"])
     (auto intro!: yieldsI yields_ret dest: await_get_sees(1) [OF assms])

lemma yields_discover_from:
  assumes "only_writer env db"
  shows "yields (sees db zn rs D) (discover_from env client family started ps fs) (\<lambda>_. True)"
proof (induction ps arbitrary: fs)
  case (Cons p ps)
  then show ?case
    unfolding discover_from.simps Let_def
    by (auto intro!: yields_get_sys yields_ret yields_bind [OF yields_timeout [OF yields_query_provider [OF assms]]]
        split: option.split sum.split)
qed (simp add: yields_ret)

lemma yields_discover_lane:
  assumes "only_writer env db"
  shows "yields (sees db zn rs D) (discover_lane env client needed family ps) (\<lambda>_. True)"
  unfolding discover_lane_def discover_def
  by (auto intro!: yields_ret yields_bind [where Q = "\<lambda>_. True"] yields_get_sys yields_discover_from [OF assms])

lemma yields_discover_required:
  assumes "only_writer env db"
  shows "yields (sees db zn rs D) (discover_required_addresses env up) (\<lambda>_. True)"
  unfolding discover_required_addresses_def Let_def
  by (rule yields_bind [OF yields_join2 [OF assms yields_discover_lane [OF assms] yields_discover_lane [OF assms]]])
     (auto intro: yields_ret)

section \<open>Plans\<close>

text \<open>What a plan says about the database it was made from.\<close>

fun plan_true :: "(string \<Rightarrow> string) \<Rightarrow> record_config \<Rightarrow> ip_addr \<Rightarrow> dns_db \<Rightarrow> record_plan \<Rightarrow> bool" where
  "plan_true zn r a D PlanUnchanged \<longleftrightarrow> in_sync zn r a D"
| "plan_true zn r a D (PlanUpdate zid rid p) \<longleftrightarrow> zone_of zn r (lower zid) \<and> p = payload_for r a \<and>
     (\<exists>x. matching r D (lower zid) = [x] \<and> dr_id x = rid \<and>
        \<not> (parse_ip (dr_content x) = Some a \<and> dr_ttl x = ttl r \<and> dr_proxied x = proxied r))"
| "plan_true zn r a D (PlanCreate zid p) \<longleftrightarrow> zone_of zn r (lower zid) \<and> p = payload_for r a \<and>
     matching r D (lower zid) = [] \<and> create_if_missing r"

lemma plan_existing_true:
  "zone_of zn r (lower zid) \<Longrightarrow> matching r D (lower zid) = [e] \<Longrightarrow>
     plan_true zn r a D (plan_existing_record r a zid e)"
  by (auto simp: plan_existing_record_def in_sync_def)

lemma yields_at_stage:
  "yields P m (\<lambda>x. \<forall>a. x = Inr a \<longrightarrow> Q a) \<Longrightarrow> yields P (at_stage st m) (\<lambda>x. \<forall>a. x = Inr a \<longrightarrow> Q a)"
  unfolding at_stage_def by (erule yields_bind) (auto intro: yields_ret)

lemma yields_plan_record:
  assumes "dns_service env zn db" and "ids_ok rs" and "r \<in> set rs"
  shows "yields (sees db zn rs D) (plan_record env client r a) (\<lambda>x. \<forall>plan. x = Inr plan \<longrightarrow> plan_true zn r a D plan)"
proof -
  have c: "only_writer env db" "lists_records env db" "names_zones env zn"
    using assms(1) by (simp_all add: dns_service_def)
  have zone: "yields (sees db zn rs D) (at_stage FsZoneLookup (resolve_zone_id env client (zone r) (zone_id r)))
      (\<lambda>x. \<forall>zid. x = Inr zid \<longrightarrow> zone_of zn r (lower zid))"
    by (rule yields_at_stage) (rule yields_resolve_zone_id [OF c(1,3) assms(2,3)])
  have look: "yields (sees db zn rs D)
      (at_stage FsRecordLookup (find_record env client zid (record_type_str (record_type r)) (name r)))
      (\<lambda>x. \<forall>y. x = Inr y \<longrightarrow> (case y of None \<Rightarrow> matching r D (lower zid) = [] | Some e \<Rightarrow> matching r D (lower zid) = [e]))" for zid
    by (rule yields_at_stage, rule yields_weaken [OF yields_find_record [OF c(1,2)]]) (auto split: option.split)
  show ?thesis
    unfolding plan_record_def
  proof (rule yields_bind_ok [OF zone], simp, rule yields_bind_ok [OF look], simp)
    fix zid existing
    assume zid: "zone_of zn r (lower zid)"
      and existing: "case existing of None \<Rightarrow> matching r D (lower zid) = [] | Some e \<Rightarrow> matching r D (lower zid) = [e]"
    have again: "yields (sees db zn rs D)
        (bind_ok (at_stage FsRecordLookup (find_record env client zid (record_type_str (record_type r)) (name r)))
          (\<lambda>rechecked. ret (Inr (case rechecked of None \<Rightarrow> PlanCreate zid (payload_for r a)
             | Some e \<Rightarrow> plan_existing_record r a zid e))))
        (\<lambda>x. \<forall>plan. x = Inr plan \<longrightarrow> plan_true zn r a D plan)" if "create_if_missing r"
      by (rule yields_bind_ok [OF look], simp, rule yields_ret)
         (use zid that in \<open>auto simp: plan_existing_true split: option.splits\<close>)
    show "yields (sees db zn rs D)
        (case existing of
           None \<Rightarrow> if \<not> create_if_missing r
             then ret (Inl (FsRecordLookup, RecordNotFound (record_type_str (record_type r)) (name r)))
             else bind_ok (at_stage FsRecordLookup (find_record env client zid (record_type_str (record_type r)) (name r)))
               (\<lambda>rechecked. ret (Inr (case rechecked of None \<Rightarrow> PlanCreate zid (payload_for r a)
                  | Some e \<Rightarrow> plan_existing_record r a zid e)))
         | Some e \<Rightarrow> ret (Inr (plan_existing_record r a zid e)))
        (\<lambda>x. \<forall>plan. x = Inr plan \<longrightarrow> plan_true zn r a D plan)"
      using zid existing again by (cases existing) (auto intro!: yields_ret plan_existing_true)
  qed
qed

end
