(* ===== verification/Dns_Refine.thy ===== *)
theory Dns_Refine
  imports Dns_Service Cli
begin

text \<open>
  The program implements the abstract specification of \<open>Dns_Spec\<close>: against a service that
  keeps the contract of \<open>Dns_Service\<close>, executing a plan is at most one step of the
  specification, and so are the cycles, the daemon and the commands, however they end; a cycle
  that reports success has reached the goal of every configured record.
\<close>

section \<open>Writing\<close>

text \<open>A guarded request ends in the world of its reply, and its result is the reply's.\<close>

lemma guarded_send_world:
  assumes "timers s = []" and "guarded (send_record env client q op zid) s = (x, s')"
  obtains outcome where "ev_respond env q (world s) = (outcome, world s')"
    "x = Done (case handle_response client (ev_json_record env) op outcome of Inl e \<Rightarrow> Inl e | Inr response \<Rightarrow> Inr (ar_result response))"
    "zone_cache s' = zone_cache s \<or> zone_cache s' = evict_zone zid (zone_cache s)"
proof -
  let ?s = "set_in_flight True s"
  obtain y t where y: "await env q ?s = (y, t)" by (cases "await env q ?s")
  obtain outcome where outcome: "y = Done outcome" "ev_respond env q (world s) = (outcome, world t)"
    using y assms(1)
    by (auto simp: await_def complete_request_def split: option.splits prod.splits if_splits)
  show ?thesis
    using assms(2) y outcome await_frame(2) [OF y]
    by (intro that [of outcome])
       (auto simp: guarded_def send_record_def send_in_zone_def send_def invalidate_zone_after_not_found_def bind_ok_def
         bind_io_def ret_def modify_sys_def split: prod.splits sum.splits if_splits)
qed

lemma desired_stored: "desired r a i = stored_record i (payload_for r a)"
  by (simp add: desired_def stored_record_def payload_for_def)

lemma replace_is_update:
  assumes "distinct_ids D" and "matching r D zk = [x]" and "zone_of zn r zk"
  shows "spec_sync zn r a D (replace_record zk (dr_id x) (payload_for r a) D)"
proof -
  have "x \<in> set (D zk)"
    using assms(2) by (auto simp: matching_def filter_eq_Cons_iff)
  then obtain xs ys where D: "D zk = xs @ x # ys" by (auto simp: in_set_conv_decomp)
  have "distinct (map dr_id (xs @ x # ys))"
    using assms(1) D by (metis distinct_ids_def)
  then have "y \<in> set xs \<union> set ys \<Longrightarrow> dr_id y \<noteq> dr_id x" for y
    by (auto simp: image_iff)
  then have "replace_record zk (dr_id x) (payload_for r a) D = D(zk := xs @ desired r a (dr_id x) # ys)"
    unfolding replace_record_def D desired_stored by (auto intro!: map_idI arg_cong [where f = "fun_upd D zk"])
  then show ?thesis
    using spec_update [OF assms(3) D assms(2)] by simp
qed

lemma adds_is_create:
  assumes "adds_record zk (payload_for r a) D D'" and "matching r D zk = []" and "zone_of zn r zk" and "create_if_missing r"
  shows "spec_sync zn r a D D'"
  using assms(1) spec_create [OF assms(3) _ assms(2,4)] by (auto simp: adds_record_def desired_stored)

lemma update_effect:
  assumes "applies_writes env db" and "ev_respond env (update_request client zid rid p) w = (outcome, w')"
  shows "db w' = replace_record (lower zid) rid p (db w) \<or>
    db w' = db w \<and> (\<exists>e. handle_response client (ev_json_record env) ''updating a DNS record'' outcome = Inl e)"
  using assms handle_accepted [of client "ev_json_record env" "''updating a DNS record''" outcome]
  unfolding applies_writes_def update_request_def endpoint_path by (metis sum.exhaust)

lemma create_effect:
  assumes "applies_writes env db" and "ev_respond env (create_request client zid p) w = (outcome, w')"
  shows "adds_record (lower zid) p (db w) (db w') \<or>
    db w' = db w \<and> (\<exists>e. handle_response client (ev_json_record env) ''creating a DNS record'' outcome = Inl e)"
  using assms handle_accepted [of client "ev_json_record env" "''creating a DNS record''" outcome]
  unfolding applies_writes_def create_request_def endpoint_path by (metis sum.exhaust)

text \<open>
  Executing a plan: at most one step of the specification, and the goal of the record when the
  result is a success.
\<close>

lemma execute_refines:
  assumes "dns_service env zn db" and "timers s = []" and "sees db zn rs D s" and "distinct_ids D"
    and "plan_true zn r a D plan" and "execute_record_plan env client plan s = (Done out, s')"
  obtains D' where "sees db zn rs D' s'" "D' = D \<or> spec_sync zn r a D D'" "\<And>o'. out = Inr o' \<Longrightarrow> in_sync zn r a D'"
proof -
  note result = that
  have writes: "applies_writes env db" using assms(1) by (simp add: dns_service_def)
  have D: "db (world s) = D" "zones_true zn rs (zone_cache s)" using assms(3) by (simp_all add: sees_def)
  have wrote: thesis
    if g: "guarded (send_record env client q op zid) s = (Done y, s')"
      and out: "\<And>e. y = Inl e \<Longrightarrow> \<exists>e'. out = Inl e'"
      and effect: "\<And>outcome w'. ev_respond env q (world s) = (outcome, w') \<Longrightarrow> spec_sync zn r a D (db w') \<or>
        db w' = D \<and> (\<exists>e. handle_response client (ev_json_record env) op outcome = Inl e)" for q op zid y
  proof -
    obtain outcome where o: "ev_respond env q (world s) = (outcome, world s')"
      "y = (case handle_response client (ev_json_record env) op outcome of Inl e \<Rightarrow> Inl e | Inr response \<Rightarrow> Inr (ar_result response))"
      "zone_cache s' = zone_cache s \<or> zone_cache s' = evict_zone zid (zone_cache s)"
      using guarded_send_world [OF assms(2) g] by blast
    have "sees db zn rs (db (world s')) s'"
      using o(3) D(2) by (auto simp: sees_def evict_zones_true)
    moreover have "in_sync zn r a (db (world s'))" if "out = Inr o'" for o'
      using effect [OF o(1)] out o(2) that by (auto intro: spec_sync_in_sync)
    ultimately show thesis
      using effect [OF o(1)] by (intro result) auto
  qed
  show thesis
  proof (cases plan)
    case PlanUnchanged
    then show ?thesis
      using assms(3,5,6) by (intro that [of D]) (auto simp: execute_record_plan_def ret_def)
  next
    case (PlanUpdate zid rid p)
    obtain y where y: "guarded (send_record env client (update_request client zid rid p) ''updating a DNS record'' zid) s = (Done y, s')"
      "\<And>e. y = Inl e \<Longrightarrow> \<exists>e'. out = Inl e'"
      using assms(6) PlanUpdate
      by (auto simp: execute_record_plan_def update_record_def bind_ok_Done_iff at_stage_def bind_io_Done_iff ret_def map_err_Inl_iff)
    obtain e where e: "zone_of zn r (lower zid)" "p = payload_for r a" "matching r D (lower zid) = [e]" "dr_id e = rid"
      using assms(5) PlanUpdate by auto
    show ?thesis
      by (rule wrote [OF y], assumption, drule update_effect [OF writes])
         (use replace_is_update [OF assms(4) e(3,1), of a] e(2,4) D(1) in auto)
  next
    case (PlanCreate zid p)
    obtain y where y: "guarded (send_record env client (create_request client zid p) ''creating a DNS record'' zid) s = (Done y, s')"
      "\<And>e. y = Inl e \<Longrightarrow> \<exists>e'. out = Inl e'"
      using assms(6) PlanCreate
      by (auto simp: execute_record_plan_def create_record_def bind_ok_Done_iff at_stage_def bind_io_Done_iff ret_def map_err_Inl_iff)
    show ?thesis
      by (rule wrote [OF y], assumption, drule create_effect [OF writes])
         (use assms(5) PlanCreate D(1) in \<open>auto dest: adds_is_create\<close>)
  qed
qed

section \<open>One record and one cycle\<close>

lemma spec_step_mono: "set qs \<subseteq> set rs \<Longrightarrow> spec_step zn qs D D' \<Longrightarrow> spec_step zn rs D D'"
  by (auto simp: spec_step_def)

lemma spec_steps_single: "may_publish r a \<Longrightarrow> spec_sync zn r a D D' \<Longrightarrow> spec_steps zn [r] D D'"
  by (rule r_into_rtranclp) (auto simp: spec_step_def)

lemma spec_steps_mono: "spec_steps zn qs D D' \<Longrightarrow> set qs \<subseteq> set rs \<Longrightarrow> spec_steps zn rs D D'"
  by (erule rtranclp_mono [THEN predicate2D, rotated]) (auto intro: spec_step_mono)

lemma spec_steps_distinct_ids: "spec_steps zn rs D D' \<Longrightarrow> distinct_ids D \<Longrightarrow> distinct_ids D'"
  by (induction rule: rtranclp_induct) (auto simp: spec_step_def intro: spec_sync_distinct_ids)

lemma sync_record_refines:
  assumes "dns_service env zn db" and "ids_ok rs" and "r \<in> set rs" and "may_publish r a"
    and "timers s = []" and "sees db zn rs D s" and "distinct_ids D"
    and "sync_record env client deadline r a s = (x, s')"
  obtains D' where "sees db zn rs D' s'" "spec_steps zn [r] D D'"
    "\<And>o'. x = Done (Some (Inr o')) \<Longrightarrow> in_sync zn r a D'"
  using assms(5,8)
proof (cases rule: sync_record_cases)
  case (planned y)
  then have "sees db zn rs D s'"
    using yieldsD [OF yields_timeout [OF yields_plan_record [OF assms(1-3)]] planned(1) assms(6)] by blast
  then show ?thesis using planned(3) by (intro that [of D]) auto
next
  case (executed plan t out)
  have t: "sees db zn rs D t" "plan_true zn r a D plan"
    using yieldsD [OF yields_timeout [OF yields_plan_record [OF assms(1-3)]] executed(1) assms(6)] by auto
  obtain D' where D': "sees db zn rs D' s'" "D' = D \<or> spec_sync zn r a D D'" "\<And>o'. out = Inr o' \<Longrightarrow> in_sync zn r a D'"
    using execute_refines [OF assms(1) executed(4) t(1) assms(7) t(2) executed(5)] by blast
  have "spec_steps zn [r] D D'"
    using D'(2) spec_steps_single [OF assms(4)] by auto
  then show ?thesis
    using that [OF D'(1)] D'(3) executed(6) by blast
qed

lemma in_sync_steps:
  assumes "spec_steps zn qs D D'" and "in_sync zn r a D"
    and "separate rs" and "r \<in> set rs" and "set qs \<subseteq> set rs" and "r \<notin> set qs"
  shows "in_sync zn r a D'"
  using assms(1,2)
proof (induction rule: rtranclp_induct)
  case (step D1 D2)
  then obtain q b where q: "q \<in> set qs" "spec_sync zn q b D1 D2"
    by (auto simp: spec_step_def)
  show ?case
    using in_sync_other [OF step.IH [OF step.prems] q(2) assms(3,4)] q(1) assms(5,6) by blast
qed

text \<open>What the rest of a cycle leaves: a database the specification reaches, with the goals of its records if it succeeds.\<close>

definition cycle_goal :: "('w \<Rightarrow> dns_db) \<Rightarrow> (string \<Rightarrow> string) \<Rightarrow> record_config list \<Rightarrow> discovered_addresses
    \<Rightarrow> record_config list \<Rightarrow> dns_db \<Rightarrow> cycle_report fut \<Rightarrow> 'w sys \<Rightarrow> bool" where
  "cycle_goal db zn rs addresses qs D x s' \<longleftrightarrow>
     (\<exists>D'. sees db zn rs D' s' \<and> spec_steps zn qs D D' \<and>
       (\<forall>report. x = Done report \<longrightarrow> cycle_success report \<longrightarrow>
          (\<forall>r \<in> set qs. \<forall>a. address_for_record addresses r = Inr a \<longrightarrow> in_sync zn r a D')))"

lemma cycle_goal_last:
  assumes "sees db zn rs D' s'" and "spec_steps zn [r] D D'" and "\<And>report. x = Done report \<Longrightarrow> \<not> cycle_success report"
  shows "cycle_goal db zn rs addresses (r # qs) D x s'"
  using assms spec_steps_mono [OF assms(2), of "r # qs"] by (auto simp: cycle_goal_def)

lemma cycle_goal_Cons:
  assumes "spec_steps zn [r] D D1" and "cycle_goal db zn rs addresses qs D1 x s'"
    and "separate rs" and "r \<in> set rs" and "set qs \<subseteq> set rs" and "r \<notin> set qs"
    and "\<And>a report. x = Done report \<Longrightarrow> cycle_success report \<Longrightarrow> address_for_record addresses r = Inr a \<Longrightarrow> in_sync zn r a D1"
  shows "cycle_goal db zn rs addresses (r # qs) D x s'"
proof -
  obtain D' where D': "sees db zn rs D' s'" "spec_steps zn qs D1 D'"
    "\<And>report r a. x = Done report \<Longrightarrow> cycle_success report \<Longrightarrow> r \<in> set qs \<Longrightarrow>
      address_for_record addresses r = Inr a \<Longrightarrow> in_sync zn r a D'"
    using assms(2) unfolding cycle_goal_def by blast
  have "spec_steps zn (r # qs) D D1" "spec_steps zn (r # qs) D1 D'"
    using spec_steps_mono [OF assms(1), of "r # qs"] spec_steps_mono [OF D'(2), of "r # qs"] by auto
  then have "spec_steps zn (r # qs) D D'"
    by (rule rtranclp_trans)
  moreover have "in_sync zn r a D'" if "x = Done report" "cycle_success report" "address_for_record addresses r = Inr a" for a report
    using in_sync_steps [OF D'(2) assms(7) [OF that] assms(3-6)] .
  ultimately show ?thesis
    using D'(1,3) unfolding cycle_goal_def by (intro exI [of _ D']) auto
qed

lemma cycle_records_refines:
  assumes "dns_service env zn db" and "ids_ok rs" and "separate rs"
    and public: "\<And>r a. address_for_record addresses r = Inr a \<Longrightarrow> may_publish r a"
  shows "cycle_records env client deadline addresses qs report s = (x, s') \<Longrightarrow> timers s = [] \<Longrightarrow>
    set qs \<subseteq> set rs \<Longrightarrow> distinct qs \<Longrightarrow> sees db zn rs D s \<Longrightarrow> distinct_ids D \<Longrightarrow>
    cycle_goal db zn rs addresses qs D x s'"
proof (induction qs arbitrary: report s D)
  case Nil
  then show ?case by (auto simp: ret_def cycle_goal_def)
next
  case (Cons r qs)
  have r: "r \<in> set rs" "set qs \<subseteq> set rs" "r \<notin> set qs" "distinct qs"
    using Cons.prems(3,4) by auto
  note one = sync_record_refines [OF assms(1,2) r(1) public Cons.prems(2,5,6)]
  have last: "cycle_goal db zn rs addresses (r # qs) D x s'"
    if "address_for_record addresses r = Inr a" "sync_record env client deadline r a s = (y, s')"
      "\<And>report. x = Done report \<Longrightarrow> \<not> cycle_success report" for a y
    using one [OF that(1,2)] cycle_goal_last that(3) by metis
  have more: "cycle_goal db zn rs addresses (r # qs) D x s'"
    if a: "address_for_record addresses r = Inr a" and y: "sync_record env client deadline r a s = (y, t)"
      and c: "cycle_records env client deadline addresses qs report' t = (x, s')"
      and ok: "(\<exists>o'. y = Done (Some (Inr o'))) \<or> (\<forall>report. x = Done report \<longrightarrow> \<not> cycle_success report)" for a y t report'
  proof -
    obtain D1 where D1: "sees db zn rs D1 t" "spec_steps zn [r] D D1" "\<And>o'. y = Done (Some (Inr o')) \<Longrightarrow> in_sync zn r a D1"
      using one [OF a y] by metis
    have t: "timers t = []"
      using sync_record_trace(1) [OF Cons.prems(2) y a, of "[r]"] by simp
    show ?thesis
      using cycle_goal_Cons [OF D1(2) Cons.IH [OF c t r(2,4) D1(1) spec_steps_distinct_ids [OF D1(2) Cons.prems(6)]] assms(3) r(1-3)]
        D1(3) ok a by fastforce
  qed
  from Cons.prems(1) show ?case
  proof (cases rule: cycle_records_Cons)
    case stopped
    then show ?thesis using Cons.prems(5) by (auto simp: cycle_goal_def cycle_success_def)
  next
    case (skipped m)
    then show ?thesis
      using cycle_goal_Cons [OF _ Cons.IH [OF skipped(3) Cons.prems(2) r(2,4) Cons.prems(5,6)] assms(3) r(1-3), of D]
      by simp
  next
    case (late a)
    then show ?thesis using last [OF late(2,3)] by (auto simp: cycle_success_def)
  next
    case (handled a out t)
    then show ?thesis using more [OF handled(2-4)] by blast
  next
    case (abort a stage e)
    then show ?thesis using last [OF abort(2,3)] by (auto simp: cycle_success_def)
  next
    case (failed a stage e t)
    have "\<not> cycle_success report'" if "x = Done report'" for report'
      using cycle_records_failures [OF failed(6) [unfolded that]] by (auto simp: cycle_success_def)
    then show ?thesis using more [OF failed(2,3,6)] by blast
  next
    case (cut a y)
    then show ?thesis using last [OF cut(2,3)] by blast
  qed
qed

text \<open>A cycle that succeeds had an address for every record.\<close>

lemma success_addresses:
  assumes "cycle_records env client deadline addresses qs (started_report up addresses) s = (x, s')"
    and "x = Done report" and "cycle_success report" and "addresses_ok up addresses" and "r \<in> set (records (up_config up))"
  shows "\<exists>a. address_for_record addresses r = Inr a"
proof -
  have "discovery_failures addresses = []"
    using cycle_records_failures [OF assms(1) [unfolded assms(2)]] assms(3) by (auto simp: cycle_success_def)
  then show ?thesis
    using address_for_record_missing [OF assms(4,5)] by (cases "address_for_record addresses r") auto
qed

text \<open>The goal of a cycle: every configured record is published with the discovered address of its family.\<close>

definition converged :: "(string \<Rightarrow> string) \<Rightarrow> record_config list \<Rightarrow> discovered_addresses \<Rightarrow> dns_db \<Rightarrow> bool" where
  "converged zn rs addresses D \<longleftrightarrow>
     (\<forall>r \<in> set rs. \<exists>a. address_for_record addresses r = Inr a \<and> may_publish r a \<and> in_sync zn r a D)"

lemma run_cycle_until_refines:
  assumes "dns_service env zn db" and "valid_config parse (up_config up)"
    and "timers s = []" and "zones_true zn (records (up_config up)) (zone_cache s)"
    and "run_cycle_until env up deadline s = (x, s')"
  shows "spec_steps zn (records (up_config up)) (db (world s)) (db (world s'))"
    and "zones_true zn (records (up_config up)) (zone_cache s')"
    and "x = Done report \<Longrightarrow> cycle_success report \<Longrightarrow>
      \<exists>addresses t. timeout_at deadline (discover_required_addresses env up) s = (Done (Some addresses), t) \<and>
        converged zn (records (up_config up)) addresses (db (world s'))"
proof -
  let ?rs = "records (up_config up)" and ?D = "db (world s)"
  have ow: "only_writer env db" and ids: "distinct_ids ?D" using assms(1) by (simp_all add: dns_service_def)
  have s: "sees db zn ?rs ?D s" using assms(4) by (simp add: sees_def)
  note disc = yieldsD [OF yields_timeout [OF yields_discover_required [OF ow]] _ s]
  have "sees db zn ?rs (db (world s')) s' \<and> spec_steps zn ?rs ?D (db (world s')) \<and>
    (x = Done report \<longrightarrow> cycle_success report \<longrightarrow>
      (\<exists>addresses t. timeout_at deadline (discover_required_addresses env up) s = (Done (Some addresses), t) \<and>
        converged zn ?rs addresses (db (world s'))))" for report
    using assms(5)
  proof (cases rule: run_cycle_until_cases)
    case late
    then show ?thesis using disc [OF late(1)] by (auto simp: sees_def cycle_success_def push_failure_def)
  next
    case (cut y)
    then show ?thesis using disc [OF cut(1)] by (auto simp: sees_def)
  next
    case (run addresses t n)
    let ?qs = "rotated_from (start_index n t) ?rs"
    have public: "address_for_record addresses r = Inr a \<Longrightarrow> may_publish r a" for r a
      using address_for_record_public [OF run(2)] by (auto simp: may_publish_def)
    have "distinct ?qs"
      using assms(2) by (auto simp: valid_config_def distinct_map rotated_from_eq_rotate)
    moreover have "timers (move_cursor n t) = []" "sees db zn ?rs ?D (move_cursor n t)"
      using discovery_timeout_frames(1) [OF run(1)] assms(3) disc [OF run(1)] by simp_all
    ultimately have goal: "cycle_goal db zn ?rs addresses ?qs ?D x s'"
      using cycle_records_refines [OF assms(1) valid_config_ids [OF assms(2)] valid_config_separate [OF assms(2)] public run(4)] ids
      by simp
    have mono: "spec_steps zn ?qs ?D D' \<Longrightarrow> spec_steps zn ?rs ?D D'" for D'
      by (erule spec_steps_mono) simp
    show ?thesis
      using goal mono success_addresses [OF run(4) _ _ run(2)] public run(1) unfolding cycle_goal_def sees_def converged_def by fastforce
  qed
  then show "spec_steps zn ?rs ?D (db (world s'))" "zones_true zn ?rs (zone_cache s')"
    "x = Done report \<Longrightarrow> cycle_success report \<Longrightarrow>
      \<exists>addresses t. timeout_at deadline (discover_required_addresses env up) s = (Done (Some addresses), t) \<and>
        converged zn ?rs addresses (db (world s'))"
    by (auto simp: sees_def)
qed

section \<open>Cycles that have nothing to do\<close>

text \<open>Every configured record has one zone.\<close>

definition one_zone :: "(string \<Rightarrow> string) \<Rightarrow> record_config list \<Rightarrow> bool" where
  "one_zone zn rs \<longleftrightarrow> (\<forall>r \<in> set rs. \<forall>zk zk'. zone_of zn r zk \<longrightarrow> zone_of zn r zk' \<longrightarrow> zk = zk')"

lemma plan_true_in_sync:
  assumes "plan_true zn r a D plan" and "in_sync zn r a D" and "one_zone zn rs" and "r \<in> set rs"
  shows "plan = PlanUnchanged"
proof -
  obtain zk x where zk: "zone_of zn r zk" "matching r D zk = [x]" "parse_ip (dr_content x) = Some a"
    "dr_ttl x = ttl r" "dr_proxied x = proxied r"
    using assms(2) by (auto simp: in_sync_def)
  have one: "k = zk" if "zone_of zn r k" for k
    using assms(3,4) zk(1) that unfolding one_zone_def by blast
  show ?thesis
  proof (cases plan)
    case (PlanUpdate zid rid p)
    then have "lower zid = zk" using assms(1) one by simp
    then show ?thesis using assms(1) zk PlanUpdate by simp
  next
    case (PlanCreate zid p)
    then have "lower zid = zk" using assms(1) one by simp
    then show ?thesis using assms(1) zk PlanCreate by simp
  qed simp
qed

lemma sync_record_silent:
  assumes "dns_service env zn db" and "ids_ok rs" and "one_zone zn rs" and "r \<in> set rs"
    and "timers s = []" and "sees db zn rs D s" and "in_sync zn r a D"
    and "sync_record env client deadline r a s = (x, s')"
  shows "sees db zn rs D s' \<and> reads_only s s' \<and> timers s' = []"
  using assms(5,8)
proof (cases rule: sync_record_cases)
  case (planned y)
  then show ?thesis
    using yieldsD [OF yields_timeout [OF yields_plan_record [OF assms(1,2,4)]] planned(1) assms(6)]
      plan_timeout_frames(1,2) [OF planned(1)] assms(5) by simp
next
  case (executed plan t out)
  have t: "sees db zn rs D t" "plan_true zn r a D plan"
    using yieldsD [OF yields_timeout [OF yields_plan_record [OF assms(1,2,4)]] executed(1) assms(6)] by auto
  have "plan = PlanUnchanged"
    by (rule plan_true_in_sync [OF t(2) assms(7,3,4)])
  then have "s' = t"
    using executed(5) by (simp add: execute_record_plan_def ret_def)
  then show ?thesis
    using t(1) plan_timeout_frames(1,2) [OF executed(1)] assms(5) by simp
qed

lemma reads_only_trans: "reads_only s t \<Longrightarrow> reads_only t u \<Longrightarrow> reads_only s u"
  unfolding reads_only_def by (rule adds_trans)

lemma cycle_records_silent:
  assumes "dns_service env zn db" and "ids_ok rs" and "one_zone zn rs" and "converged zn rs addresses D"
  shows "cycle_records env client deadline addresses qs report s = (x, s') \<Longrightarrow> timers s = [] \<Longrightarrow>
    set qs \<subseteq> set rs \<Longrightarrow> sees db zn rs D s \<Longrightarrow> sees db zn rs D s' \<and> reads_only s s'"
proof (induction qs arbitrary: report s)
  case Nil
  then show ?case by (auto simp: ret_def reads_only_def intro: adds_same)
next
  case (Cons r qs)
  have r: "r \<in> set rs" "set qs \<subseteq> set rs" using Cons.prems(3) by auto
  have one: "sees db zn rs D t \<and> reads_only s t \<and> timers t = []"
    if "address_for_record addresses r = Inr a" "sync_record env client deadline r a s = (y, t)" for a y t
    using sync_record_silent [OF assms(1-3) r(1) Cons.prems(2,4) _ that(2)] assms(4) r(1) that(1)
    by (fastforce simp: converged_def)
  from Cons.prems(1) show ?case
  proof (cases rule: cycle_records_Cons)
    case stopped
    then show ?thesis using Cons.prems(4) by (auto simp: reads_only_def intro: adds_same)
  next
    case (skipped m)
    then show ?thesis using Cons.IH [OF skipped(3) Cons.prems(2) r(2) Cons.prems(4)] by blast
  next
    case (handled a out t)
    then show ?thesis
      using one [OF handled(2,3)] Cons.IH [OF handled(4) _ r(2)] reads_only_trans by blast
  next
    case (failed a stage e t)
    then show ?thesis
      using one [OF failed(2,3)] Cons.IH [OF failed(6) _ r(2)] reads_only_trans by blast
  qed (use one in blast)+
qed

section \<open>The daemon\<close>

definition cache_inv :: "(string \<Rightarrow> string) \<Rightarrow> updater \<Rightarrow> 'w sys \<Rightarrow> bool" where
  "cache_inv zn up s \<longleftrightarrow> at_rest s \<and> zones_true zn (records (up_config up)) (zone_cache s)"

lemma zone_cache_begin_cycle [simp]: "zone_cache (begin_cycle s) = zone_cache s"
  by (simp add: begin_cycle_def)

lemma locked_cycle_refines:
  assumes "dns_service env zn db" and "valid_config parse (up_config up)" and "cache_inv zn up s"
    and "run_cycle_locked env up (begin_cycle s) = (x, s')"
  shows "cache_inv zn up s'" and "spec_steps zn (records (up_config up)) (db (world s)) (db (world s'))"
    and "x = Done report \<Longrightarrow> cycle_success report \<Longrightarrow> \<exists>addresses. converged zn (records (up_config up)) addresses (db (world s'))"
proof -
  have u: "run_cycle_until env up (now env (begin_cycle s) + interval (up_config up)) (begin_cycle s) = (x, s')"
    using assms(4) by (simp add: run_cycle_locked_def get_sys_apply)
  have c: "timers (begin_cycle s) = []" "zones_true zn (records (up_config up)) (zone_cache (begin_cycle s))"
    using assms(3) by (simp_all add: cache_inv_def at_rest_def)
  note r = run_cycle_until_refines [OF assms(1,2) c u]
  show "cache_inv zn up s'" "spec_steps zn (records (up_config up)) (db (world s)) (db (world s'))"
    using r(1,2) cycle_at_rest(1) [OF _ assms(4)] assms(3) by (simp_all add: cache_inv_def)
  show "x = Done report \<Longrightarrow> cycle_success report \<Longrightarrow> \<exists>addresses. converged zn (records (up_config up)) addresses (db (world s'))"
    using r(3) by blast
qed

lemma after_cycle_success:
  assumes "ds_failures (after_cycle h w period report st) = 0"
  shows "cycle_success report"
proof (rule ccontr)
  assume "\<not> cycle_success report"
  then have "saturating_inc_u32 (ds_failures st) = 0"
    using assms by (simp add: after_cycle_def Let_def split: prod.splits)
  then show False
    by (simp add: saturating_inc_u32_def flip: eq_neg_iff_add_eq_0 split: if_splits)
qed

lemma daemon_step_inv:
  assumes "dns_service (ho_env h) zn db" and "valid_config parse (up_config up)"
    and "cache_inv zn up t" and "daemon_step h up (p, t) (p', t')"
  shows "cache_inv zn up t'"
  using assms(4)
proof (cases rule: daemon_step.cases)
  case (preempted res w st)
  then show ?thesis using assms(3) by (auto simp: cache_inv_def at_rest_def)
qed (use assms(3) locked_cycle_refines(1) [OF assms(1-3)] in \<open>auto simp: cache_inv_def at_rest_def\<close>)

lemma daemon_reach_inv:
  assumes "dns_service (ho_env h) zn db" and "valid_config parse (up_config up)"
    and "cache_inv zn up s" and "daemon_reach h up (q, s) (p, t)"
  shows "cache_inv zn up t"
  using assms(4,3) unfolding daemon_reach_def
  by (induction "(p, t)" arbitrary: p t rule: rtranclp_induct)
     (auto intro: daemon_step_inv [OF assms(1,2)])

section \<open>The once command\<close>

lemma run_cycle_refines:
  assumes "dns_service env zn db" and "valid_config parse (up_config up)"
    and "run_cycle env lock up (idle_sys w) = (x, s')"
  shows "spec_steps zn (records (up_config up)) (db w) (db (world s'))"
    and "x = Done report \<Longrightarrow> cycle_success report \<Longrightarrow>
      \<exists>addresses. converged zn (records (up_config up)) addresses (db (world s'))"
proof -
  let ?s = "idle_sys w\<lparr>control := \<lparr>stop_requested = False, mutation_in_flight = False\<rparr>\<rparr>"
  have s: "timers ?s = []" "zones_true zn (records (up_config up)) (zone_cache ?s)" by (simp_all add: zones_true_def)
  consider e where "lock = Inl e"
      "x = Done (push_failure (coordination_failure e) (empty_report (length (records (up_config up)))))" "s' = idle_sys w"
    | "run_cycle_until env up (now env ?s + interval (up_config up)) ?s = (x, s')"
    using assms(3)
    by (cases lock) (auto simp: run_cycle_def run_cycle_locked_def fresh_control_def modify_sys_apply get_sys_apply ret_def)
  then show "spec_steps zn (records (up_config up)) (db w) (db (world s'))"
    "x = Done report \<Longrightarrow> cycle_success report \<Longrightarrow>
      \<exists>addresses. converged zn (records (up_config up)) addresses (db (world s'))"
    using run_cycle_until_refines(1,3) [OF assms(1,2) s]
    by (cases; force simp: cycle_success_def push_failure_def)+
qed

section \<open>Properties\<close>

text \<open>
  C3: synchronisation implements its specification. Whatever happens during a cycle (errors, lost
  replies, the deadline, the shutdown signal), the database it leaves is reached by steps that
  give a configured record of its zone its desired state with a public address, or add one that
  is missing and may be created; and every zone identifier in the cache still belongs to the
  zone it stands for.
\<close>

theorem cycle_refines_spec:
  assumes "dns_service env zn db" and "validate parse (up_config up) = Inr ()"
    and "timers s = []" and "zones_true zn (records (up_config up)) (zone_cache s)"
    and "run_cycle_until env up deadline s = (x, s')"
  shows "spec_steps zn (records (up_config up)) (db (world s)) (db (world s')) \<and>
    zones_true zn (records (up_config up)) (zone_cache s')"
  using run_cycle_until_refines(1,2) [OF assms(1) _ assms(3-5)] assms(2) by (simp add: validate_iff_valid)

text \<open>
  C17: the zone cache is well formed: if every zone identifier in the cache belongs to the zone of
  the record it is kept for, then the same holds after each operation of the client, whatever it
  is about and however it ends, evictions included; and the identifier a resolution returns
  belongs to the record's zone, and is the configured one if there is one.
\<close>

theorem client_keeps_zone_cache:
  assumes "dns_service env zn db" and "validate parse c = Inr ()" and "r \<in> set (records c)"
    and "zones_true zn (records c) (zone_cache s)"
  shows "(resolve_zone_id env client (zone r) (zone_id r) s = (x, s1) \<longrightarrow> zones_true zn (records c) (zone_cache s1) \<and>
      (\<forall>zid. x = Done (Inr zid) \<longrightarrow> zn (lower zid) = lower (zone r) \<and> (\<forall>i. zone_id r = Some i \<longrightarrow> lower zid = lower i))) \<and>
    (find_record env client zid rtype rname s = (y, s2) \<longrightarrow> zones_true zn (records c) (zone_cache s2)) \<and>
    (send_record env client q op zid s = (z, s3) \<longrightarrow> zones_true zn (records c) (zone_cache s3))"
proof -
  have ids: "ids_ok (records c)" using assms(2) by (auto simp: validate_iff_valid intro: valid_config_ids)
  have c: "only_writer env db" "lists_records env db" "names_zones env zn"
    using assms(1) by (simp_all add: dns_service_def)
  have s: "sees db zn (records c) (db (world s)) s" using assms(4) by (simp add: sees_def)
  show ?thesis
  proof (intro conjI impI)
    assume "resolve_zone_id env client (zone r) (zone_id r) s = (x, s1)"
    from yieldsD [OF yields_resolve_zone_id [OF c(1,3) ids assms(3)] this s]
    show "zones_true zn (records c) (zone_cache s1)"
      "\<forall>zid. x = Done (Inr zid) \<longrightarrow> zn (lower zid) = lower (zone r) \<and> (\<forall>i. zone_id r = Some i \<longrightarrow> lower zid = lower i)"
      by (auto simp: sees_def zone_of_def)
  next
    assume "find_record env client zid rtype rname s = (y, s2)"
    from yieldsD [OF yields_lookup [OF c(1,2)] this s] show "zones_true zn (records c) (zone_cache s2)"
      by (simp add: sees_def)
  next
    assume "send_record env client q op zid s = (z, s3)"
    then obtain w t where "await env q s = (w, t)" "s3 = t \<or> s3 = t\<lparr>zone_cache := evict_zone zid (zone_cache t)\<rparr>"
      by (rule send_record_steps)
    then show "zones_true zn (records c) (zone_cache s3)"
      using await_frame(2) [of env q s w t] assms(4) by (auto intro: evict_zones_true)
  qed
qed

text \<open>
  C1: synchronisation converges. When a cycle reports success, every configured record is the only
  one of its name and type in its zone, and has the address that this cycle discovered for its
  family, the configured TTL and the configured proxy flag: no later record of the cycle has
  undone an earlier one.
\<close>

theorem cycle_converges:
  assumes "dns_service env zn db" and "validate parse (up_config up) = Inr ()"
    and "timers s = []" and "zones_true zn (records (up_config up)) (zone_cache s)"
    and "run_cycle_until env up deadline s = (Done report, s')" and "cycle_success report"
  shows "\<exists>addresses t. timeout_at deadline (discover_required_addresses env up) s = (Done (Some addresses), t) \<and>
    (\<forall>r \<in> set (records (up_config up)). \<exists>a zk x. address_for_record addresses r = Inr a \<and>
       is_public_address a \<and> family_matches (record_family (record_type r)) a \<and> zone_of zn r zk \<and>
       filter (has_key (record_type_str (record_type r)) (name r)) (db (world s') zk) = [x] \<and>
       parse_ip (dr_content x) = Some a \<and> dr_ttl x = ttl r \<and> dr_proxied x = proxied r)"
proof -
  have v: "valid_config parse (up_config up)" using assms(2) by (simp add: validate_iff_valid)
  show ?thesis
    using run_cycle_until_refines(3) [OF assms(1) v assms(3-5) refl assms(6)]
    unfolding converged_def may_publish_def in_sync_def matching_def by blast
qed

text \<open>
  C12: records the configuration does not name are left alone. If nobody else changes DNS while the
  cycle runs, then after it every zone has the
  same records as before, in the same order, apart from those that a configured record of that
  zone stands for; and a name and type that had at most one record still has at most one. The condition is
  part of the contract of the service (\<open>only_writer\<close>): the API has no conditional write, so a record that
  somebody else creates at the same moment can race the cycle's own creation, as \<open>README.md\<close> warns.
\<close>

theorem cycle_spares_unmanaged:
  assumes "dns_service env zn db" and "validate parse (up_config up) = Inr ()"
    and "timers s = []" and "zones_true zn (records (up_config up)) (zone_cache s)"
    and "run_cycle_until env up deadline s = (x, s')"
  shows "filter (\<lambda>d. \<forall>r \<in> set (records (up_config up)). zone_of zn r zk \<longrightarrow>
        \<not> has_key (record_type_str (record_type r)) (name r) d) (db (world s') zk) =
      filter (\<lambda>d. \<forall>r \<in> set (records (up_config up)). zone_of zn r zk \<longrightarrow>
        \<not> has_key (record_type_str (record_type r)) (name r) d) (db (world s) zk) \<and>
    length (filter (has_key (record_type_str (record_type (q :: record_config))) (name q)) (db (world s') zk)) \<le>
      max 1 (length (filter (has_key (record_type_str (record_type q)) (name q)) (db (world s) zk)))"
proof -
  have v: "valid_config parse (up_config up)" using assms(2) by (simp add: validate_iff_valid)
  note steps = run_cycle_until_refines(1) [OF assms(1) v assms(3-5)]
  show ?thesis
    using spec_steps_unmanaged [OF steps, of zk] spec_steps_matching [OF steps, of q zk]
    unfolding unmanaged_def [abs_def] matching_def by blast
qed

text \<open>
  C16: a cycle that finds everything in order changes nothing: if the database already has what the
  cycle discovers, and each configured record has one zone, then no request that can change DNS
  is sent, however the cycle ends.
\<close>

theorem settled_cycle_is_silent:
  assumes "dns_service env zn db" and "validate parse (up_config up) = Inr ()"
    and "timers s = []" and "zones_true zn (records (up_config up)) (zone_cache s)"
    and "one_zone zn (records (up_config up))"
    and "timeout_at deadline (discover_required_addresses env up) s = (Done (Some addresses), t)"
    and "converged zn (records (up_config up)) addresses (db (world s))"
    and "run_cycle_until env up deadline s = (x, s')"
  shows "mutation_count s' = mutation_count s \<and> db (world s') = db (world s)"
proof -
  let ?rs = "records (up_config up)" and ?D = "db (world s)"
  have v: "valid_config parse (up_config up)" using assms(2) by (simp add: validate_iff_valid)
  have ow: "only_writer env db" using assms(1) by (simp add: dns_service_def)
  have s: "sees db zn ?rs ?D s" using assms(4) by (simp add: sees_def)
  have t: "sees db zn ?rs ?D t" "reads_only s t" "timers t = []"
    using yieldsD [OF yields_timeout [OF yields_discover_required [OF ow]] assms(6) s]
      discovery_timeout_frames(1,2) [OF assms(6)] assms(3) by simp_all
  from assms(8) have "sees db zn ?rs ?D s' \<and> reads_only t s'"
  proof (cases rule: run_cycle_until_cases)
    case (run addresses' t' n)
    then have same: "addresses' = addresses" "t' = t" using assms(6) by simp_all
    have "sees db zn ?rs ?D s' \<and> reads_only (move_cursor n t) s'"
      using cycle_records_silent [OF assms(1) valid_config_ids [OF v] assms(5,7) run(4) [unfolded same]] t by simp
    then show ?thesis by (simp add: reads_only_def adds_def)
  qed (use assms(6) in simp_all)
  then show ?thesis
    using reads_only_count [OF reads_only_trans [OF t(2)]] by (auto simp: sees_def)
qed

text \<open>
  C4: the daemon implements the specification for as long as it runs, also when others change DNS
  while it sleeps. In every state it can reach, the zone identifiers in its cache belong to their
  zones; a waiting step sends no request; a cycle, however it ends, changes DNS by steps of the
  specification; and whenever the daemon goes back to waiting without a failure to its count,
  every configured record is published with a discovered public address.
\<close>

theorem daemon_refines_spec:
  assumes "dns_service (ho_env h) zn db" and "validate parse (up_config up) = Inr ()"
    and "timers s = []" and "\<not> mutation_in_flight (control s)" and "zone_cache s = Map.empty"
    and "daemon_reach h up (Waiting (first_state jitter), s) (p, t)" and "daemon_step h up (p, t) (p', t')"
  shows "zones_true zn (records (up_config up)) (zone_cache t') \<and>
    (\<forall>st. p = Waiting st \<longrightarrow> trace t' = trace t) \<and>
    (\<forall>st. p = Cycling st \<longrightarrow> ho_ready h (world t) = None \<longrightarrow>
       spec_steps zn (records (up_config up)) (db (world t)) (db (world t'))) \<and>
    (\<forall>st'. p' = Waiting st' \<longrightarrow> ds_failures st' = 0 \<longrightarrow>
       (\<exists>addresses. converged zn (records (up_config up)) addresses (db (world t'))))"
proof -
  have v: "valid_config parse (up_config up)" using assms(2) by (simp add: validate_iff_valid)
  have start: "cache_inv zn up s" using assms(3-5) by (simp add: cache_inv_def at_rest_def zones_true_def)
  note inv = daemon_reach_inv [OF assms(1) v start assms(6)]
  note cycle = locked_cycle_refines [OF assms(1) v inv]
  have "cache_inv zn up t'" using daemon_step_inv [OF assms(1) v inv assms(7)] .
  moreover have "\<forall>st. p = Waiting st \<longrightarrow> trace t' = trace t"
    using assms(7) by (auto elim: waiting_step)
  moreover have "\<forall>st. p = Cycling st \<longrightarrow> ho_ready h (world t) = None \<longrightarrow>
      spec_steps zn (records (up_config up)) (db (world t)) (db (world t'))"
    using assms(7) cycle(2) by (auto elim!: cycling_step)
  moreover have "\<exists>addresses. converged zn (records (up_config up)) addresses (db (world t'))"
    if p': "p' = Waiting st'" "ds_failures st' = 0" for st'
  proof -
    obtain st report where "run_cycle_locked (ho_env h) up (begin_cycle t) = (Done report, t')"
      "st' = after_cycle h (world t') (interval (up_config up)) report st"
      using assms(7) p'(1) by (auto elim: daemon_step.cases)
    then show ?thesis
      using cycle(3) [OF _ refl, of report] after_cycle_success p'(2) by metis
  qed
  ultimately show ?thesis by (auto simp: cache_inv_def)
qed

text \<open>
  C6: the \<open>once\<close> command, from the command line to the database. If no updater can be built, the
  world stays as it is and the exit code is not 0. Otherwise, whoever holds the lock and whatever
  fails, DNS changes only by steps of the specification; and with exit code 0 every configured
  record is published with a discovered public address.
\<close>

theorem once_refines_spec:
  assumes "dns_service (ma_env m) zn db"
    and "cli_command args = CmdOnce" and "main fuel m args w l = (code, pr)"
  shows "case fst (build_updater m (cli_config args)) of
      Inl e \<Rightarrow> code \<noteq> Some 0 \<and> world (pr_sys pr) = w
    | Inr up \<Rightarrow> spec_steps zn (records (up_config up)) (db w) (db (world (pr_sys pr))) \<and>
        (code = Some 0 \<longrightarrow> (\<exists>addresses. converged zn (records (up_config up)) addresses (db (world (pr_sys pr)))))"
  using assms(3)
proof (cases rule: main_cases)
  case inert
  then show ?thesis using assms(2) by (auto split: sum.split)
next
  case (command up ls r pr')
  obtain lock k where a: "acquire (ma_locker m) (ma_lock_os m) (up_runtime_lock up) l = (lock, k)"
    by (cases "acquire (ma_locker m) (ma_lock_os m) (up_runtime_lock up) l")
  obtain x s' where x: "run_cycle (ma_env m) lock up (idle_sys w) = (x, s')"
    by (cases "run_cycle (ma_env m) lock up (idle_sys w)")
  have s': "pr_sys pr = s'" and code: "code = Some 0 \<Longrightarrow> \<exists>report. x = Done report \<and> cycle_success report"
    using command(2,4,5) assms(2) a x
    by (auto simp: execute_once_def with_runtime_lock_def FAILURE_EXIT_CODE_def split: fut.splits if_splits)
  have "spec_steps zn (records (up_config up)) (db w) (db (world s')) \<and>
    (code = Some 0 \<longrightarrow> (\<exists>addresses. converged zn (records (up_config up)) addresses (db (world s'))))"
    using run_cycle_refines [OF assms(1) _ x] build_updater_Inr(6) [OF command(1)] command(1) code
    by (auto simp: validate_iff_valid)
  then show ?thesis using command(1) s' by simp
qed

section \<open>A shelf with one record\<close>

text \<open>
  A concrete service for the examples: one zone with one record, whose world is whether the
  record has been updated. It answers the requests of a synchronisation of the sample record and
  refuses every other one; the clock stands still.
\<close>

definition shelf_old :: dns_record where
  "shelf_old = sample_dns_record\<lparr>dr_content := ''8.8.8.8''\<rparr>"

definition shelf_new :: dns_record where
  "shelf_new = desired sample_record home_address ''r1''"

definition shelf_db :: "bool \<Rightarrow> dns_db" where
  "shelf_db w zk = (if zk = ''z1'' then [if w then shelf_new else shelf_old] else [])"

definition shelf_zone :: "string \<Rightarrow> string" where
  "shelf_zone zk = (if zk = ''z1'' then ''example.com'' else [])"

definition shelf_respond :: "cloudflare_client \<Rightarrow> http_request \<Rightarrow> bool \<Rightarrow> (http_response, string) result \<times> bool" where
  "shelf_respond client r w =
     (case rq_url r of
        ProviderUrl _ \<Rightarrow> (Inr (ok_response (show_ip home_address)), w)
      | ApiUrl _ _ \<Rightarrow>
          if r = zone_page_request client ''example.com'' 1 then (Inr (ok_response ''zones''), w)
          else if r = record_page_request client ''z1'' ''A'' ''home.example.com'' 1
          then (Inr (ok_response (if w then ''new'' else ''old'')), w)
          else if r = update_request client ''z1'' ''r1'' (payload_for sample_record home_address)
          then (Inr (ok_response ''new''), True)
          else (Inl ''connection refused'', w))"

definition shelf_service :: "cloudflare_client \<Rightarrow> bool env" where
  "shelf_service client = \<lparr>ev_respond = shelf_respond client, ev_expires = (\<lambda>_ _ _. None),
     ev_signalled = (\<lambda>_ _. None), ev_clock = (\<lambda>_. 0), ev_join = (\<lambda>v w. w), ev_parse_url = sample_url_parser,
     ev_json_token = (\<lambda>_. Inl []), ev_json_zone = (\<lambda>_. Inl []),
     ev_json_zones = (\<lambda>_. Inr (ok_envelope [\<lparr>zi_id = ''z1'', zi_name = ''example.com'', zi_status = ''active''\<rparr>])),
     ev_json_record = (\<lambda>_. Inr (ok_envelope shelf_new)),
     ev_json_records = (\<lambda>body. Inr (ok_envelope [if body = ''new'' then shelf_new else shelf_old]))\<rparr>"

lemma endpoint_inject [simp]: "endpoint client xs = endpoint client ys \<longleftrightarrow> xs = ys"
  by (simp add: endpoint_def Let_def)

lemma api_request_url [simp]:
  "\<exists>o' ps. endpoint client segs = ApiUrl o' ps"
  by (simp add: endpoint_def Let_def)

lemma case_endpoint [simp]: "(case endpoint client segs of ProviderUrl u \<Rightarrow> f u | ApiUrl a b \<Rightarrow> g) = g"
  by (simp add: endpoint_def Let_def)

lemma shelf_zone_page:
  "shelf_respond client (zone_page_request client ''example.com'' 1) w = (Inr (ok_response ''zones''), w)"
  by (simp add: shelf_respond_def zone_page_request_def get_request_def)

lemma shelf_record_page:
  "shelf_respond client (record_page_request client ''z1'' ''A'' ''home.example.com'' 1) w =
     (Inr (ok_response (if w then ''new'' else ''old'')), w)"
  by (simp add: shelf_respond_def get_request_def zone_page_request_def record_page_request_def)

lemma shelf_update:
  "shelf_respond client (update_request client ''z1'' ''r1'' (payload_for sample_record home_address)) w =
     (Inr (ok_response ''new''), True)"
  by (simp add: shelf_respond_def get_request_def json_request_def zone_page_request_def
      record_page_request_def update_request_def)

lemma shelf_get: "snd (shelf_respond client (get_request u q) w) = w"
  by (auto simp: shelf_respond_def get_request_def update_request_def json_request_def split: http_url.split)

lemma handle_ok_body:
  "length body \<le> CF_MAX_RESPONSE_BYTES \<Longrightarrow> decode body = Inr (ok_envelope r) \<Longrightarrow>
     handle_response client decode op (Inr (ok_response body)) =
       Inr \<lparr>ar_result = r, ar_result_info = Some \<lparr>ri_total_pages = Some 1\<rparr>\<rparr>"
  by (simp add: handle_response_cases ok_response_def limited_body_def classify_response_Inr ok_envelope_def)

lemma lower_samples [simp]: "lower ''z1'' = ''z1''" "lower ''example.com'' = ''example.com''"
  by (simp_all add: to_ascii_lowercase_def to_lower_def)

lemma shelf_matches [simp]:
  "record_matches ''A'' ''home.example.com'' shelf_old" "record_matches ''A'' ''home.example.com'' shelf_new"
  "has_key ''A'' ''home.example.com'' shelf_old" "has_key ''A'' ''home.example.com'' shelf_new"
  by (simp_all add: shelf_old_def shelf_new_def desired_def sample_record_def
      sample_dns_record_def record_matches_def has_key_def)

lemma shelf_ids [simp]: "dr_id shelf_old = ''r1''" "dr_id shelf_new = ''r1''"
  by (simp_all add: shelf_old_def shelf_new_def sample_dns_record_def)

lemma shelf_body [simp]: "length (''zones'') \<le> CF_MAX_RESPONSE_BYTES" "length (''old'') \<le> CF_MAX_RESPONSE_BYTES"
  by (simp_all add: CF_MAX_RESPONSE_BYTES_def)

lemma accepted_ok: "accepted decode (Inr (ok_response body)) x info \<longleftrightarrow>
    (\<exists>e. decode body = Inr e \<and> ae_success e \<and> ae_result e = Some x \<and> ae_result_info e = info)"
  by (auto simp: accepted_def ok_response_def)

lemma accepted_refused: "\<not> accepted decode (Inl e) x info"
  by (simp add: accepted_def)

text \<open>What the shelf answers to the requests its contract is about.\<close>

lemma shelf_lists:
  "lists_records (shelf_service client) shelf_db"
  unfolding lists_records_def
  by (auto simp: shelf_service_def shelf_respond_def get_request_def json_request_def zone_page_request_def
      record_page_request_def update_request_def endpoint_path show_nat_inject accepted_ok accepted_refused
      ok_envelope_def shelf_db_def Let_def split: if_splits)

lemma shelf_names: "names_zones (shelf_service client) shelf_zone"
  unfolding names_zones_def
  by (auto simp: shelf_service_def shelf_respond_def get_request_def json_request_def zone_page_request_def
      record_page_request_def update_request_def endpoint_path accepted_ok accepted_refused
      ok_envelope_def shelf_zone_def split: if_splits)

lemma shelf_applies: "applies_writes (shelf_service client) shelf_db"
  unfolding applies_writes_def
  by (auto simp: shelf_service_def shelf_respond_def get_request_def json_request_def zone_page_request_def
      record_page_request_def update_request_def endpoint_path accepted_refused replace_record_def shelf_db_def
      fun_eq_iff shelf_new_def desired_stored split: if_splits)

lemma shelf_contract: "dns_service (shelf_service client) shelf_zone shelf_db"
  unfolding dns_service_def
proof (intro conjI allI)
  show "distinct_ids (shelf_db w)" for w by (simp add: distinct_ids_def shelf_db_def)
  show "only_writer (shelf_service client) shelf_db"
    by (simp add: only_writer_def shelf_service_def shelf_get)
qed (rule shelf_lists shelf_names shelf_applies)+

lemma shelf_await:
  "await (shelf_service client) r s = (Done (fst (shelf_respond client r (world s))),
     log_request (shelf_service client) r Replied (snd (shelf_respond client r (world s))) s)"
  by (simp add: await_def complete_request_def shelf_service_def split: prod.split)

lemma shelf_now [simp]: "now (shelf_service client) s = 0"
  by (simp add: now_def shelf_service_def)

lemma shelf_send:
  assumes "shelf_respond client r (world s) = (Inr (ok_response body), w')"
    and "length body \<le> CF_MAX_RESPONSE_BYTES" and "decode body = Inr (ok_envelope x)"
  shows "send (shelf_service client) client decode r op s =
    (Done (Inr \<lparr>ar_result = x, ar_result_info = Some \<lparr>ri_total_pages = Some 1\<rparr>\<rparr>),
     log_request (shelf_service client) r Replied w' s)"
  using handle_ok_body [of body decode x client op, OF assms(2,3)] assms(1)
  by (simp add: send_def bind_io_def shelf_await ret_def)

lemma shelf_resolves:
  assumes "zone_cache s = Map.empty"
  shows "\<exists>t. resolve_zone_id (shelf_service client) client ''example.com'' None s = (Done (Inr ''z1''), t) \<and> world t = world s"
proof -
  let ?e = "shelf_service client" and ?z = "\<lparr>zi_id = ''z1'', zi_name = ''example.com'', zi_status = ''active''\<rparr>"
  have pages: "MAX_PAGES = Suc 99" by (simp add: MAX_PAGES_def)
  have send: "send ?e client (ev_json_zones ?e) (zone_page_request client ''example.com'' 1) ''looking up a zone'' s =
      (Done (Inr \<lparr>ar_result = [?z], ar_result_info = Some \<lparr>ri_total_pages = Some 1\<rparr>\<rparr>),
       log_request ?e (zone_page_request client ''example.com'' 1) Replied (world s) s)"
    by (rule shelf_send [where body = "''zones''"])
       (simp_all add: shelf_zone_page [unfolded One_nat_def] CF_MAX_RESPONSE_BYTES_def, simp add: shelf_service_def)
  have page: "MAX_PAGES - 99 = 1" by (simp add: MAX_PAGES_def)
  have "zone_pages ?e client ''example.com'' None None MAX_PAGES s = (Done (Inr ''z1''),
      (log_request ?e (zone_page_request client ''example.com'' 1) Replied (world s) s)
        \<lparr>zone_cache := [named_key ''example.com'' \<mapsto> ''z1'']\<rparr>)"
    using assms send unfolding pages zone_pages.simps(2) page bind_ok_def
    by (simp add: bind_io_def has_next_page_def cache_zone_def modify_sys_def ret_def)
  then show ?thesis
    using assms by (simp add: resolve_zone_id_def resolve_named_zone_id_def async_simps)
qed

lemma shelf_finds:
  "\<exists>t. find_record (shelf_service client) client ''z1'' ''A'' ''home.example.com'' s =
     (Done (Inr (Some (if world s then shelf_new else shelf_old))), t) \<and> world t = world s"
proof -
  let ?e = "shelf_service client" and ?r = "if world s then shelf_new else shelf_old"
  let ?q = "record_page_request client ''z1'' ''A'' ''home.example.com'' 1"
  have pages: "MAX_PAGES = Suc 99" by (simp add: MAX_PAGES_def)
  have send: "send ?e client (ev_json_records ?e) ?q ''looking up a DNS record'' s =
      (Done (Inr \<lparr>ar_result = [?r], ar_result_info = Some \<lparr>ri_total_pages = Some 1\<rparr>\<rparr>),
       log_request ?e ?q Replied (world s) s)"
    by (rule shelf_send [where body = "if world s then ''new'' else ''old''"])
       (simp_all add: shelf_record_page [unfolded One_nat_def], simp_all add: shelf_service_def CF_MAX_RESPONSE_BYTES_def)
  have page: "MAX_PAGES - 99 = 1" by (simp add: MAX_PAGES_def)
  have "find_record ?e client ''z1'' ''A'' ''home.example.com'' s = (Done (Inr (Some ?r)), log_request ?e ?q Replied (world s) s)"
    using send unfolding find_record_def pages record_pages.simps(2) page bind_ok_def send_in_zone_def
    by (simp add: bind_io_def has_next_page_def ret_def)
  then show ?thesis by simp
qed

lemma shelf_plans:
  assumes "zone_cache s = Map.empty" and "world s = False"
  shows "\<exists>t. plan_record (shelf_service client) client sample_record home_address s =
    (Done (Inr (PlanUpdate ''z1'' ''r1'' (payload_for sample_record home_address))), t) \<and> world t = False"
proof -
  obtain t where t: "resolve_zone_id (shelf_service client) client ''example.com'' None s = (Done (Inr ''z1''), t)" "world t = False"
    using shelf_resolves [OF assms(1), of client] assms(2) by auto
  obtain u where u: "find_record (shelf_service client) client ''z1'' ''A'' ''home.example.com'' t = (Done (Inr (Some shelf_old)), u)"
    "world u = False"
    using shelf_finds [of client t] t(2) by auto
  have "parse_ip ''8.8.8.8'' \<noteq> Some home_address"
    using parse_ip_show_ip [of "V4 (Ipv4Addr 8 8 8 8)"] by (simp add: show_ipv4_def show_nat_small)
  then have "plan_existing_record sample_record home_address ''z1'' shelf_old =
      PlanUpdate ''z1'' ''r1'' (payload_for sample_record home_address)"
    by (simp add: plan_existing_record_def shelf_old_def sample_dns_record_def)
  moreover have "zone sample_record = ''example.com''" "zone_id sample_record = None" "name sample_record = ''home.example.com''"
    "record_type_str (record_type sample_record) = ''A''"
    by (simp_all add: sample_record_def)
  ultimately show ?thesis
    using t u by (simp add: plan_record_def at_stage_def bind_ok_def bind_io_def ret_def)
qed

lemma shelf_executes:
  "\<exists>t. execute_record_plan (shelf_service client) client (PlanUpdate ''z1'' ''r1'' (payload_for sample_record home_address)) s =
     (Done (Inr Updated), t) \<and> world t = True"
proof -
  let ?e = "shelf_service client" and ?q = "update_request client ''z1'' ''r1'' (payload_for sample_record home_address)"
  have send: "send ?e client (ev_json_record ?e) ?q ''updating a DNS record'' (set_in_flight True s) =
      (Done (Inr \<lparr>ar_result = shelf_new, ar_result_info = Some \<lparr>ri_total_pages = Some 1\<rparr>\<rparr>),
       log_request ?e ?q Replied True (set_in_flight True s))"
    by (rule shelf_send [where body = "''new''"])
       (simp_all add: shelf_update CF_MAX_RESPONSE_BYTES_def, simp add: shelf_service_def)
  then show ?thesis
    by (simp add: execute_record_plan_def at_stage_def guarded_def update_record_def send_record_def send_in_zone_def
        bind_ok_def bind_io_def ret_def)
qed

lemma shelf_syncs:
  assumes "zone_cache s = Map.empty" and "world s = False" and "0 < deadline"
  shows "\<exists>t. sync_record (shelf_service client) client deadline sample_record home_address s =
    (Done (Some (Inr Updated)), t) \<and> world t = True"
proof -
  let ?plan = "PlanUpdate ''z1'' ''r1'' (payload_for sample_record home_address)"
  obtain t where t: "plan_record (shelf_service client) client sample_record home_address (s\<lparr>timers := deadline # timers s\<rparr>) =
      (Done (Inr ?plan), t)"
    using shelf_plans [of "s\<lparr>timers := deadline # timers s\<rparr>" client] assms(1,2) by auto
  obtain u where "execute_record_plan (shelf_service client) client ?plan (t\<lparr>timers := timers s\<rparr>) = (Done (Inr Updated), u)"
    "world u = True"
    using shelf_executes by blast
  then show ?thesis
    using t assms(3) by (simp add: sync_record_def timeout_at_def bind_io_def get_sys_def ret_def)
qed

lemma shelf_discovers:
  assumes "up_config up = sample_config" and "2 \<le> pc_timeout (up_public_ip up)"
  shows "\<exists>t. discover_required_addresses (shelf_service client) up s =
      (Done \<lparr>da_ipv4 = Some (Inr home_address), da_ipv6 = None\<rparr>, t) \<and>
      zone_cache t = zone_cache s \<and> world t = world s \<and> control t = control s"
proof -
  let ?ps = "[''https://api.cloudflare.com/cdn-cgi/trace'', ''https://api.ipify.org'']"
  have len: "length (show_ip home_address) = 7" by (simp add: show_ipv4_def show_nat_small)
  have public: "is_public_address home_address" by simp
  have "\<exists>t. discover (shelf_service client) (up_public_ip up) Ipv4 ?ps s = (Done (Inr home_address), t) \<and>
      zone_cache t = zone_cache s \<and> world t = world s \<and> control t = control s"
    using provider_answer [of home_address Ipv4] len public assms(2)
    by (simp add: discover_def async_simps Let_def bind_io_def get_sys_def timeout_at_def providers_left_def
        query_provider_def shelf_await shelf_respond_def get_request_def MAX_RESPONSE_BYTES_def div_greater_zero_iff)
  then show ?thesis
    using assms(1)
    by (auto simp: discover_required_addresses_def sample_config_def default_config_def sample_record_def
        discover_lane_def join2_def merge_sys_def bind_io_def ret_def map_err_def shelf_service_def)
qed

definition shelf_updater :: updater where
  "shelf_updater = home_updater\<lparr>up_public_ip := \<lparr>pc_timeout = from_secs 15\<rparr>\<rparr>"

lemma shelf_cycle:
  assumes "up_config up = sample_config" and "up_cloudflare up = client" and "2 \<le> pc_timeout (up_public_ip up)"
    and "0 < deadline" and "zone_cache s = Map.empty" and "world s = False" and "\<not> stop_requested (control s)"
  shows "\<exists>t. run_cycle_until (shelf_service client) up deadline s = (Done ((empty_report 1)\<lparr>cr_updated := 1\<rparr>), t) \<and> world t = True"
proof -
  let ?env = "shelf_service client" and ?a = "\<lparr>da_ipv4 = Some (Inr home_address), da_ipv6 = None\<rparr>"
  obtain t where t: "discover_required_addresses ?env up (s\<lparr>timers := deadline # timers s\<rparr>) = (Done ?a, t)"
    "zone_cache t = Map.empty" "world t = False" "\<not> stop_requested (control t)"
    using shelf_discovers [OF assms(1,3), of client "s\<lparr>timers := deadline # timers s\<rparr>"] assms(5-7) by auto
  define u where "u = move_cursor 1 (t\<lparr>timers := timers s\<rparr>)"
  have u: "zone_cache u = Map.empty" "world u = False" "\<not> stop_requested (control u)"
    using t by (simp_all add: u_def move_cursor_def)
  obtain v where v: "sync_record ?env client deadline sample_record home_address u = (Done (Some (Inr Updated)), v)" "world v = True"
    using shelf_syncs [OF u(1,2) assms(4)] by blast
  have "address_for_record ?a sample_record = Inr home_address"
    by (simp add: address_for_record_def sample_record_def)
  then have "cycle_records ?env client deadline ?a [sample_record] (empty_report 1) u =
      (Done ((empty_report 1)\<lparr>cr_updated := 1\<rparr>), v)"
    using u(3) v(1) unfolding cycle_records_step by (simp add: tally_def empty_report_def ret_def)
  then show ?thesis
    using t(1) v(2) assms(1,2)
    by (simp add: run_cycle_until_def Let_def bind_io_def timeout_at_def next_start_step u_def sample_config_def
        rotated_from_def discovery_failures_def empty_report_def)
qed

abbreviation shelf_run :: "cycle_report fut \<times> bool sys" where
  "shelf_run \<equiv> run_cycle_until (shelf_service sample_client) shelf_updater 1000 (idle_sys False)"

lemma shelf_updates:
  obtains s' where "shelf_run = (Done ((empty_report 1)\<lparr>cr_updated := 1\<rparr>), s')" "world s' = True"
proof -
  have "(2 :: nat) \<le> from_secs 15" by (simp add: from_secs_def nanos_per_sec_def)
  then show ?thesis
    using that shelf_cycle [of shelf_updater sample_client 1000 "idle_sys False"]
    by (auto simp: shelf_updater_def home_updater_def)
qed

lemma shelf_simps [simp]:
  "up_cloudflare shelf_updater = sample_client" "up_config shelf_updater = sample_config" "records sample_config = [sample_record]"
  by (simp_all add: shelf_updater_def home_updater_def sample_config_def)

lemma shelf_valid: "validate sample_url_parser (up_config shelf_updater) = Inr ()"
  by (simp add: validate_iff_valid sample_config_valid)

lemma shelf_cache: "zones_true zn rs (zone_cache (idle_sys w))"
  by (simp add: zones_true_def)

text \<open>The cycle that updates the record is a step of the specification, from the old record to the new one.\<close>

theorem cycle_refines_spec_witness:
  "\<exists>s'. snd shelf_run = s' \<and> world s' = True \<and> shelf_db False \<noteq> shelf_db True \<and>
     spec_steps shelf_zone [sample_record] (shelf_db False) (shelf_db True)"
proof -
  obtain s' where s': "shelf_run = (Done ((empty_report 1)\<lparr>cr_updated := 1\<rparr>), s')" "world s' = True"
    by (rule shelf_updates)
  have "shelf_old \<noteq> shelf_new"
    by (simp add: shelf_old_def shelf_new_def desired_def stored_record_def payload_for_def sample_record_def
        sample_dns_record_def show_ipv4_def show_nat_small)
  then have "shelf_db False ''z1'' \<noteq> shelf_db True ''z1''" by (simp add: shelf_db_def)
  then have "shelf_db False \<noteq> shelf_db True" by metis
  then show ?thesis
    using cycle_refines_spec [OF _ shelf_valid _ shelf_cache s'(1), of shelf_zone shelf_db] s' shelf_contract by simp
qed

theorem client_keeps_zone_cache_witness:
  "\<exists>t. resolve_zone_id (shelf_service sample_client) sample_client ''example.com'' None (idle_sys False) = (Done (Inr ''z1''), t) \<and>
     zones_true shelf_zone [sample_record] (zone_cache t) \<and> shelf_zone ''z1'' = ''example.com''"
proof -
  obtain t where t: "resolve_zone_id (shelf_service sample_client) sample_client ''example.com'' None (idle_sys False) = (Done (Inr ''z1''), t)"
    using shelf_resolves [of "idle_sys False" sample_client] by auto
  have v: "validate sample_url_parser sample_config = Inr ()" using shelf_valid by simp
  have r: "sample_record \<in> set (records sample_config)" "zone sample_record = ''example.com''" "zone_id sample_record = None"
    by simp_all (simp_all add: sample_record_def)
  show ?thesis
    using client_keeps_zone_cache [OF shelf_contract [of sample_client] v r(1) shelf_cache, of sample_client False "Done (Inr ''z1'')" t]
      t r(2,3) by simp
qed

theorem cycle_converges_witness:
  "\<exists>s'. shelf_run = (Done ((empty_report 1)\<lparr>cr_updated := 1\<rparr>), s') \<and>
    (\<exists>a zk x. is_public_address a \<and> filter (has_key ''A'' ''home.example.com'') (shelf_db (world s') zk) = [x] \<and>
       parse_ip (dr_content x) = Some a \<and> dr_ttl x = 120)"
proof -
  obtain s' where s': "shelf_run = (Done ((empty_report 1)\<lparr>cr_updated := 1\<rparr>), s')" "world s' = True"
    by (rule shelf_updates)
  have ok: "cycle_success ((empty_report 1)\<lparr>cr_updated := 1\<rparr>)" by (simp add: cycle_success_def empty_report_def)
  show ?thesis
    using cycle_converges [OF _ shelf_valid _ shelf_cache s'(1) ok, of shelf_zone shelf_db] s'(1) shelf_contract
    by (auto simp: sample_record_def)
qed

theorem cycle_spares_unmanaged_witness:
  "\<exists>s'. snd shelf_run = s' \<and> shelf_db (world s') ''z2'' = shelf_db False ''z2'' \<and>
    length (filter (has_key ''A'' ''home.example.com'') (shelf_db (world s') ''z1'')) \<le> 1"
proof -
  obtain s' where s': "shelf_run = (Done ((empty_report 1)\<lparr>cr_updated := 1\<rparr>), s')" "world s' = True"
    by (rule shelf_updates)
  have "zone_of shelf_zone sample_record ''z2'' = False"
    by (simp add: zone_of_def shelf_zone_def sample_record_def)
  then show ?thesis
    using cycle_spares_unmanaged [OF _ shelf_valid _ shelf_cache s'(1), of shelf_zone shelf_db "''z2''" sample_record]
      cycle_spares_unmanaged [OF _ shelf_valid _ shelf_cache s'(1), of shelf_zone shelf_db "''z1''" sample_record]
      s' shelf_contract
    by (simp add: shelf_db_def sample_record_def)
qed

lemma shelf_one_zone: "one_zone shelf_zone [sample_record]"
  by (simp add: one_zone_def zone_of_def shelf_zone_def sample_record_def)

lemma shelf_in_sync: "in_sync shelf_zone sample_record home_address (shelf_db True)"
  unfolding in_sync_def
  by (intro exI [of _ "''z1''"] exI [of _ shelf_new])
     (simp add: matching_def shelf_db_def shelf_new_def zone_of_def shelf_zone_def, simp add: sample_record_def)

text \<open>Once the record is up to date, a cycle sends no changing request.\<close>

theorem settled_cycle_is_silent_witness:
  "mutation_count (snd (run_cycle_until (shelf_service sample_client) shelf_updater 1000 (idle_sys True))) = 0"
proof -
  let ?env = "shelf_service sample_client" and ?a = "\<lparr>da_ipv4 = Some (Inr home_address), da_ipv6 = None\<rparr>"
  have "(2 :: nat) \<le> pc_timeout (up_public_ip shelf_updater)"
    by (simp add: shelf_updater_def from_secs_def nanos_per_sec_def)
  then obtain t where "discover_required_addresses ?env shelf_updater ((idle_sys True)\<lparr>timers := [1000]\<rparr>) = (Done ?a, t)"
    using shelf_discovers [of shelf_updater sample_client "(idle_sys True)\<lparr>timers := [1000]\<rparr>"] by auto
  then obtain t' where d: "timeout_at 1000 (discover_required_addresses ?env shelf_updater) (idle_sys True) = (Done (Some ?a), t')"
    by (simp add: timeout_at_def)
  have conv: "converged shelf_zone (records (up_config shelf_updater)) ?a (shelf_db True)"
    using shelf_in_sync by (simp add: converged_def may_publish_def address_for_record_def) (simp add: sample_record_def)
  obtain x s' where x: "run_cycle_until ?env shelf_updater 1000 (idle_sys True) = (x, s')"
    by (cases "run_cycle_until ?env shelf_updater 1000 (idle_sys True)")
  have "mutation_count (idle_sys True) = 0" by (simp add: mutation_count_def)
  then show ?thesis
    using settled_cycle_is_silent [OF _ shelf_valid _ shelf_cache _ d _ x, of shelf_zone shelf_db] conv x shelf_contract shelf_one_zone
    by simp
qed

definition shelf_host :: "cloudflare_client \<Rightarrow> bool host" where
  "shelf_host client = \<lparr>ho_env = shelf_service client, ho_sleep = (\<lambda>d w. (None, w)),
     ho_ready = (\<lambda>_. None), ho_time = (\<lambda>_. None), ho_pid = 1\<rparr>"

theorem daemon_refines_spec_witness:
  "\<exists>st t'. daemon_step (shelf_host sample_client) shelf_updater (Cycling (first_state 0), idle_sys False) (Waiting st, t') \<and>
     spec_steps shelf_zone [sample_record] (shelf_db False) (shelf_db (world t')) \<and>
     (\<exists>addresses. converged shelf_zone [sample_record] addresses (shelf_db (world t')))"
proof -
  let ?h = "shelf_host sample_client" and ?env = "shelf_service sample_client" and ?s = "begin_cycle (idle_sys False)"
  let ?report = "(empty_report 1)\<lparr>cr_updated := 1\<rparr>" and ?d = "interval (up_config shelf_updater)"
  have h: "ho_env ?h = ?env" "\<And>w. ho_ready ?h w = None" by (simp_all add: shelf_host_def)
  have "(2 :: nat) \<le> pc_timeout (up_public_ip shelf_updater)" "0 < ?d"
    by (simp_all add: shelf_updater_def home_updater_def from_secs_def nanos_per_sec_def interval_def sample_config_def
        default_config_def DEFAULT_INTERVAL_SECONDS_def)
  then obtain t' where "run_cycle_until ?env shelf_updater ?d ?s = (Done ?report, t')"
    using shelf_cycle [of shelf_updater sample_client ?d ?s] by auto
  then have t': "run_cycle_locked (ho_env ?h) shelf_updater (begin_cycle (idle_sys False)) = (Done ?report, t')"
    by (simp add: run_cycle_locked_def get_sys_apply h(1))
  have "quiet_host ?h" by (simp add: quiet_host_def shelf_host_def shelf_service_def)
  then have quiet: "shutdown t' = None"
    using quiet_cycle [of ?h "idle_sys False" shelf_updater] t' by (auto simp: at_rest_def)
  let ?st = "after_cycle ?h (world t') ?d ?report (first_state 0)"
  have ok: "ds_failures ?st = 0" by (simp add: after_cycle_def cycle_success_def empty_report_def)
  have step: "daemon_step ?h shelf_updater (Cycling (first_state 0), idle_sys False) (Waiting ?st, t')"
    using completed [of ?h "idle_sys False" shelf_updater, OF h(2) t' quiet] .
  have "daemon_reach ?h shelf_updater (Waiting (first_state 0), idle_sys False) (Cycling (first_state 0), idle_sys False)"
    unfolding daemon_reach_def by (rule r_into_rtranclp) (simp add: at_once first_state_def)
  from daemon_refines_spec [OF _ shelf_valid _ _ _ this step, of shelf_zone shelf_db] show ?thesis
    using step ok h shelf_contract by (intro exI [of _ ?st] exI [of _ t']) simp
qed

theorem once_refines_spec_witness:
  "\<exists>pr. main 0 (sample_machine (shelf_host built_client)) (home_args CmdOnce) False {} = (Some 0, pr) \<and>
     spec_steps shelf_zone [sample_record] (shelf_db False) (shelf_db (world (pr_sys pr))) \<and>
     (\<exists>addresses. converged shelf_zone [sample_record] addresses (shelf_db (world (pr_sys pr))))"
proof -
  let ?m = "sample_machine (shelf_host built_client)" and ?report = "(empty_report 1)\<lparr>cr_updated := 1\<rparr>"
  have "ev_parse_url (ho_env (shelf_host built_client)) = sample_url_parser"
    by (simp add: shelf_host_def shelf_service_def)
  then obtain up ls where b: "build_updater ?m DEFAULT_CONFIG_PATH = (Inr up, ls)" "up_config up = sample_config"
      "up_cloudflare up = built_client"
    using sample_builds by blast
  have env: "ma_env ?m = shelf_service built_client" by (simp add: ma_env_def sample_machine_def shelf_host_def)
  have "up_runtime_lock up = sample_lock"
    using build_updater_Inr(7) [OF b(1)] b(2) by (simp add: sample_machine_def)
  then obtain path where a: "acquire (ma_locker ?m) (ma_lock_os ?m) (up_runtime_lock up) {} = (Inr (Some [path]), {path})"
    using sample_lock_acquired by (auto simp: sample_machine_def)
  have "(2 :: nat) \<le> pc_timeout (up_public_ip up)" "0 < interval (up_config up)"
    using build_updater_Inr(5) [OF b(1)] b(2)
    by (simp_all add: from_secs_def nanos_per_sec_def interval_def request_timeout_def sample_config_def
        default_config_def DEFAULT_INTERVAL_SECONDS_def DEFAULT_REQUEST_TIMEOUT_SECONDS_def)
  then obtain s' where c: "run_cycle (ma_env ?m) (Inr (Some [path])) up (idle_sys False) = (Done ?report, s')"
    using shelf_cycle [OF b(2,3), of "interval (up_config up)"
        "(idle_sys False)\<lparr>control := \<lparr>stop_requested = False, mutation_in_flight = False\<rparr>\<rparr>"] env
    by (auto simp: run_cycle_def run_cycle_locked_def fresh_control_def modify_sys_apply get_sys_apply)
  have ok: "cycle_success ?report" by (simp add: cycle_success_def empty_report_def)
  have "\<exists>pr. execute_once ?m up (log_lines ls (fresh_process False {})) = (Some (Inr ()), pr)"
    using a c ok unfolding execute_once_def with_runtime_lock_def by simp
  moreover have "init_logging ?m 0 False = Inr ()" by (simp add: init_logging_def sample_machine_def)
  ultimately obtain pr where m: "main 0 ?m (home_args CmdOnce) False {} = (Some 0, pr)"
    using b(1) by (auto simp: main_def Let_def execute_def)
  show ?thesis
    using once_refines_spec [OF _ _ m, of shelf_zone shelf_db] m b env shelf_contract by auto
qed

end
