(* ===== verification/Dns_Check.thy ===== *)
theory Dns_Check
  imports Dns_Refine
begin

text \<open>
  The check against the abstract specification: its edit probes leave the database as it is, and
  its creations are creation steps, so that a check without the permission to create changes
  nothing, and a check with it only adds configured records that are missing. And what a successful
  check has shown of every configured zone.
\<close>

section \<open>The contract of an edit probe\<close>

text \<open>A \<open>PATCH\<close> sets the fields it names, here type, name and TTL, of the record with the identifier.\<close>

definition patch_record :: "string \<Rightarrow> string \<Rightarrow> edit_probe_payload \<Rightarrow> dns_db \<Rightarrow> dns_db" where
  "patch_record zk rid q D = D(zk := map (\<lambda>x. if dr_id x = rid
     then x\<lparr>dr_record_type := ep_record_type q, dr_name := ep_name q, dr_ttl := ep_ttl q\<rparr> else x) (D zk))"

definition applies_probes :: "'w env \<Rightarrow> ('w \<Rightarrow> dns_db) \<Rightarrow> bool" where
  "applies_probes env db \<longleftrightarrow> (\<forall>host ps zid rid q w outcome w'. ev_respond env
       (json_request PATCH (ApiUrl host (ps @ [''zones'', zid, ''dns_records'', rid])) (ProbeBody q)) w = (outcome, w') \<longrightarrow>
     db w' = patch_record (lower zid) rid q (db w) \<or> db w' = db w)"

lemma patch_own_record:
  assumes "distinct_ids D" and "matching r D zk = [e]"
  shows "patch_record zk (dr_id e) \<lparr>ep_record_type = dr_record_type e, ep_name = dr_name e, ep_ttl = dr_ttl e\<rparr> D = D"
proof -
  have e: "e \<in> set (D zk)" using assms(2) by (auto simp: matching_def filter_eq_Cons_iff)
  have "distinct (map dr_id (D zk))" using assms(1) by (simp add: distinct_ids_def)
  then have own: "x = e" if "x \<in> set (D zk)" "dr_id x = dr_id e" for x
    using that e by (auto simp: distinct_map dest: inj_onD)
  have "x\<lparr>dr_record_type := dr_record_type e, dr_name := dr_name e, dr_ttl := dr_ttl e\<rparr> = x"
    if "x \<in> set (D zk)" "dr_id x = dr_id e" for x
    unfolding own [OF that] by simp
  then show ?thesis
    unfolding patch_record_def by (intro fun_upd_idem map_idI [symmetric]) auto
qed

section \<open>Computations that move the database\<close>

text \<open>
  \<open>moves\<close>: started outside every timeout in a state that shows the database \<open>D\<close>, the computation
  ends, however it ends, in one that shows a database \<open>rel\<close> leads to.
\<close>

definition moves :: "('w \<Rightarrow> dns_db) \<Rightarrow> (string \<Rightarrow> string) \<Rightarrow> record_config list \<Rightarrow> (dns_db \<Rightarrow> dns_db \<Rightarrow> bool) \<Rightarrow> dns_db
    \<Rightarrow> ('w, 'a) io \<Rightarrow> bool" where
  "moves db zn rs rel D m \<longleftrightarrow> (\<forall>s x s'. m s = (x, s') \<longrightarrow> timers s = [] \<longrightarrow> sees db zn rs D s \<longrightarrow>
     timers s' = [] \<and> (\<exists>D'. rel\<^sup>*\<^sup>* D D' \<and> sees db zn rs D' s'))"

lemma movesD:
  assumes "moves db zn rs rel D m" and "m s = (x, s')" and "timers s = []" and "sees db zn rs D s"
  obtains D' where "timers s' = []" "rel\<^sup>*\<^sup>* D D'" "sees db zn rs D' s'"
  using assms unfolding moves_def by blast

lemma moves_ret: "moves db zn rs rel D (ret a)"
  by (auto simp: moves_def ret_def)

lemma moves_get_sys: "(\<And>t. moves db zn rs rel D (f t)) \<Longrightarrow> moves db zn rs rel D (bind_io get_sys f)"
  by (simp add: moves_def async_simps)

lemma moves_read:
  assumes "yields (sees db zn rs D) m Q" and "frame (\<lambda>_. same_timers) m"
  shows "moves db zn rs rel D m"
  using yieldsD [OF assms(1)] frameD [OF assms(2)] by (fastforce simp: moves_def same_timers_def)

lemma moves_read_bind:
  assumes m: "yields (sees db zn rs D) m Q" "frame (\<lambda>_. same_timers) m" and f: "\<And>a. Q a \<Longrightarrow> moves db zn rs rel D (f a)"
  shows "moves db zn rs rel D (bind_io m f)"
  unfolding moves_def
proof (intro allI impI)
  fix s x s'
  assume b: "bind_io m f s = (x, s')" and s: "timers s = []" "sees db zn rs D s"
  from b show "timers s' = [] \<and> (\<exists>D'. rel\<^sup>*\<^sup>* D D' \<and> sees db zn rs D' s')"
  proof (cases rule: bind_io_cases)
    case (Done a t)
    have "timers t = []" "sees db zn rs D t" "Q a"
      using frameD [OF m(2) Done(1)] yieldsD [OF m(1) Done(1) s(2)] s(1) by (simp_all add: same_timers_def)
    then show ?thesis using movesD [OF f Done(2)] by metis
  qed (use frameD [OF m(2)] yieldsD [OF m(1) _ s(2)] s(1) in \<open>auto simp: same_timers_def\<close>)
qed

lemma moves_bind:
  assumes m: "moves db zn rs rel D m" and f: "\<And>D' a. moves db zn rs rel D' (f a)"
  shows "moves db zn rs rel D (bind_io m f)"
  unfolding moves_def
proof (intro allI impI)
  fix s x s'
  assume b: "bind_io m f s = (x, s')" and s: "timers s = []" "sees db zn rs D s"
  from b show "timers s' = [] \<and> (\<exists>D'. rel\<^sup>*\<^sup>* D D' \<and> sees db zn rs D' s')"
  proof (cases rule: bind_io_cases)
    case (Done a t)
    obtain D1 where "timers t = []" "rel\<^sup>*\<^sup>* D D1" "sees db zn rs D1 t"
      using m Done(1) s by (rule movesD)
    then show ?thesis
      using movesD [OF f Done(2)] rtranclp_trans [of rel] by metis
  qed (use movesD [OF m _ s] in metis)+
qed

lemma moves_guarded:
  assumes "\<And>outcome w w'. ev_respond env q w = (outcome, w') \<Longrightarrow> db w = D \<Longrightarrow> rel\<^sup>*\<^sup>* D (db w')"
  shows "moves db zn rs rel D (guarded (send_record env client q op zid))"
  unfolding moves_def
proof (intro allI impI)
  fix s :: "'a sys" and x s'
  assume g: "guarded (send_record env client q op zid) s = (x, s')" and s: "timers s = []" "sees db zn rs D s"
  obtain outcome where o: "ev_respond env q (world s) = (outcome, world s')"
    "zone_cache s' = zone_cache s \<or> zone_cache s' = evict_zone zid (zone_cache s)"
    using guarded_send_world [OF s(1) g] by metis
  have "rel\<^sup>*\<^sup>* D (db (world s'))" using assms [OF o(1)] s(2) by (simp add: sees_def)
  moreover have "sees db zn rs (db (world s')) s'"
    using o(2) s(2) by (auto simp: sees_def evict_zones_true)
  ultimately show "timers s' = [] \<and> (\<exists>D'. rel\<^sup>*\<^sup>* D D' \<and> sees db zn rs D' s')"
    using guarded_send_record(2) [OF s(1) g] by blast
qed

section \<open>The steps of a check\<close>

definition spec_creation :: "(string \<Rightarrow> string) \<Rightarrow> record_config list \<Rightarrow> dns_db \<Rightarrow> dns_db \<Rightarrow> bool" where
  "spec_creation zn rs D D' \<longleftrightarrow> (\<exists>r \<in> set rs. \<exists>a zk. may_publish r a \<and> zone_of zn r zk \<and> create_if_missing r \<and>
     matching r D zk = [] \<and> adds_record zk (payload_for r a) D D')"

lemma spec_creation_step: "spec_creation zn rs D D' \<Longrightarrow> spec_step zn rs D D'"
  by (auto simp: spec_creation_def spec_step_def intro: adds_is_create)

text \<open>Creations, and only with the permission.\<close>

abbreviation check_rel :: "bool \<Rightarrow> (string \<Rightarrow> string) \<Rightarrow> record_config list \<Rightarrow> dns_db \<Rightarrow> dns_db \<Rightarrow> bool" where
  "check_rel allowed zn rs D D' \<equiv> allowed \<and> spec_creation zn rs D D'"

lemma moves_existing:
  assumes "dns_service env zn db" and "applies_probes env db" and "matching r D (lower zid) = [e]"
  shows "moves db zn rs rel D (handle_existing_check_record env client options r zid e proofs report)"
proof -
  have "db w' = D" if "ev_respond env (probe_request client zid e) w = (outcome, w')" "db w = D" for outcome w w'
  proof -
    have "distinct_ids D" using assms(1) that(2) by (auto simp: dns_service_def)
    then show ?thesis
      using assms(2) that patch_own_record [OF _ assms(3)]
      unfolding applies_probes_def probe_request_def endpoint_path by metis
  qed
  then have "moves db zn rs rel D (guarded (probe_record_edit env client zid e))"
    unfolding probe_record_edit_def by (intro moves_guarded) auto
  then have "moves db zn rs rel D (probe_edit_permission env client zid e)"
    unfolding probe_edit_permission_def bind_ok_def
    by (rule moves_bind) (auto intro: moves_ret split: sum.split)
  then show ?thesis
    unfolding handle_existing_check_record_def Let_def
    by (auto intro!: moves_ret moves_get_sys moves_bind)
qed

lemma moves_create:
  assumes "dns_service env zn db" and "r \<in> set rs" and "may_publish r a" and "zone_of zn r (lower zid)"
    and "create_if_missing r" and "matching r D (lower zid) = []"
  shows "moves db zn rs (check_rel True zn rs) D (guarded (create_record env client zid (payload_for r a)))"
  unfolding create_record_def
proof (rule moves_guarded)
  fix outcome w w'
  assume w: "ev_respond env (create_request client zid (payload_for r a)) w = (outcome, w')" "db w = D"
  have "adds_record (lower zid) (payload_for r a) D (db w') \<or> db w' = D"
    using create_effect [OF _ w(1)] assms(1) w(2) by (auto simp: dns_service_def)
  then show "(check_rel True zn rs)\<^sup>*\<^sup>* D (db w')"
    using assms(2-6) by (auto simp: spec_creation_def intro!: r_into_rtranclp [of "check_rel True zn rs"])
qed

text \<open>What a lookup of a record in its zone says.\<close>

definition found_in :: "record_config \<Rightarrow> dns_db \<Rightarrow> string \<Rightarrow> dns_record option \<Rightarrow> bool" where
  "found_in r D zid existing \<longleftrightarrow> matching r D (lower zid) = (case existing of None \<Rightarrow> [] | Some e \<Rightarrow> [e])"

lemma yields_found:
  assumes "dns_service env zn db"
  shows "yields (sees db zn rs D) (timeout_at d (find_record env client zid (record_type_str (record_type r)) (name r)))
    (\<lambda>x. \<forall>existing. x = Some (Inr existing) \<longrightarrow> found_in r D zid existing)"
proof -
  have c: "only_writer env db" "lists_records env db" using assms by (simp_all add: dns_service_def)
  show ?thesis
    by (rule yields_weaken [OF yields_timeout [OF yields_find_record [OF c]]])
       (auto simp: found_in_def split: option.split)
qed

lemma moves_missing:
  assumes "dns_service env zn db" and "applies_probes env db" and "r \<in> set rs"
    and "\<And>a. address_for_record addresses r = Inr a \<Longrightarrow> may_publish r a"
    and "zone_of zn r (lower zid)"
  shows "moves db zn rs (check_rel (co_allow_create options) zn rs) D
    (handle_missing_check_record env client addresses options r zid proofs report)"
proof -
  have timers: "frame (\<lambda>_. same_timers) (timeout_at d (find_record env client zid rtype rname))" for d rtype rname
    by (intro timers_frame.frame_timeout_at timers_frame.frame_find_record)
  have create: "moves db zn rs (spec_creation zn rs) D
      (bind_io (guarded (create_record env client zid (payload_for r a))) (\<lambda>x. ret (f x)))"
    if "address_for_record addresses r = Inr a" "create_if_missing r" "matching r D (lower zid) = []"
    for a and f :: "(dns_record, cloudflare_error) result \<Rightarrow> bool \<times> zone_proofs \<times> check_report"
    using moves_create [OF assms(1,3,4) assms(5)] that by (intro moves_bind moves_ret) simp_all
  have fields: "rp_record_type (payload_for r a) = record_type_str (record_type r)" "rp_name (payload_for r a) = name r" for a
    by (simp_all add: payload_for_def)
  show ?thesis
    unfolding handle_missing_check_record_def fields
    by (auto intro!: moves_ret moves_get_sys moves_read_bind [OF yields_found [OF assms(1)] timers] create
        moves_existing [OF assms(1,2)] simp: found_in_def split: sum.split option.split)
qed

lemma yields_lookup_before:
  assumes "yields (sees db zn rs D) m (\<lambda>x. \<forall>a. x = Inr a \<longrightarrow> Q a)"
  shows "yields (sees db zn rs D) (lookup_before d stage m) (\<lambda>x. \<forall>a. x = Inr a \<longrightarrow> Q a)"
  unfolding lookup_before_def
  by (rule yields_bind [OF yields_timeout [OF assms]]) (auto intro!: yields_ret split: option.splits)

lemma yields_inspect:
  assumes "dns_service env zn db" and "ids_ok rs" and "r \<in> set rs"
  shows "yields (sees db zn rs D) (inspect_check_record env client r d proofs)
    (\<lambda>(p, x). \<forall>zid existing. x = Inr (zid, existing) \<longrightarrow> zone_of zn r (lower zid) \<and> found_in r D zid existing)"
proof -
  have c: "only_writer env db" "lists_records env db" "names_zones env zn"
    using assms(1) by (simp_all add: dns_service_def)
  have zone: "yields (sees db zn rs D) (lookup_before d FsZoneLookup (resolve_zone_id env client (zone r) (zone_id r)))
      (\<lambda>x. \<forall>zid. x = Inr zid \<longrightarrow> zone_of zn r (lower zid))"
    by (rule yields_lookup_before) (rule yields_resolve_zone_id [OF c(1,3) assms(2,3)])
  have look: "yields (sees db zn rs D)
      (lookup_before d FsRecordLookup (find_record env client zid (record_type_str (record_type r)) (name r)))
      (\<lambda>x. \<forall>existing. x = Inr existing \<longrightarrow> found_in r D zid existing)" for zid
    by (rule yields_lookup_before, rule yields_weaken [OF yields_find_record [OF c(1,2)]])
       (auto simp: found_in_def split: option.split)
  show ?thesis
    unfolding inspect_check_record_def
    by (rule yields_bind [OF zone])
       (auto intro!: yields_ret yields_bind [OF look] split: sum.splits)
qed

lemma moves_check_record:
  assumes "dns_service env zn db" and "applies_probes env db" and "ids_ok rs" and "r \<in> set rs"
    and "\<And>a. address_for_record addresses r = Inr a \<Longrightarrow> may_publish r a"
  shows "moves db zn rs (check_rel (co_allow_create options) zn rs) D
    (check_record env client addresses options r proofs report)"
  unfolding check_record_def
proof (rule moves_read_bind [OF yields_inspect [OF assms(1,3,4)] timers_frame.frame_inspect], clarify)
  fix proofs' :: zone_proofs and x :: "(string \<times> dns_record option, check_lookup_error) result"
  assume x: "\<forall>zid existing. x = Inr (zid, existing) \<longrightarrow> zone_of zn r (lower zid) \<and> found_in r D zid existing"
  show "moves db zn rs (check_rel (co_allow_create options) zn rs) D
      (case x of
         Inl ClDeadline \<Rightarrow> ret (True, proofs', push_check check_deadline_failure report)
       | Inl (ClCloudflare stage e) \<Rightarrow> ret (step_failed (name r) stage e proofs' report)
       | Inr (zid, Some existing) \<Rightarrow> handle_existing_check_record env client options r zid existing proofs' report
       | Inr (zid, None) \<Rightarrow> handle_missing_check_record env client addresses options r zid proofs' report)"
    using x moves_missing [OF assms(1,2,4,5)] moves_existing [OF assms(1,2)]
    by (auto simp: found_in_def intro: moves_ret split: sum.split check_lookup_error.split prod.split option.split)
qed

lemma moves_check_loop:
  assumes "dns_service env zn db" and "applies_probes env db" and "ids_ok rs"
    and "\<And>r a. address_for_record addresses r = Inr a \<Longrightarrow> may_publish r a"
  shows "set qs \<subseteq> set rs \<Longrightarrow> moves db zn rs (check_rel (co_allow_create options) zn rs) D
    (check_loop env client addresses options qs proofs report)"
proof (induction qs arbitrary: D proofs report)
  case (Cons r qs)
  then show ?case
    unfolding check_loop.simps
    by (intro moves_bind moves_check_record [OF assms(1-3)]) (auto intro: moves_ret assms(4))
qed (simp add: moves_ret)

lemma discovery_yields:
  assumes "only_writer env db"
  shows "yields (sees db zn rs D) (timeout_at deadline (discover_required_addresses env up))
    (\<lambda>x. \<forall>addresses r a. x = Some addresses \<longrightarrow> address_for_record addresses r = Inr a \<longrightarrow> may_publish r a)"
proof (rule yieldsI)
  fix s x s'
  assume m: "timeout_at deadline (discover_required_addresses env up) s = (x, s')" and s: "sees db zn rs D s"
  have "may_publish r a" if x: "x = Done (Some addresses)" and a: "address_for_record addresses r = Inr a" for addresses r a
  proof -
    obtain t where "discover_required_addresses env up (s\<lparr>timers := deadline # timers s\<rparr>) = (Done addresses, t)"
      using m unfolding x by (rule timeout_at_Done)
    then show ?thesis
      using address_for_record_public [OF discover_required_ok a] by (auto simp: may_publish_def)
  qed
  then show "sees db zn rs D s' \<and> (\<forall>y. x = Done y \<longrightarrow>
      (\<forall>addresses r a. y = Some addresses \<longrightarrow> address_for_record addresses r = Inr a \<longrightarrow> may_publish r a))"
    using yieldsD [OF yields_timeout [OF yields_discover_required [OF assms]] m s] by blast
qed

lemma yields_verify_token:
  assumes "only_writer env db"
  shows "yields (sees db zn rs D) (verify_token env client) (\<lambda>_. True)"
  unfolding verify_token_def
  by (rule yields_bind [OF yields_send [OF assms, where Q = "\<lambda>_. True"]]) (auto intro: yields_ret)

lemma moves_fresh_control: "moves db zn rs rel D fresh_control"
  by (auto simp: moves_def fresh_control_def modify_sys_def sees_def)

lemma moves_check_until:
  assumes "dns_service env zn db" and "applies_probes env db"
    and "valid_config parse (up_config up)"
  shows "moves db zn (records (up_config up)) (check_rel allow_create zn (records (up_config up))) D
    (check_until env order up allow_create allow_edit_probe deadline)"
proof -
  let ?rs = "records (up_config up)"
  have ow: "only_writer env db" using assms(1) by (simp add: dns_service_def)
  have verify: "yields (sees db zn ?rs D) (timeout_at deadline (verify_token env (up_cloudflare up))) (\<lambda>_. True)"
    "frame (\<lambda>_. same_timers) (timeout_at deadline (verify_token env (up_cloudflare up)))"
    using yields_weaken [OF yields_timeout [OF yields_verify_token [OF ow]]]
    by (auto intro: timers_frame.frame_timeout_at timers_frame.frame_verify_token)
  have discovery: "yields (sees db zn ?rs D) (timeout_at deadline (discover_required_addresses env up))
      (\<lambda>x. \<forall>addresses r a. x = Some addresses \<longrightarrow> address_for_record addresses r = Inr a \<longrightarrow> may_publish r a)"
    "frame (\<lambda>_. same_timers) (timeout_at deadline (discover_required_addresses env up))"
    using discovery_yields [OF ow] by (auto intro: timers_frame.frame_timeout_at timers_frame.frame_discover_required)
  have loop: "moves db zn ?rs (check_rel allow_create zn ?rs) D
      (check_records env (up_cloudflare up) addresses \<lparr>co_allow_create = allow_create,
         co_allow_edit_probe = allow_edit_probe, co_deadline = deadline\<rparr> ?rs proofs report)"
    if "\<forall>r a. address_for_record addresses r = Inr a \<longrightarrow> may_publish r a" for addresses proofs report D
    unfolding check_records_def
    using moves_check_loop [OF assms(1,2) valid_config_ids [OF assms(3)], of addresses ?rs
        "\<lparr>co_allow_create = allow_create, co_allow_edit_probe = allow_edit_probe, co_deadline = deadline\<rparr>"] that
    by (intro moves_bind moves_fresh_control) auto
  show ?thesis
    unfolding check_until_def Let_def
    by (rule moves_read_bind [OF verify])
       (auto intro!: moves_ret moves_read_bind [OF discovery] moves_bind loop split: option.split sum.split)
qed

lemma moves_check:
  assumes "dns_service env zn db" and "applies_probes env db"
    and "valid_config parse (up_config up)"
  shows "moves db zn (records (up_config up)) (check_rel allow_create zn (records (up_config up))) D
    (check env order lock up allow_create allow_edit_probe)"
proof -
  have continue: "moves db zn (records (up_config up)) (check_rel allow_create zn (records (up_config up))) D
      (bind_io get_sys (\<lambda>s. check_until env order up allow_create allow_edit_probe (now env s + CHECK_TIMEOUT)))"
    by (intro moves_get_sys moves_check_until [OF assms])
  show ?thesis
    unfolding check_def Let_def
    by (cases "allow_create \<or> allow_edit_probe"; cases lock) (simp_all only: if_True if_False sum.case continue moves_ret)
qed

lemma creations_add:
  "(check_rel allowed zn rs)\<^sup>*\<^sup>* D D' \<Longrightarrow>
     spec_steps zn rs D D' \<and> (\<not> allowed \<longrightarrow> D' = D) \<and> subseq (D zk) (D' zk)"
proof (induction rule: rtranclp_induct)
  case (step D1 D2)
  have "subseq (D1 zk) (D2 zk)"
    using step(2) by (auto simp: spec_creation_def adds_record_def intro!: list_emb_append_mono)
  then show ?case
    using step spec_creation_step [of zn rs D1 D2] rtranclp.rtrancl_into_rtrancl [of "spec_step zn rs" D D1 D2]
      subseq_order.trans [of "D zk" "D1 zk" "D2 zk"] by blast
qed simp

section \<open>Properties\<close>

text \<open>
  C13: a check is harmless. Whatever happens during it, if nobody else changes DNS meanwhile, no
  record that exists is changed or removed, in any zone; without the permission to create, DNS is exactly as before, whether or not edit
  probes were allowed and sent; with it, the only changes are specified creations of configured
  records that are missing. The zone cache stays truthful. The condition is part of the contract
  of the service (\<open>only_writer\<close>): a probe writes back the name and TTL that the lookup showed, so a
  concurrent change of these may be replaced, as \<open>README.md\<close> warns.
\<close>

theorem check_refines_spec:
  assumes "dns_service env zn db" and "applies_probes env db"
    and "validate parse (up_config up) = Inr ()"
    and "timers s = []" and "zones_true zn (records (up_config up)) (zone_cache s)"
    and "check env order lock up allow_create allow_edit_probe s = (x, s')"
  shows "spec_steps zn (records (up_config up)) (db (world s)) (db (world s')) \<and>
    (\<not> allow_create \<longrightarrow> db (world s') = db (world s)) \<and> subseq (db (world s) zk) (db (world s') zk) \<and>
    zones_true zn (records (up_config up)) (zone_cache s')"
proof -
  let ?rs = "records (up_config up)"
  have v: "valid_config parse (up_config up)" using assms(3) by (simp add: validate_iff_valid)
  have s: "sees db zn ?rs (db (world s)) s" using assms(5) by (simp add: sees_def)
  obtain D' where "(check_rel allow_create zn ?rs)\<^sup>*\<^sup>* (db (world s)) D'" "sees db zn ?rs D' s'"
    using moves_check [OF assms(1,2) v] assms(6,4) s by (rule movesD)
  then show ?thesis
    using creations_add [of allow_create zn ?rs "db (world s)" D' zk] by (auto simp: sees_def)
qed

text \<open>The shelf refuses edit probes.\<close>

lemma shelf_probes: "applies_probes (shelf_service client) shelf_db"
  unfolding applies_probes_def
  by (auto simp: shelf_service_def shelf_respond_def get_request_def json_request_def zone_page_request_def
      record_page_request_def update_request_def endpoint_path split: if_splits)

theorem check_refines_spec_witness:
  "\<exists>x s'. check (shelf_service sample_client) rev (Inr None) shelf_updater False True (idle_sys False) = (x, s') \<and>
     shelf_db (world s') = shelf_db False"
proof -
  obtain x s' where c: "check (shelf_service sample_client) rev (Inr None) shelf_updater False True (idle_sys False) = (x, s')"
    by (cases "check (shelf_service sample_client) rev (Inr None) shelf_updater False True (idle_sys False)")
  then show ?thesis
    using check_refines_spec [OF _ _ shelf_valid _ shelf_cache c, of shelf_zone shelf_db] shelf_contract shelf_probes by simp
qed

section \<open>What a successful check has proved\<close>

text \<open>
  Which identifiers a check resolves depends on the zone documents alone: the database plays no
  role, so the view is the one of a constant.
\<close>

abbreviation zones_seen :: "(string \<Rightarrow> string) \<Rightarrow> record_config list \<Rightarrow> 'w sys \<Rightarrow> bool" where
  "zones_seen zn rs \<equiv> sees (\<lambda>_ _. []) zn rs (\<lambda>_. [])"

lemma no_writer: "only_writer env (\<lambda>_ _. [])"
  by (simp add: only_writer_def)

definition zones_fit :: "(string \<Rightarrow> string) \<Rightarrow> record_config list \<Rightarrow> zone_proofs \<Rightarrow> bool" where
  "zones_fit zn rs p \<longleftrightarrow>
     (\<forall>r \<in> set rs. \<forall>zid. map_of (zp_resolved p) (zone_for_record r) = Some zid \<longrightarrow> zone_of zn r (lower zid))"

lemma zones_fit_start: "zones_fit zn rs (proofs_for_config c)"
  by (simp add: zones_fit_def proofs_for_config_def)

lemma zones_fit_resolved: "zones_fit zn rs p \<Longrightarrow> zone_of zn r (lower zid) \<Longrightarrow> zones_fit zn rs (mark_resolved r zid p)"
  by (auto simp: zones_fit_def mark_resolved_def AList.update_conv' zone_for_record_def zone_of_def)

lemma zones_fit_proven [simp]: "zones_fit zn rs (mark_proven zid p) = zones_fit zn rs p"
  by (simp add: zones_fit_def mark_proven_def)

lemma yields_any_record_pages: "yields (zones_seen zn rs) (record_pages env client zid rtype rname exact k) (\<lambda>_. True)"
proof (induction k arbitrary: exact)
  case (Suc k)
  have page: "yields (zones_seen zn rs)
      (send env client (ev_json_records env) (record_page_request client zid rtype rname p) op) (\<lambda>x. \<forall>a. x = Inr a \<longrightarrow> True)" for p op
    unfolding record_page_request_def by (rule yields_send [OF no_writer]) simp
  show ?case
    unfolding record_pages.simps
    by (rule yields_bind_ok [OF yields_send_in_zone [OF page]]) (auto intro: yields_ret Suc.IH split: sum.split)
qed (simp add: yields_ret)

lemma yields_any_find: "yields (zones_seen zn rs) (find_record env client zid rtype rname) (\<lambda>_. True)"
  unfolding find_record_def by (rule yields_any_record_pages)

lemma yields_any_write: "yields (zones_seen zn rs) (guarded (send_record env client q op zid)) (\<lambda>_. True)"
proof (rule yieldsI)
  fix s :: "'a sys" and x s'
  assume g: "guarded (send_record env client q op zid) s = (x, s')" and s: "zones_seen zn rs s"
  obtain t where t: "send_record env client q op zid (set_in_flight True s) = (x, t)" "s' = set_in_flight False t"
    using g by (auto simp: guarded_def split: prod.splits)
  obtain y w where w: "await env q (set_in_flight True s) = (y, w)" "t = w \<or> t = w\<lparr>zone_cache := evict_zone zid (zone_cache w)\<rparr>"
    using t(1) by (rule send_record_steps)
  show "zones_seen zn rs s' \<and> (\<forall>a. x = Done a \<longrightarrow> True)"
    using await_frame(2) [OF w(1)] w(2) t(2) s by (auto simp: sees_def evict_zones_true)
qed

lemma yields_fit_existing:
  assumes "zones_fit zn qs p"
  shows "yields (zones_seen zn rs) (handle_existing_check_record env client options r zid e p report) (\<lambda>(_, p', _). zones_fit zn qs p')"
proof -
  have probe: "yields (zones_seen zn rs) (probe_edit_permission env client zid e) (\<lambda>_. True)"
    unfolding probe_edit_permission_def probe_record_edit_def
    by (rule yields_bind_ok [where Q = "\<lambda>_. True"]) (auto intro: yields_weaken [OF yields_any_write] yields_ret)
  show ?thesis
    unfolding handle_existing_check_record_def Let_def
    using assms by (auto intro!: yields_ret yields_get_sys yields_bind [OF probe] simp: step_failed_def split: sum.splits)
qed

lemma yields_fit_missing:
  assumes "zones_fit zn qs p"
  shows "yields (zones_seen zn rs) (handle_missing_check_record env client addresses options r zid p report) (\<lambda>(_, p', _). zones_fit zn qs p')"
proof -
  have recheck: "yields (zones_seen zn rs) (timeout_at d (find_record env client zid rtype rname)) (\<lambda>_. True)" for d rtype rname
    by (rule yields_weaken [OF yields_timeout [OF yields_any_find]]) simp
  have create: "yields (zones_seen zn rs) (guarded (create_record env client zid payload)) (\<lambda>_. True)" for payload
    unfolding create_record_def by (rule yields_any_write)
  show ?thesis
    unfolding handle_missing_check_record_def
    using assms
    by (auto intro!: yields_ret yields_get_sys yields_bind [OF recheck] yields_bind [OF create] yields_fit_existing
        simp: step_failed_def split: sum.splits option.split)
qed

lemma yields_fit_inspect:
  assumes "names_zones env zn" and "ids_ok rs" and "r \<in> set rs" and "zones_fit zn rs p"
  shows "yields (zones_seen zn rs) (inspect_check_record env client r d p) (\<lambda>(p', _). zones_fit zn rs p')"
proof -
  have zone: "yields (zones_seen zn rs) (lookup_before d FsZoneLookup (resolve_zone_id env client (zone r) (zone_id r)))
      (\<lambda>x. \<forall>zid. x = Inr zid \<longrightarrow> zone_of zn r (lower zid))"
    by (rule yields_lookup_before) (rule yields_resolve_zone_id [OF no_writer assms(1-3)])
  have look: "yields (zones_seen zn rs) (lookup_before d FsRecordLookup (find_record env client zid rtype rname))
      (\<lambda>x. \<forall>a. x = Inr a \<longrightarrow> True)" for zid rtype rname
    by (rule yields_lookup_before, rule yields_weaken [OF yields_any_find]) simp
  show ?thesis
    unfolding inspect_check_record_def
    by (rule yields_bind [OF zone])
       (auto intro!: yields_ret yields_bind [OF look] zones_fit_resolved assms(4) split: sum.split)
qed

lemma yields_fit_check_record:
  assumes "names_zones env zn" and "ids_ok rs" and "r \<in> set rs" and "zones_fit zn rs p"
  shows "yields (zones_seen zn rs) (check_record env client addresses options r p report) (\<lambda>(_, p', _). zones_fit zn rs p')"
  unfolding check_record_def
  by (rule yields_bind [OF yields_fit_inspect [OF assms]])
     (auto intro!: yields_ret yields_fit_existing yields_fit_missing simp: step_failed_def
       split: sum.split check_lookup_error.split option.split)

lemma yields_fit_check_loop:
  assumes "names_zones env zn" and "ids_ok rs"
  shows "set qs \<subseteq> set rs \<Longrightarrow> zones_fit zn rs p \<Longrightarrow>
    yields (zones_seen zn rs) (check_loop env client addresses options qs p report) (\<lambda>(p', _). zones_fit zn rs p')"
proof (induction qs arbitrary: p report)
  case (Cons r qs)
  have "yields (zones_seen zn rs) (check_record env client addresses options r p report) (\<lambda>(_, p', _). zones_fit zn rs p')"
    using Cons.prems by (intro yields_fit_check_record assms) simp_all
  then show ?case
    unfolding check_loop.simps using Cons.IH Cons.prems(1)
    by (elim yields_bind) (auto intro: yields_ret)
qed (simp add: yields_ret)

lemma check_loop_zones_fit:
  assumes "names_zones env zn" and "ids_ok rs"
    and "timeout_at deadline (verify_token env client) s = (v, t)"
    and "timeout_at deadline (discover_required_addresses env up) t = (d, t')"
    and "check_records env client addresses options rs (proofs_for_config c) report t' = (Done (p, report'), s')"
    and "zones_true zn rs (zone_cache s)"
  shows "zones_fit zn rs p"
proof -
  have "zones_seen zn rs s" using assms(6) by (simp add: sees_def)
  then have "zones_seen zn rs t"
    using yieldsD [OF yields_timeout [OF yields_verify_token [OF no_writer]] assms(3)] by blast
  then have "zones_seen zn rs t'"
    using yieldsD [OF yields_timeout [OF yields_discover_required [OF no_writer]] assms(4)] by blast
  then have "zones_seen zn rs (t'\<lparr>control := \<lparr>stop_requested = False, mutation_in_flight = False\<rparr>\<rparr>)"
    by (simp add: sees_def)
  moreover have "check_loop env client addresses options rs (proofs_for_config c) report
      (t'\<lparr>control := \<lparr>stop_requested = False, mutation_in_flight = False\<rparr>\<rparr>) = (Done (p, report'), s')"
    using assms(5) by (simp add: check_records_def fresh_control_def modify_sys_apply)
  ultimately show ?thesis
    using yieldsD [OF yields_fit_check_loop [OF assms(1,2) order_refl zones_fit_start]] by fast
qed

text \<open>What the trace of a successful check holds for the identifier each zone was resolved to.\<close>

lemma check_success_writes:
  assumes "timers s = []"
    and "check_until env order up allow_create allow_edit_probe deadline s = (Done report, s')"
    and "check_success report"
  obtains new v t addresses t' options report0 p report1 where "trace s' = new @ trace s"
    "timeout_at deadline (verify_token env (up_cloudflare up)) s = (v, t)"
    "timeout_at deadline (discover_required_addresses env up) t = (Done (Some addresses), t')"
    "check_records env (up_cloudflare up) addresses options (records (up_config up)) (proofs_for_config (up_config up)) report0 t' =
      (Done (p, report1), s')"
    "\<forall>r \<in> set (records (up_config up)). \<exists>zid. map_of (zp_resolved p) (zone_for_record r) = Some zid \<and>
       (\<exists>e \<in> set new. zone_write env (up_cloudflare up) zid e)"
  using assms(2)
proof (cases rule: check_until_cases)
  case (early y)
  then show ?thesis using assms(3) by (simp add: check_success_def)
next
  case (late verified y t)
  then show ?thesis using assms(3) by (simp add: check_success_def)
next
  case (run verified t addresses t' report0 y)
  let ?rs = "records (up_config up)" and ?p = "proofs_for_config (up_config up)"
  obtain p report1 where p: "y = Done (p, report1)" "report = finalize_check_report order allow_edit_probe p report1"
    using iffD1 [OF run(6) refl] by blast
  have reads: "reads_only s t" "reads_only t t'" "timers t' = []"
    using verify_timeout_frames [OF run(1)] discovery_timeout_frames(1,2) [OF run(2)] assms(1) by auto
  then obtain n where n: "trace t' = n @ trace s"
    by (auto simp: reads_only_def elim!: addsE)
  let ?u = "t'\<lparr>control := \<lparr>stop_requested = False, mutation_in_flight = False\<rparr>\<rparr>"
  have "extends_proofs env (up_cloudflare up) ?rs ?u ?p s' p"
    using check_loop_extends [of env "up_cloudflare up" addresses _ ?rs ?p report0 ?u p report1 s' ?rs] run(5) reads(3) p(1)
    by (simp add: check_records_def fresh_control_def modify_sys_apply)
  then have ext: "extends_proofs env (up_cloudflare up) ?rs s ?p s' p"
    using extends_trans [OF extends_refl [of ?u n s]] n by simp
  have start: "set (zp_expected ?p) = zone_for_record ` set ?rs" "zp_proven_ids ?p = []"
    by (simp_all add: proofs_for_config_def)
  then have ok: "proofs_ok p" "zp_expected p = zp_expected ?p"
    using ext proofs_ok_start by (auto simp: extends_proofs_def)
  have "proofs_complete p"
    using assms(3) p(2)
    by (simp add: check_success_def finalize_check_report_def fold_push_check summarize_check_proofs_def)
  then have proved: "zone_proved p (zone_for_record r)" if "r \<in> set ?rs" for r
    using that proofs_complete_iff [OF ok(1)] ok(2) start(1) by simp
  from ext obtain new where new: "trace s' = new @ trace s"
      "\<forall>zid \<in> set (zp_proven_ids p). \<exists>e \<in> set new. zone_write env (up_cloudflare up) zid e"
    using start(2) unfolding extends_proofs_def by auto
  show ?thesis
    by (rule that [OF new(1) run(1,2) run(5) [unfolded p(1)]])
       (use proved new(2) in \<open>fastforce simp: zone_proved_def split: option.splits\<close>)
qed

text \<open>
  A changing request of a check in a zone, an edit probe or a creation, that the service accepted:
  its reply in the trace is a complete success.
\<close>

definition accepted_write :: "'w env \<Rightarrow> cloudflare_client \<Rightarrow> string \<Rightarrow> log_entry \<Rightarrow> bool" where
  "accepted_write env client zid e \<longleftrightarrow>
     ((\<exists>x. le_request e = probe_request client zid x) \<or> (\<exists>payload. le_request e = create_request client zid payload)) \<and>
     (\<exists>outcome x info. le_reply e = Some outcome \<and> accepted (ev_json_record env) outcome x info)"

lemma zone_write_accepted: "zone_write env client zid e \<Longrightarrow> accepted_write env client zid e"
  unfolding zone_write_def accepted_write_def by (blast dest: handle_accepted)

text \<open>
  C20: what a successful check has shown, if the documents of the service name the zone an
  identifier belongs to. For every configured record there is an identifier of its own zone, the
  one that belongs to the configured name and is the configured identifier if there is one, and
  during this check a changing request in the zone with that identifier, an edit probe or a
  creation, was sent and accepted. The proof of one zone never counts for another one.
\<close>

theorem check_success_proves_edit:
  assumes "names_zones env zn" and "validate parse (up_config up) = Inr ()"
    and "timers s = []" and "zones_true zn (records (up_config up)) (zone_cache s)"
    and "check_until env order up allow_create allow_edit_probe deadline s = (Done report, s')"
    and "check_success report"
  shows "\<exists>new. trace s' = new @ trace s \<and>
    (\<forall>r \<in> set (records (up_config up)). \<exists>zid. zn (lower zid) = lower (zone r) \<and>
       (\<forall>i. zone_id r = Some i \<longrightarrow> lower zid = lower i) \<and>
       (\<exists>e \<in> set new. accepted_write env (up_cloudflare up) zid e))"
proof -
  let ?rs = "records (up_config up)"
  have ids: "ids_ok ?rs" using assms(2) by (auto simp: validate_iff_valid intro: valid_config_ids)
  obtain new p addresses options report0 report1 v t t' where run: "trace s' = new @ trace s"
    "timeout_at deadline (verify_token env (up_cloudflare up)) s = (v, t)"
    "timeout_at deadline (discover_required_addresses env up) t = (Done (Some addresses), t')"
    "check_records env (up_cloudflare up) addresses options ?rs (proofs_for_config (up_config up)) report0 t' =
      (Done (p, report1), s')"
    "\<forall>r \<in> set ?rs. \<exists>zid. map_of (zp_resolved p) (zone_for_record r) = Some zid \<and>
       (\<exists>e \<in> set new. zone_write env (up_cloudflare up) zid e)"
    using assms(3,5,6) by (rule check_success_writes)
  have "zones_fit zn ?rs p"
    using check_loop_zones_fit [OF assms(1) ids run(2-4) assms(4)] .
  then show ?thesis
    using run(1,5) zone_write_accepted unfolding zones_fit_def zone_of_def by metis
qed

text \<open>The service at home has one zone.\<close>

lemma home_names: "names_zones (home_service rs) (\<lambda>_. ''example.com'')"
  by (auto simp: names_zones_def accepted_def home_service_def sample_service_def prompt_def scripted_def get_request_def
      ok_response_def ok_envelope_def)

theorem check_success_proves_edit_witness:
  "\<exists>zid. \<exists>e \<in> set (trace (snd (check_until (home_service [sample_dns_record]) rev home_updater False True probe_deadline home_sys))).
     accepted_write (home_service [sample_dns_record]) sample_client zid e"
proof -
  obtain report s' where run: "check_until (home_service [sample_dns_record]) rev home_updater False True probe_deadline home_sys =
    (Done report, s')" "check_success report"
    using home_check by blast
  have up: "up_cloudflare home_updater = sample_client" "validate sample_url_parser (up_config home_updater) = Inr ()"
    using shelf_valid by (simp_all add: home_updater_def shelf_updater_def)
  have "zones_true (\<lambda>_. ''example.com'') (records (up_config home_updater)) (zone_cache home_sys)"
    by (simp add: zones_true_def zone_of_def sample_record_def)
  then show ?thesis
    using check_success_proves_edit [OF home_names up(2) home_idle(1) _ run] run(1) up(1) by auto
qed

end
