(* ===== verification/Dns_Live.thy ===== *)
theory Dns_Live
  imports Dns_Refine
begin

text \<open>
  What the program achieves when its surroundings do their part. The contract \<open>dns_service\<close> lets every
  request fail; here \<open>responsive\<close> says that the service answers what it is asked about the
  configured records, each request within a latency, and \<open>good_provider\<close> that one address provider of a family
  works. Triples \<open>delivers\<close> carry the number of requests a computation needs: they prove that it
  ends with a result before every deadline around it. So a discovery needs only one good provider, a cycle
  with time for its requests succeeds, and the daemon keeps every configured record published.
\<close>

section \<open>Surroundings that do their part\<close>

text \<open>No shutdown signal comes.\<close>

definition undisturbed :: "'w env \<Rightarrow> bool" where
  "undisturbed env \<longleftrightarrow> (\<forall>r w. ev_signalled env r w = None)"

text \<open>A reply the client can read: it reports success and its body is within the client's limit.\<close>

definition answers :: "'a decoder \<Rightarrow> (http_response, string) result \<Rightarrow> 'a \<Rightarrow> result_info option \<Rightarrow> bool" where
  "answers decode outcome x info \<longleftrightarrow> accepted decode outcome x info \<and>
     (\<forall>response. outcome = Inr response \<longrightarrow> st_code (rs_status response) \<notin> {401, 403, 429} \<and>
        length (concat (rs_chunks response)) \<le> CF_MAX_RESPONSE_BYTES \<and>
        (\<forall>n. rs_content_length response = Some n \<longrightarrow> n \<le> CF_MAX_RESPONSE_BYTES))"

definition single_page :: "result_info option \<Rightarrow> bool" where
  "single_page info \<longleftrightarrow> (\<forall>i n. info = Some i \<longrightarrow> ri_total_pages i = Some n \<longrightarrow> n \<le> 1)"

text \<open>
  The service at \<open>host\<close> with the base path \<open>base\<close>: the zone of each configured record is there, once, and
  active; a lookup with at most one match has one page; a change of a configured record with a
  public address of its family is accepted; and every reply comes within \<open>L\<close>.
\<close>

definition answers_zones :: "'w env \<Rightarrow> string \<Rightarrow> string list \<Rightarrow> record_config list \<Rightarrow> bool" where
  "answers_zones env host base rs \<longleftrightarrow> (\<forall>r \<in> set rs. \<forall>w.
     case zone_id r of
       None \<Rightarrow> \<exists>zs info z. answers (ev_json_zones env) (fst (ev_respond env (get_request (ApiUrl host (base @ [''zones'']))
             [(''name'', zone r), (''page'', show_nat 1), (''per_page'', show_nat 50)]) w)) zs info \<and>
           filter (\<lambda>z. lower (zi_name z) = lower (zone r) \<and> lower (zi_status z) = ''active'') zs = [z] \<and>
           length zs < 50 \<and> single_page info
     | Some i \<Rightarrow> \<exists>z info. answers (ev_json_zone env)
             (fst (ev_respond env (get_request (ApiUrl host (base @ [''zones'', i])) []) w)) z info \<and>
           lower (zi_name z) = lower (zone r) \<and> lower (zi_id z) = lower i \<and> lower (zi_status z) = ''active'')"

definition answers_lookups :: "'w env \<Rightarrow> (string \<Rightarrow> string) \<Rightarrow> ('w \<Rightarrow> dns_db) \<Rightarrow> string \<Rightarrow> string list
    \<Rightarrow> record_config list \<Rightarrow> bool" where
  "answers_lookups env zn db host base rs \<longleftrightarrow> (\<forall>r \<in> set rs. \<forall>zid w.
     zone_of zn r (lower zid) \<longrightarrow> length (matching r (db w) (lower zid)) \<le> 1 \<longrightarrow>
     (\<exists>xs info. answers (ev_json_records env) (fst (ev_respond env
          (get_request (ApiUrl host (base @ [''zones'', zid, ''dns_records'']))
            [(''name.exact'', name r), (''type'', record_type_str (record_type r)), (''match'', ''all''),
             (''page'', show_nat 1), (''per_page'', show_nat 100)]) w)) xs info \<and> single_page info))"

definition answers_writes :: "'w env \<Rightarrow> (string \<Rightarrow> string) \<Rightarrow> ('w \<Rightarrow> dns_db) \<Rightarrow> string \<Rightarrow> string list
    \<Rightarrow> record_config list \<Rightarrow> bool" where
  "answers_writes env zn db host base rs \<longleftrightarrow> (\<forall>r \<in> set rs. \<forall>a zid w.
     zone_of zn r (lower zid) \<longrightarrow> may_publish r a \<longrightarrow>
     (\<forall>x. matching r (db w) (lower zid) = [x] \<longrightarrow> (\<exists>y info. answers (ev_json_record env) (fst (ev_respond env
          (json_request PATCH (ApiUrl host (base @ [''zones'', zid, ''dns_records'', dr_id x]))
            (PayloadBody (payload_for r a))) w)) y info)) \<and>
     (matching r (db w) (lower zid) = [] \<longrightarrow> create_if_missing r \<longrightarrow> (\<exists>y info. answers (ev_json_record env) (fst (ev_respond env
          (json_request POST (ApiUrl host (base @ [''zones'', zid, ''dns_records'']))
            (PayloadBody (payload_for r a))) w)) y info)))"

definition prompt :: "'w env \<Rightarrow> duration \<Rightarrow> bool" where
  "prompt env L \<longleftrightarrow> (\<forall>r w host segs. rq_url r = ApiUrl host segs \<longrightarrow>
     ev_clock env (snd (ev_respond env r w)) \<le> ev_clock env w + L)"

definition responsive :: "'w env \<Rightarrow> (string \<Rightarrow> string) \<Rightarrow> ('w \<Rightarrow> dns_db) \<Rightarrow> string \<Rightarrow> string list
    \<Rightarrow> record_config list \<Rightarrow> duration \<Rightarrow> bool" where
  "responsive env zn db host base rs L \<longleftrightarrow> faithful_timers env \<and> undisturbed env \<and> prompt env L \<and>
     answers_zones env host base rs \<and> answers_lookups env zn db host base rs \<and> answers_writes env zn db host base rs"

abbreviation served :: "'w env \<Rightarrow> (string \<Rightarrow> string) \<Rightarrow> ('w \<Rightarrow> dns_db) \<Rightarrow> cloudflare_client
    \<Rightarrow> record_config list \<Rightarrow> duration \<Rightarrow> bool" where
  "served env zn db client \<equiv> responsive env zn db (url_origin (cc_api_base client)) (base_path client)"

lemma servedD:
  assumes "responsive env zn db host base rs L"
  shows "prompt env L" "answers_zones env host base rs" "answers_lookups env zn db host base rs"
    "answers_writes env zn db host base rs" "faithful_timers env" "undisturbed env"
  using assms by (simp_all add: responsive_def)

lemma serviceD:
  assumes "dns_service env zn db"
  shows "only_writer env db" "lists_records env db" "names_zones env zn" "applies_writes env db" "distinct_ids (db w)"
  using assms by (simp_all add: dns_service_def)

text \<open>DNS as the owner keeps it: no duplicates of a configured record, and one that is missing may be created.\<close>

definition tidy :: "(string \<Rightarrow> string) \<Rightarrow> record_config list \<Rightarrow> dns_db \<Rightarrow> bool" where
  "tidy zn rs D \<longleftrightarrow> (\<forall>r \<in> set rs. \<forall>zk. zone_of zn r zk \<longrightarrow>
     length (matching r D zk) \<le> 1 \<and> (matching r D zk = [] \<longrightarrow> create_if_missing r))"

text \<open>The goal: every configured record has the address of the host in its family.\<close>

definition published :: "(string \<Rightarrow> string) \<Rightarrow> record_config list \<Rightarrow> (address_family \<Rightarrow> ip_addr) \<Rightarrow> dns_db \<Rightarrow> bool" where
  "published zn rs home D \<longleftrightarrow> (\<forall>r \<in> set rs. in_sync zn r (home (record_family (record_type r))) D)"

lemma spec_step_tidy:
  assumes "spec_step zn qs D D'" and "tidy zn rs D"
  shows "tidy zn rs D'"
  unfolding tidy_def
proof (intro ballI allI impI)
  fix r zk
  assume r: "r \<in> set rs" "zone_of zn r zk"
  then have old: "length (matching r D zk) \<le> 1" "matching r D zk = [] \<longrightarrow> create_if_missing r"
    using assms(2) by (auto simp: tidy_def)
  obtain q a where "spec_sync zn q a D D'" using assms(1) by (auto simp: spec_step_def)
  from spec_sync_matching [OF this, of r zk] old
  show "length (matching r D' zk) \<le> 1 \<and> (matching r D' zk = [] \<longrightarrow> create_if_missing r)" by auto
qed

lemma spec_steps_tidy: "spec_steps zn qs D D' \<Longrightarrow> tidy zn rs D \<Longrightarrow> tidy zn rs D'"
  by (induction rule: rtranclp_induct) (auto intro: spec_step_tidy)

section \<open>Triples with a number of requests\<close>

text \<open>
  \<open>delivers env L P n m Q\<close>: if every deadline around \<open>m\<close> leaves time for \<open>n\<close> requests of
  latency \<open>L\<close>, then \<open>m\<close> returns in that time, with a result that satisfies \<open>Q\<close> and the
  invariant \<open>P\<close> kept.
\<close>

definition delivers :: "'w env \<Rightarrow> duration \<Rightarrow> ('w sys \<Rightarrow> bool) \<Rightarrow> nat \<Rightarrow> ('w, 'a) io \<Rightarrow> ('a \<Rightarrow> bool) \<Rightarrow> bool" where
  "delivers env L P n m Q \<longleftrightarrow> (\<forall>s. P s \<longrightarrow> (\<forall>d \<in> set (timers s). now env s + n * L < d) \<longrightarrow>
     (\<exists>a s'. m s = (Done a, s') \<and> P s' \<and> Q a \<and> timers s' = timers s \<and>
        stop_requested (control s') = stop_requested (control s) \<and> now env s' \<le> now env s + n * L))"

lemma deliversD:
  assumes "delivers env L P n m Q" and "P s" and "\<And>d. d \<in> set (timers s) \<Longrightarrow> now env s + n * L < d"
  obtains a s' where "m s = (Done a, s')" "P s'" "Q a" "timers s' = timers s"
    "stop_requested (control s') = stop_requested (control s)" "now env s' \<le> now env s + n * L"
  using assms unfolding delivers_def by blast

lemma delivers_ret: "Q a \<Longrightarrow> delivers env L P n (ret a) Q"
  by (simp add: delivers_def ret_def)

lemma delivers_weaken: "delivers env L P n m Q \<Longrightarrow> (\<And>a. Q a \<Longrightarrow> Q' a) \<Longrightarrow> delivers env L P n m Q'"
  unfolding delivers_def by blast

lemma delivers_more:
  assumes "delivers env L P n m Q" and "n \<le> k"
  shows "delivers env L P k m Q"
proof -
  have "n * L \<le> k * L" using assms(2) by simp
  then show ?thesis using assms(1) unfolding delivers_def by (meson add_left_mono le_less_trans le_trans)
qed

lemma delivers_yields:
  assumes "delivers env L P n m Q" and "yields P m R"
  shows "delivers env L P n m (\<lambda>a. Q a \<and> R a)"
  unfolding delivers_def
proof (intro allI impI)
  fix s
  assume s: "P s" "\<forall>d \<in> set (timers s). now env s + n * L < d"
  then obtain a s' where a: "m s = (Done a, s')" "P s'" "Q a" "timers s' = timers s"
    "stop_requested (control s') = stop_requested (control s)" "now env s' \<le> now env s + n * L"
    using deliversD [OF assms(1)] by blast
  then show "\<exists>a s'. m s = (Done a, s') \<and> P s' \<and> (Q a \<and> R a) \<and> timers s' = timers s \<and>
      stop_requested (control s') = stop_requested (control s) \<and> now env s' \<le> now env s + n * L"
    using yieldsD [OF assms(2) a(1) s(1)] by blast
qed

lemma delivers_bind:
  assumes "delivers env L P n m Q" and "\<And>a. Q a \<Longrightarrow> delivers env L P k (f a) Q'"
  shows "delivers env L P (n + k) (bind_io m f) Q'"
  unfolding delivers_def
proof (intro allI impI)
  fix s
  assume s: "P s" "\<forall>d \<in> set (timers s). now env s + (n + k) * L < d"
  then have "now env s + n * L < d" if "d \<in> set (timers s)" for d
    using that by (fastforce simp: distrib_right)
  then obtain a t where a: "m s = (Done a, t)" "P t" "Q a" "timers t = timers s"
    "stop_requested (control t) = stop_requested (control s)" "now env t \<le> now env s + n * L"
    using deliversD [OF assms(1) s(1)] by blast
  have "now env t + k * L < d" if "d \<in> set (timers t)" for d
    using that s(2) a(4,6) by (fastforce simp: distrib_right)
  then obtain b s' where b: "f a t = (Done b, s')" "P s'" "Q' b" "timers s' = timers t"
    "stop_requested (control s') = stop_requested (control t)" "now env s' \<le> now env t + k * L"
    using deliversD [OF assms(2) [OF a(3)] a(2)] by blast
  show "\<exists>b s'. bind_io m f s = (Done b, s') \<and> P s' \<and> Q' b \<and> timers s' = timers s \<and>
      stop_requested (control s') = stop_requested (control s) \<and> now env s' \<le> now env s + (n + k) * L"
    using a b by (simp add: bind_io_def distrib_right)
qed

lemma delivers_bind_ok:
  assumes "delivers env L P n m (\<lambda>x. \<exists>a. x = Inr a \<and> Q a)" and "\<And>a. Q a \<Longrightarrow> delivers env L P k (f a) Q'"
  shows "delivers env L P (n + k) (bind_ok m f) Q'"
  unfolding bind_ok_def by (rule delivers_bind [OF assms(1)]) (use assms(2) in auto)

lemma delivers_then:
  assumes "delivers env L P n m Q" and "\<And>a. Q a \<Longrightarrow> delivers env L P 0 (f a) Q'"
  shows "delivers env L P n (bind_io m f) Q'"
  using delivers_bind [OF assms] by simp

lemma delivers_then_ok:
  assumes "delivers env L P n m (\<lambda>x. \<exists>a. x = Inr a \<and> Q a)" and "\<And>a. Q a \<Longrightarrow> delivers env L P 0 (f a) Q'"
  shows "delivers env L P n (bind_ok m f) Q'"
  using delivers_bind_ok [OF assms] by simp

lemma delivers_get_sys: "(\<And>s. P s \<Longrightarrow> delivers env L P n (f s) Q) \<Longrightarrow> delivers env L P n (bind_io get_sys f) Q"
  unfolding delivers_def by (simp add: get_sys_apply)

text \<open>The suspension point: a reply that comes before every deadline around is received.\<close>

lemma await_in_time:
  assumes "faithful_timers env" and "undisturbed env"
    and "\<And>d. d \<in> set (timers s) \<Longrightarrow> ev_clock env (snd (ev_respond env r (world s))) < d"
  shows "await env r s = (Done (fst (ev_respond env r (world s))),
     log_request env r Replied (snd (ev_respond env r (world s))) s)"
proof -
  have "\<not> n < length (timers s)" if "ev_expires env (timers s) r (world s) = Some (n, w')" for n w'
    using assms(1,3) that unfolding faithful_timers_def by (meson not_le nth_mem)
  then show ?thesis
    using assms(2) by (auto simp: await_def complete_request_def undisturbed_def split: option.split prod.split)
qed

lemma answers_handled:
  assumes "answers decode outcome x info"
  shows "handle_response client decode op outcome = Inr \<lparr>ar_result = x, ar_result_info = info\<rparr>"
proof -
  obtain response e where r: "outcome = Inr response" "st_success (rs_status response)" "rs_chunk_error response = None"
    "decode (concat (rs_chunks response)) = Inr e" "ae_success e" "ae_result e = Some x" "ae_result_info e = info"
    using assms by (auto simp: answers_def accepted_def)
  have "limited_body CF_MAX_RESPONSE_BYTES response = Inr (concat (rs_chunks response))"
    using assms r(1,3) collect_chunks_fits [of "[]" "rs_chunks response" CF_MAX_RESPONSE_BYTES]
    by (auto simp: answers_def limited_body_def split: option.split)
  then show ?thesis
    using r assms by (simp add: handle_response_cases classify_response_Inr answers_def)
qed

lemma delivers_send:
  assumes "dns_service env zn db" and "served env zn db client rs L"
    and "\<And>w. db w = D \<Longrightarrow> \<exists>x info. answers decode (fst (ev_respond env (get_request (ApiUrl host segs) q) w)) x info \<and> Q x info"
  shows "delivers env L (sees db zn rs D) 1 (send env client decode (get_request (ApiUrl host segs) q) op)
    (\<lambda>r. \<exists>response. r = Inr response \<and> Q (ar_result response) (ar_result_info response))"
  unfolding delivers_def
proof (intro allI impI)
  fix s
  assume s: "sees db zn rs D s" "\<forall>d \<in> set (timers s). now env s + 1 * L < d"
  let ?r = "get_request (ApiUrl host segs) q"
  have clock: "ev_clock env (snd (ev_respond env ?r (world s))) \<le> now env s + L"
    using servedD(1) [OF assms(2)] by (auto simp: prompt_def now_def get_request_def)
  have aw: "await env ?r s = (Done (fst (ev_respond env ?r (world s))), log_request env ?r Replied (snd (ev_respond env ?r (world s))) s)"
    using s(2) clock by (intro await_in_time [OF servedD(5,6) [OF assms(2)]]) fastforce
  obtain x info where x: "answers decode (fst (ev_respond env ?r (world s))) x info" "Q x info"
    using assms(3) [of "world s"] s(1) unfolding sees_def by blast
  have "send env client decode ?r op s = (Done (Inr \<lparr>ar_result = x, ar_result_info = info\<rparr>),
      log_request env ?r Replied (snd (ev_respond env ?r (world s))) s)"
    by (simp add: send_def bind_io_def aw ret_def answers_handled [OF x(1)])
  then show "\<exists>a s'. send env client decode ?r op s = (Done a, s') \<and> sees db zn rs D s' \<and>
      (\<exists>response. a = Inr response \<and> Q (ar_result response) (ar_result_info response)) \<and> timers s' = timers s \<and>
      stop_requested (control s') = stop_requested (control s) \<and> now env s' \<le> now env s + 1 * L"
    using x(2) clock await_get_sees(1) [OF serviceD(1) [OF assms(1)] aw s(1)] by (auto simp: now_def)
qed


section \<open>Zones and records\<close>

abbreviation is_active :: "string \<Rightarrow> zone_info \<Rightarrow> bool" where
  "is_active zname z \<equiv> lower (zi_name z) = lower zname \<and> lower (zi_status z) = ''active''"

lemma lower_active [simp]: "lower ''active'' = ''active''"
  by (simp add: to_ascii_lowercase_def to_lower_def)

lemma filter_single: "filter P xs = [x] \<Longrightarrow> x \<in> set xs \<and> P x"
  by (drule arg_cong [of _ _ set]) auto

lemma scan_zones_none:
  "filter (is_active zname) zs = [] \<Longrightarrow> \<exists>i. scan_zones client zname exact inactive zs = Inr (exact, i)"
  by (induction zs arbitrary: inactive) (auto simp: eq_ignore_ascii_case_def split: if_splits)

lemma scan_zones_one:
  "filter (is_active zname) zs = [z] \<Longrightarrow> \<exists>i. scan_zones client zname None inactive zs = Inr (Some (zi_id z), i)"
  by (induction zs arbitrary: inactive)
     (auto simp: eq_ignore_ascii_case_def intro: scan_zones_none split: if_splits)

lemma single_page_last: "single_page info \<Longrightarrow> k < n \<Longrightarrow> \<not> has_next_page 1 k n info"
  by (auto simp: single_page_def has_next_page_def split: option.split)

lemma delivers_cache:
  assumes "ids_ok rs" and "r \<in> set rs" and "zone_of zn r (lower zid)"
  shows "delivers env L (sees db zn rs D) n (bind_io (cache_zone (record_zone_key r) zid) (\<lambda>_. ret (Inr zid)))
    (\<lambda>x. \<exists>zid. x = Inr zid \<and> zone_of zn r (lower zid))"
proof -
  note cached = yieldsD [OF yields_cache_zone [OF assms], unfolded cache_zone_def modify_sys_def, OF refl]
  show ?thesis
    using cached assms(3) by (auto simp: delivers_def cache_zone_def modify_sys_apply ret_def now_def)
qed

lemma delivers_zone_pages:
  assumes "dns_service env zn db" and "served env zn db client rs L" and "ids_ok rs" and "r \<in> set rs" and "zone_id r = None"
  shows "delivers env L (sees db zn rs D) 1 (zone_pages env client (zone r) None None MAX_PAGES)
    (\<lambda>x. \<exists>zid. x = Inr zid \<and> zone_of zn r (lower zid))"
proof -
  let ?q = "[(''name'', zone r), (''page'', show_nat 1), (''per_page'', show_nat ZONE_PAGE_SIZE)]"
  let ?ok = "\<lambda>zs info. \<exists>z. filter (is_active (zone r)) zs = [z] \<and> zn (lower (zi_id z)) = lower (zi_name z) \<and>
      length zs < ZONE_PAGE_SIZE \<and> single_page info"
  have "MAX_PAGES = Suc 99" "MAX_PAGES - 99 = 1" by (simp_all add: MAX_PAGES_def)
  note first_page = zone_pages.simps(2) [of env client "zone r" None None 99, unfolded this(2), folded this(1)]
  have reply: "\<exists>zs info. answers (ev_json_zones env) (fst (ev_respond env (get_request (endpoint client [''zones'']) ?q) w)) zs info \<and>
      ?ok zs info" for w
  proof -
    obtain zs info z where zs: "answers (ev_json_zones env) (fst (ev_respond env (get_request (endpoint client [''zones'']) ?q) w)) zs info"
      "filter (is_active (zone r)) zs = [z]" "length zs < ZONE_PAGE_SIZE" "single_page info"
      using servedD(2) [OF assms(2)] assms(4,5) unfolding answers_zones_def endpoint_path ZONE_PAGE_SIZE_def by fastforce
    moreover have "z \<in> set zs" using filter_single [OF zs(2)] by simp
    then have "zn (lower (zi_id z)) = lower (zi_name z)"
      using zs(1) serviceD(3) [OF assms(1)] unfolding names_zones_def answers_def endpoint_path by blast
    ultimately show ?thesis by blast
  qed
  have send: "delivers env L (sees db zn rs D) 1 (send env client (ev_json_zones env) (zone_page_request client (zone r) 1) ''looking up a zone'')
      (\<lambda>x. \<exists>response. x = Inr response \<and> ?ok (ar_result response) (ar_result_info response))"
    using delivers_send [OF assms(1,2) reply [unfolded endpoint_path]] by (simp add: zone_page_request_def endpoint_path)
  show ?thesis
    unfolding first_page
  proof (rule delivers_then_ok [OF send], elim exE conjE)
    fix response z
    assume z: "filter (is_active (zone r)) (ar_result response) = [z]" "zn (lower (zi_id z)) = lower (zi_name z)"
      "length (ar_result response) < ZONE_PAGE_SIZE" "single_page (ar_result_info response)"
    obtain i where i: "scan_zones client (zone r) None None (ar_result response) = Inr (Some (zi_id z), i)"
      using scan_zones_one [OF z(1)] by blast
    have zone: "zone_of zn r (lower (zi_id z))"
      using filter_single [OF z(1)] z(2) assms(5) by (simp add: zone_of_def)
    show "delivers env L (sees db zn rs D) 0
        (case scan_zones client (zone r) None None (ar_result response) of
           Inl e \<Rightarrow> ret (Inl e)
         | Inr (exact', inactive') \<Rightarrow>
             if has_next_page 1 (length (ar_result response)) ZONE_PAGE_SIZE (ar_result_info response)
             then zone_pages env client (zone r) exact' inactive' 99
             else (case exact' of None \<Rightarrow> ret (Inl (no_zone (zone r) inactive'))
               | Some zid \<Rightarrow> bind_io (cache_zone (named_key (zone r)) zid) (\<lambda>_. ret (Inr zid))))
        (\<lambda>x. \<exists>zid. x = Inr zid \<and> zone_of zn r (lower zid))"
      using delivers_cache [OF assms(3,4) zone] assms(5) single_page_last [OF z(4,3)]
      by (simp add: i record_zone_key_def)
  qed
qed

lemma delivers_resolve_explicit:
  assumes "dns_service env zn db" and "served env zn db client rs L" and "ids_ok rs" and "r \<in> set rs" and "zone_id r = Some i"
  shows "delivers env L (sees db zn rs D) 1 (resolve_explicit_zone_id env client (zone r) i)
    (\<lambda>x. \<exists>zid. x = Inr zid \<and> zone_of zn r (lower zid))"
proof -
  let ?ok = "\<lambda>z (info :: result_info option). lower (zi_name z) = lower (zone r) \<and> lower (zi_id z) = lower i \<and>
      lower (zi_status z) = ''active'' \<and> zn (lower (zi_id z)) = lower (zi_name z)"
  have key: "explicit_key (zone r) i = record_zone_key r"
    using assms(5) by (simp add: record_zone_key_def)
  have reply: "\<exists>z info. answers (ev_json_zone env) (fst (ev_respond env (get_request (endpoint client [''zones'', i]) []) w)) z info \<and>
      ?ok z info" for w
  proof -
    obtain z info where z: "answers (ev_json_zone env) (fst (ev_respond env (get_request (endpoint client [''zones'', i]) []) w)) z info"
      "lower (zi_name z) = lower (zone r)" "lower (zi_id z) = lower i" "lower (zi_status z) = ''active''"
      using servedD(2) [OF assms(2)] assms(4,5) unfolding answers_zones_def endpoint_path by fastforce
    moreover have "zn (lower (zi_id z)) = lower (zi_name z)"
      using z(1) serviceD(3) [OF assms(1)] unfolding names_zones_def answers_def endpoint_path by blast
    ultimately show ?thesis by blast
  qed
  have send: "delivers env L (sees db zn rs D) 1
      (send env client (ev_json_zone env) (get_request (endpoint client [''zones'', i]) []) ''verifying an explicit zone ID'')
      (\<lambda>x. \<exists>response. x = Inr response \<and> ?ok (ar_result response) (ar_result_info response))"
    using delivers_send [OF assms(1,2) reply [unfolded endpoint_path]] by (simp add: endpoint_path)
  have checked: "delivers env L (sees db zn rs D) 0
      (case check_explicit_zone client (zone r) i (ar_result response) of
         Inl e \<Rightarrow> ret (Inl e)
       | Inr _ \<Rightarrow> bind_io (cache_zone (record_zone_key r) i) (\<lambda>_. ret (Inr i)))
      (\<lambda>x. \<exists>zid. x = Inr zid \<and> zone_of zn r (lower zid))" if "?ok (ar_result response) info" for response info
  proof -
    have "check_explicit_zone client (zone r) i (ar_result response) = Inr ()" "zone_of zn r (lower i)"
      using that assms(5) by (auto simp: check_explicit_zone_def zone_of_def eq_ignore_ascii_case_def)
    then show ?thesis using delivers_cache [OF assms(3,4)] by simp
  qed
  note miss = delivers_then_ok [OF send checked]
  show ?thesis
    unfolding resolve_explicit_zone_id_def key
    by (intro delivers_get_sys) (auto split: option.split intro!: delivers_ret miss [unfolded One_nat_def] dest: sees_hit [OF assms(4)])
qed

lemma delivers_resolve:
  assumes "dns_service env zn db" and "served env zn db client rs L" and "ids_ok rs" and "r \<in> set rs"
  shows "delivers env L (sees db zn rs D) 1 (resolve_zone_id env client (zone r) (zone_id r))
    (\<lambda>x. \<exists>zid. x = Inr zid \<and> zone_of zn r (lower zid))"
proof (cases "zone_id r")
  case None
  then have key: "named_key (zone r) = record_zone_key r" by (simp add: record_zone_key_def)
  show ?thesis
    unfolding None resolve_zone_id_def resolve_named_zone_id_def key option.case
    using delivers_zone_pages [OF assms None]
    by (intro delivers_get_sys) (auto intro!: delivers_ret dest: sees_hit [OF assms(4)] split: option.split)
next
  case (Some i)
  then show ?thesis
    using delivers_resolve_explicit [OF assms Some] by (simp add: resolve_zone_id_def)
qed

lemma scan_records_short: "length xs \<le> 1 \<Longrightarrow> \<exists>e. scan_records rtype rname None xs = Inr e"
  by (cases xs) auto

lemma delivers_find_record:
  assumes "dns_service env zn db" and "served env zn db client rs L" and "r \<in> set rs"
    and "zone_of zn r (lower zid)" and "length (matching r D (lower zid)) \<le> 1"
  shows "delivers env L (sees db zn rs D) 1 (find_record env client zid (record_type_str (record_type r)) (name r))
    (\<lambda>x. \<exists>e. x = Inr e \<and> matching r D (lower zid) = (case e of None \<Rightarrow> [] | Some d \<Rightarrow> [d]))"
proof -
  let ?t = "record_type_str (record_type r)" and ?n = "name r"
  let ?q = "[(''name.exact'', ?n), (''type'', ?t), (''match'', ''all''), (''page'', show_nat 1), (''per_page'', show_nat RECORD_PAGE_SIZE)]"
  let ?u = "endpoint client [''zones'', zid, ''dns_records'']"
  let ?ok = "\<lambda>(xs :: dns_record list) info. length xs \<le> 1 \<and> single_page info"
  have "MAX_PAGES = Suc 99" "MAX_PAGES - 99 = 1" by (simp_all add: MAX_PAGES_def)
  note first_page = record_pages.simps(2) [of env client zid ?t ?n None 99, unfolded this(2), folded this(1)]
  have reply: "\<exists>xs info. answers (ev_json_records env) (fst (ev_respond env (get_request ?u ?q) w)) xs info \<and> ?ok xs info"
    if w: "db w = D" for w
  proof -
    obtain xs info where xs: "answers (ev_json_records env) (fst (ev_respond env (get_request ?u ?q) w)) xs info" "single_page info"
      using servedD(3) [OF assms(2)] assms(3-5) w unfolding answers_lookups_def endpoint_path RECORD_PAGE_SIZE_def by blast
    have "xs = take RECORD_PAGE_SIZE (drop ((1 - 1) * RECORD_PAGE_SIZE) (matching r D (lower zid)))"
      using lists_recordsD [OF serviceD(2) [OF assms(1)] order_refl, unfolded record_page_request_def,
          OF answers_handled [OF xs(1)]] w by (simp add: matching_def has_key_matches)
    then have "length xs \<le> 1" using assms(5) by simp
    then show ?thesis using xs by blast
  qed
  have "delivers env L (sees db zn rs D) 1 (send env client (ev_json_records env) (record_page_request client zid ?t ?n 1) ''looking up a DNS record'')
      (\<lambda>x. \<exists>response. x = Inr response \<and> ?ok (ar_result response) (ar_result_info response))"
    using delivers_send [OF assms(1,2) reply [unfolded endpoint_path]] by (simp add: record_page_request_def endpoint_path)
  then have send: "delivers env L (sees db zn rs D) 1
      (send_in_zone env client (ev_json_records env) (record_page_request client zid ?t ?n 1) ''looking up a DNS record'' zid)
      (\<lambda>x. \<exists>response. x = Inr response \<and> ?ok (ar_result response) (ar_result_info response))"
    unfolding send_in_zone_def by (rule delivers_then) (auto intro!: delivers_ret)
  have "delivers env L (sees db zn rs D) 1 (find_record env client zid ?t ?n) (\<lambda>x. \<exists>e. x = Inr e)"
    unfolding find_record_def first_page
  proof (rule delivers_then_ok [OF send])
    fix response
    assume "?ok (ar_result response) (ar_result_info response)"
    then obtain e where "scan_records ?t ?n None (ar_result response) = Inr e"
      "\<not> has_next_page 1 (length (ar_result response)) RECORD_PAGE_SIZE (ar_result_info response)"
      using scan_records_short single_page_last [of _ "length (ar_result response)" RECORD_PAGE_SIZE]
      by (force simp: RECORD_PAGE_SIZE_def)
    then show "delivers env L (sees db zn rs D) 0 (case scan_records ?t ?n None (ar_result response) of
          Inl e \<Rightarrow> ret (Inl e)
        | Inr e \<Rightarrow> if has_next_page 1 (length (ar_result response)) RECORD_PAGE_SIZE (ar_result_info response)
            then record_pages env client zid ?t ?n e 99 else ret (Inr e)) (\<lambda>x. \<exists>e. x = Inr e)"
      by (auto intro: delivers_ret)
  qed
  from delivers_yields [OF this yields_find_record [OF serviceD(1,2) [OF assms(1)]]] show ?thesis
    by (rule delivers_weaken) (auto split: option.split)
qed

section \<open>Plans and records\<close>

lemma delivers_at_stage:
  "delivers env L P n m (\<lambda>x. \<exists>a. x = Inr a \<and> Q a) \<Longrightarrow> delivers env L P n (at_stage st m) (\<lambda>x. \<exists>a. x = Inr a \<and> Q a)"
  unfolding at_stage_def by (erule delivers_then) (auto intro: delivers_ret)

lemma delivers_plan_record:
  assumes "dns_service env zn db" and "served env zn db client rs L" and "ids_ok rs" and "r \<in> set rs" and "tidy zn rs D"
  shows "delivers env L (sees db zn rs D) 3 (plan_record env client r a)
    (\<lambda>x. \<exists>plan. x = Inr plan \<and> plan_true zn r a D plan)"
proof -
  let ?found = "\<lambda>zid e. matching r D (lower zid) = (case e of None \<Rightarrow> [] | Some d \<Rightarrow> [d])"
  have zone: "delivers env L (sees db zn rs D) 1 (at_stage FsZoneLookup (resolve_zone_id env client (zone r) (zone_id r)))
      (\<lambda>x. \<exists>zid. x = Inr zid \<and> zone_of zn r (lower zid))"
    by (rule delivers_at_stage) (rule delivers_resolve [OF assms(1-4)])
  have look: "delivers env L (sees db zn rs D) 1
      (at_stage FsRecordLookup (find_record env client zid (record_type_str (record_type r)) (name r)))
      (\<lambda>x. \<exists>e. x = Inr e \<and> ?found zid e)" if "zone_of zn r (lower zid)" for zid
    using delivers_find_record [OF assms(1,2,4) that, of D] assms(4,5) that
    by (intro delivers_at_stage) (auto simp: tidy_def)
  have rest: "delivers env L (sees db zn rs D) 1
      (case e of
         Some d \<Rightarrow> ret (Inr (plan_existing_record r a zid d))
       | None \<Rightarrow> if \<not> create_if_missing r
           then ret (Inl (FsRecordLookup, RecordNotFound (record_type_str (record_type r)) (name r)))
           else bind_ok (at_stage FsRecordLookup (find_record env client zid (record_type_str (record_type r)) (name r)))
             (\<lambda>rechecked. ret (Inr (case rechecked of Some d \<Rightarrow> plan_existing_record r a zid d
                | None \<Rightarrow> PlanCreate zid (payload_for r a)))))
      (\<lambda>x. \<exists>plan. x = Inr plan)" if zid: "zone_of zn r (lower zid)" and e: "?found zid e" for zid e
  proof (cases e)
    case None
    then have "create_if_missing r" using assms(4,5) zid e by (auto simp: tidy_def)
    moreover have "delivers env L (sees db zn rs D) 1
        (bind_ok (at_stage FsRecordLookup (find_record env client zid (record_type_str (record_type r)) (name r)))
          (\<lambda>rechecked. ret (Inr (case rechecked of Some d \<Rightarrow> plan_existing_record r a zid d
             | None \<Rightarrow> PlanCreate zid (payload_for r a))))) (\<lambda>x. \<exists>plan. x = Inr plan)"
      by (rule delivers_then_ok [OF look [OF zid]]) (simp add: delivers_ret)
    ultimately show ?thesis using None by simp
  qed (simp add: delivers_ret)
  have "delivers env L (sees db zn rs D) (1 + (1 + 1)) (plan_record env client r a) (\<lambda>x. \<exists>plan. x = Inr plan)"
    unfolding plan_record_def using rest by (intro delivers_bind_ok [OF zone] delivers_bind_ok [OF look])
  then have "delivers env L (sees db zn rs D) 3 (plan_record env client r a) (\<lambda>x. \<exists>plan. x = Inr plan)"
    by (simp add: numeral_3_eq_3)
  from delivers_yields [OF this yields_plan_record [OF assms(1,3,4)]] show ?thesis
    by (rule delivers_weaken) blast
qed

lemma delivers_timeout:
  assumes "delivers env L (sees db zn rs D) n m Q" and "sees db zn rs D s" and "timers s = []" and "now env s + n * L < d"
  obtains a s' where "timeout_at d m s = (Done (Some a), s')" "Q a" "sees db zn rs D s'" "timers s' = []"
    "stop_requested (control s') = stop_requested (control s)" "now env s' \<le> now env s + n * L"
proof -
  obtain a t where "m (s\<lparr>timers := [d]\<rparr>) = (Done a, t)" "sees db zn rs D t" "Q a"
    "stop_requested (control t) = stop_requested (control s)" "now env t \<le> now env s + n * L"
    by (rule deliversD [OF assms(1), of "s\<lparr>timers := [d]\<rparr>"]) (use assms in \<open>auto simp: now_def\<close>)
  then show ?thesis
    using assms(3) by (intro that [of a "t\<lparr>timers := []\<rparr>"]) (auto simp: timeout_at_def now_def)
qed

text \<open>A guarded write that the service accepts.\<close>

lemma guarded_write_delivers:
  assumes "served env zn db client rs L" and "timers s = []" and "rq_url q = ApiUrl host segs"
    and "answers (ev_json_record env) (fst (ev_respond env q (world s))) y info"
  shows "\<exists>s'. guarded (send_record env client q op zid) s = (Done (Inr y), s') \<and> timers s' = [] \<and>
    stop_requested (control s') = stop_requested (control s) \<and> now env s' \<le> now env s + L"
proof -
  have "await env q (set_in_flight True s) = (Done (fst (ev_respond env q (world s))),
      log_request env q Replied (snd (ev_respond env q (world s))) (set_in_flight True s))"
    using await_in_time [OF servedD(5,6) [OF assms(1)], of "set_in_flight True s" q] assms(2) by simp
  moreover have "ev_clock env (snd (ev_respond env q (world s))) \<le> now env s + L"
    using servedD(1) [OF assms(1)] assms(3) by (simp add: prompt_def now_def)
  ultimately show ?thesis
    using assms(2) answers_handled [OF assms(4)]
    by (simp add: guarded_def send_record_def send_in_zone_def send_def bind_ok_def bind_io_def ret_def now_def)
qed

lemma update_request_url: "rq_url (update_request client zid rid p) =
    ApiUrl (url_origin (cc_api_base client)) (base_path client @ [''zones'', zid, ''dns_records'', rid])"
  by (simp add: update_request_def json_request_def endpoint_path)

lemma create_request_url: "rq_url (create_request client zid p) =
    ApiUrl (url_origin (cc_api_base client)) (base_path client @ [''zones'', zid, ''dns_records''])"
  by (simp add: create_request_def json_request_def endpoint_path)

lemma execute_delivers:
  assumes "served env zn db client rs L" and "r \<in> set rs" and "may_publish r a"
    and "timers s = []" and "sees db zn rs D s" and "plan_true zn r a D plan"
  shows "\<exists>o' s'. execute_record_plan env client plan s = (Done (Inr o'), s') \<and> timers s' = [] \<and>
    stop_requested (control s') = stop_requested (control s) \<and> now env s' \<le> now env s + L"
proof -
  have D: "db (world s) = D" using assms(5) by (simp add: sees_def)
  note writes = servedD(4) [OF assms(1), unfolded answers_writes_def, rule_format, OF assms(2) _ assms(3), of _ "world s", unfolded D]
  show ?thesis
  proof (cases plan)
    case PlanUnchanged
    then show ?thesis using assms(4) by (simp add: execute_record_plan_def ret_def)
  next
    case (PlanUpdate zid rid p)
    then obtain y info where "answers (ev_json_record env) (fst (ev_respond env (update_request client zid rid p) (world s))) y info"
      using assms(6) writes by (fastforce simp: update_request_def endpoint_path)
    then obtain s' where "guarded (send_record env client (update_request client zid rid p) ''updating a DNS record'' zid) s = (Done (Inr y), s')"
      "timers s' = []" "stop_requested (control s') = stop_requested (control s)" "now env s' \<le> now env s + L"
      using guarded_write_delivers [OF assms(1,4) update_request_url] by blast
    then show ?thesis
      using PlanUpdate by (simp add: execute_record_plan_def at_stage_def update_record_def bind_ok_def bind_io_def ret_def)
  next
    case (PlanCreate zid p)
    then obtain y info where "answers (ev_json_record env) (fst (ev_respond env (create_request client zid p) (world s))) y info"
      using assms(6) writes by (fastforce simp: create_request_def endpoint_path)
    then obtain s' where "guarded (send_record env client (create_request client zid p) ''creating a DNS record'' zid) s = (Done (Inr y), s')"
      "timers s' = []" "stop_requested (control s') = stop_requested (control s)" "now env s' \<le> now env s + L"
      using guarded_write_delivers [OF assms(1,4) create_request_url] by blast
    then show ?thesis
      using PlanCreate by (simp add: execute_record_plan_def at_stage_def create_record_def bind_ok_def bind_io_def ret_def)
  qed
qed

lemma sync_record_delivers:
  assumes "dns_service env zn db" and "served env zn db client rs L" and "ids_ok rs" and "r \<in> set rs" and "tidy zn rs D"
    and "may_publish r a" and "timers s = []" and "sees db zn rs D s" and "now env s + 4 * L < deadline"
  obtains o' s' where "sync_record env client deadline r a s = (Done (Some (Inr o')), s')"
    "stop_requested (control s') = stop_requested (control s)" "now env s' \<le> now env s + 4 * L" "timers s' = []"
proof -
  obtain x t where x: "timeout_at deadline (plan_record env client r a) s = (Done (Some x), t)"
    "\<exists>plan. x = Inr plan \<and> plan_true zn r a D plan" "sees db zn rs D t" "timers t = []"
    "stop_requested (control t) = stop_requested (control s)" "now env t \<le> now env s + 3 * L"
    by (rule delivers_timeout [OF delivers_plan_record [OF assms(1-5), of a] assms(8,7), of deadline]) (use assms(9) in simp)
  then obtain plan where plan: "x = Inr plan" "plan_true zn r a D plan" by blast
  obtain o' s' where ex: "execute_record_plan env client plan t = (Done (Inr o'), s')" "timers s' = []"
    "stop_requested (control s') = stop_requested (control t)" "now env s' \<le> now env t + L"
    using execute_delivers [OF assms(2,4,6) x(4,3) plan(2)] by blast
  have "now env t < deadline" using x(6) assms(9) by simp
  then have "sync_record env client deadline r a s = (Done (Some (Inr o')), s')"
    using x(1) plan(1) ex(1) by (simp add: sync_record_def bind_io_def get_sys_def ret_def)
  then show ?thesis
    using that ex(2-4) x(5,6) by simp
qed

section \<open>Cycles\<close>

lemma cycle_records_deliver:
  assumes "dns_service env zn db" and "served env zn db client rs L" and "ids_ok rs"
    and public: "\<And>r. r \<in> set rs \<Longrightarrow> \<exists>a. address_for_record addresses r = Inr a \<and> may_publish r a"
  shows "set qs \<subseteq> set rs \<Longrightarrow> sees db zn rs D s \<Longrightarrow> distinct_ids D \<Longrightarrow> tidy zn rs D \<Longrightarrow> timers s = [] \<Longrightarrow>
    \<not> stop_requested (control s) \<Longrightarrow> now env s + length qs * (4 * L) < deadline \<Longrightarrow> cycle_success report \<Longrightarrow>
    \<exists>report' s'. cycle_records env client deadline addresses qs report s = (Done report', s') \<and> cycle_success report'"
proof (induction qs arbitrary: report s D)
  case Nil
  then show ?case by (simp add: ret_def)
next
  case (Cons r qs)
  have r: "r \<in> set rs" using Cons.prems(1) by simp
  obtain a where a: "address_for_record addresses r = Inr a" "may_publish r a" using public [OF r] by blast
  have time: "now env s + 4 * L < deadline" using Cons.prems(7) by simp
  obtain o' t where t: "sync_record env client deadline r a s = (Done (Some (Inr o')), t)"
    "stop_requested (control t) = stop_requested (control s)" "now env t \<le> now env s + 4 * L" "timers t = []"
    by (rule sync_record_delivers [OF assms(1-3) r Cons.prems(4) a(2) Cons.prems(5,2) time])
  obtain D' where D': "sees db zn rs D' t" "spec_steps zn [r] D D'"
    using sync_record_refines [OF assms(1,3) r a(2) Cons.prems(5,2,3) t(1)] by blast
  have "cycle_success (tally o' report)"
    using Cons.prems(8) by (cases o') (simp_all add: cycle_success_def tally_def)
  then have "\<exists>report' s'. cycle_records env client deadline addresses qs (tally o' report) t = (Done report', s') \<and> cycle_success report'"
    using Cons.prems(1,6,7) t(2-4) D'(1) spec_steps_distinct_ids [OF D'(2) Cons.prems(3)] spec_steps_tidy [OF D'(2) Cons.prems(4)]
    by (intro Cons.IH [of D' t]) auto
  then show ?case
    using Cons.prems(6) a(1) t(1) by (simp add: cycle_records_step)
qed

section \<open>Discovery\<close>

text \<open>
  What the client reads from the reply of a provider. The providers of a family are good for
  \<open>home\<close> when none of them is ever read as another address and one of them always answers in less than
  the given time; the others may fail, answer nonsense or hang.
\<close>

definition reads :: "'w env \<Rightarrow> address_family \<Rightarrow> string \<Rightarrow> 'w \<Rightarrow> (ip_addr, provider_error) result" where
  "reads env family p w =
     (case fst (ev_respond env (get_request (ProviderUrl p) []) w) of
        Inl e \<Rightarrow> Inl (Request e)
      | Inr response \<Rightarrow> bind_res (provider_body response) (\<lambda>body. parse_provider_response body family))"

definition good_providers :: "'w env \<Rightarrow> address_family \<Rightarrow> ip_addr \<Rightarrow> duration \<Rightarrow> string list \<Rightarrow> bool" where
  "good_providers env family home limit ps \<longleftrightarrow>
     (\<forall>p \<in> set ps. \<forall>w a. reads env family p w = Inr a \<longrightarrow> a = home) \<and>
     (\<exists>p \<in> set ps. \<forall>w. reads env family p w = Inr home \<and>
        ev_clock env (snd (ev_respond env (get_request (ProviderUrl p) []) w)) < ev_clock env w + limit)"

lemma attempt_ends:
  assumes "late_by env \<delta>" and "faithful_timers env" and "undisturbed env"
    and "now env s \<le> d" and "\<And>d'. d' \<in> set (timers s) \<Longrightarrow> d + \<delta> < d'"
  obtains y t where "timeout_at d (query_provider env p family) s = (Done y, t)"
    "y = None \<or> y = Some (reads env family p (world s))" "stop_requested (control t) = stop_requested (control s)"
    "ev_clock env (snd (ev_respond env (get_request (ProviderUrl p) []) (world s))) < d \<longrightarrow> y = Some (reads env family p (world s))"
    "timers t = timers s"
proof -
  let ?g = "get_request (ProviderUrl p) []" and ?ts = "d # timers s"
  obtain x t where x: "timeout_at d (query_provider env p family) s = (x, t)"
    by (cases "timeout_at d (query_provider env p family) s")
  have first: "n = 0" if n: "ev_expires env ?ts ?g (world s) = Some (n, w')" "n < length ?ts" for n w'
  proof (rule ccontr)
    assume "n \<noteq> 0"
    then have "?ts ! n \<in> set (timers s)" using n(2) by (cases n) auto
    moreover have "?ts ! n \<le> ev_clock env w'" using assms(2) n unfolding faithful_timers_def by blast
    moreover have "ev_clock env (end_world env ?ts ?g (world s)) \<le> max d (ev_clock env (world s)) + \<delta>"
      using assms(1) unfolding late_by_def by (meson list.set_intros(1))
    ultimately show False using assms(4,5) n by (fastforce simp: end_world_def now_def)
  qed
  have early: "\<not> ev_clock env (snd (ev_respond env ?g (world s))) < d"
    if "ev_expires env ?ts ?g (world s) = Some (0, w')" for w'
    using assms(2) that unfolding faithful_timers_def by (metis length_greater_0_conv list.discI not_le nth_Cons_0)
  have "\<exists>y. x = Done y \<and> (y = None \<or> y = Some (reads env family p (world s))) \<and>
      stop_requested (control t) = stop_requested (control s) \<and>
      (ev_clock env (snd (ev_respond env ?g (world s))) < d \<longrightarrow> y = Some (reads env family p (world s)))"
    using x first early assms(3)
    by (auto simp: timeout_at_def query_provider_def bind_io_def await_def complete_request_def undisturbed_def reads_def
        ret_def split: option.splits prod.splits if_splits sum.splits nat.splits)
  then show ?thesis using that x timeout_at_query(2) [OF x] by blast
qed

lemma good_providers_tail:
  assumes "good_providers env family home share (p # ps)"
    and "reads env family p w = Inr home \<Longrightarrow>
      \<not> ev_clock env (snd (ev_respond env (get_request (ProviderUrl p) []) w)) < ev_clock env w + share"
  shows "good_providers env family home share ps"
  using assms unfolding good_providers_def by (metis list.set_intros(2) set_ConsD)

lemma discover_from_good:
  assumes env: "late_by env \<delta>" "monotonic env" "faithful_timers env" "undisturbed env"
  shows "good_providers env family home share ps \<Longrightarrow> started \<le> now env s \<Longrightarrow> length ps < 2 ^ 32 \<Longrightarrow> 0 < share \<Longrightarrow>
    length ps * (share + length ps * \<delta>) \<le> pc_timeout client - (now env s - started) \<Longrightarrow>
    (\<And>d. d \<in> set (timers s) \<Longrightarrow> started + pc_timeout client + \<delta> < d) \<Longrightarrow>
    \<exists>s'. discover_from env client family started ps fs s = (Done (Inr home), s') \<and>
      stop_requested (control s') = stop_requested (control s)"
proof (induction ps arbitrary: fs s)
  case Nil
  then show ?case by (simp add: good_providers_def)
next
  case (Cons p ps)
  let ?d = "attempt_deadline env client started (p # ps) s" and ?g = "get_request (ProviderUrl p) []"
  note share = attempt_share [OF Cons.prems(2,3,5)]
  have left: "(pc_timeout client - (now env s - started)) div providers_left (length (p # ps)) \<noteq> 0"
    by (rule share(2) [OF Cons.prems(4)])
  then have "pc_timeout client - (now env s - started) \<noteq> 0" by (metis div_0)
  then have "now env s \<le> started + pc_timeout client" by linarith
  from attempt_deadline_total [OF Cons.prems(2) this, where ps = "p # ps"]
  have outer: "?d + \<delta> < d'" if "d' \<in> set (timers s)" for d' using Cons.prems(6) [OF that] by simp
  have "now env s \<le> ?d" using share(1) by simp
  then obtain y t where y: "timeout_at ?d (query_provider env p family) s = (Done y, t)"
    "y = None \<or> y = Some (reads env family p (world s))" "stop_requested (control t) = stop_requested (control s)"
    "ev_clock env (snd (ev_respond env ?g (world s))) < ?d \<longrightarrow> y = Some (reads env family p (world s))"
    "timers t = timers s"
    using attempt_ends [OF env(1,3,4) _ outer, where p = p and family = family] by blast
  obtain x s' where run: "discover_from env client family started (p # ps) fs s = (x, s')"
    by (cases "discover_from env client family started (p # ps) fs s")
  from run have "x = Done (Inr home) \<and> stop_requested (control s') = stop_requested (control s)"
  proof (cases rule: discover_from_Cons)
    case (found a)
    then have "y = Some (Inr a)" "s' = t" using y(1) by simp_all
    moreover from this have "a = home" using y(2) Cons.prems(1) unfolding good_providers_def by auto
    ultimately show ?thesis using found(2) y(3) by simp
  next
    case (failed z u)
    then have z: "y = z" "u = t" using y(1) by simp_all
    have "\<not> ev_clock env (snd (ev_respond env ?g (world s))) < ev_clock env (world s) + share"
      if "reads env family p (world s) = Inr home"
      using y(4) failed(3) share(1) that unfolding z(1) now_def by fastforce
    note tail = good_providers_tail [OF Cons.prems(1) this]
    note clock = attempt_clock [OF env(1,2) y(1)]
    have "length ps * (share + length ps * \<delta>) \<le> pc_timeout client - (now env t - started)"
      using share(3) [OF clock(1)] clock(2) share(1) by simp
    then have "\<exists>s'. discover_from env client family started ps (fs @ [failure_of env p z]) t = (Done (Inr home), s') \<and>
        stop_requested (control s') = stop_requested (control t)"
      using Cons.prems(2-4,6) y(5) tail clock(1) by (intro Cons.IH) auto
    then show ?thesis using failed(4) y(3) z by simp
  qed (use left y(1) in auto)
  then show ?case using run by blast
qed

lemma discover_good:
  assumes env: "late_by env \<delta>" "monotonic env" "faithful_timers env" "undisturbed env"
    and "good_providers env family home (pc_timeout client div length ps - length ps * \<delta>) ps" and "length ps < 2 ^ 32"
    and "\<And>d. d \<in> set (timers s) \<Longrightarrow> now env s + pc_timeout client + \<delta> < d"
  shows "\<exists>s'. discover env client family ps s = (Done (Inr home), s') \<and>
    now env s' \<le> now env s + pc_timeout client + \<delta> \<and> stop_requested (control s') = stop_requested (control s)"
proof -
  let ?share = "pc_timeout client div length ps - length ps * \<delta>"
  obtain p where p: "p \<in> set ps"
    "ev_clock env (snd (ev_respond env (get_request (ProviderUrl p) []) (world s))) < ev_clock env (world s) + ?share"
    using assms(5) unfolding good_providers_def by blast
  have "ev_clock env (world s) \<le> ev_clock env (end_world env [] (get_request (ProviderUrl p) []) (world s))"
    using env(2) unfolding monotonic_def by blast
  then have share: "0 < ?share" using p(2) by (auto simp: end_world_def split: option.splits prod.splits)
  moreover have "length ps * (pc_timeout client div length ps) \<le> pc_timeout client" by (rule times_div_less_eq_dividend)
  ultimately have "length ps * (?share + length ps * \<delta>) \<le> pc_timeout client" by simp
  then obtain s' where s': "discover_from env client family (now env s) ps [] s = (Done (Inr home), s')"
    "stop_requested (control s') = stop_requested (control s)"
    using discover_from_good [OF env assms(5) order_refl assms(6) share, where s = s and client = client and fs = "[]"] assms(7)
    by auto
  then show ?thesis
    using discover_from_deadline [OF env(1,2) s'(1)] p(1) by (auto simp: discover_def get_sys_apply)
qed

definition family_providers :: "config \<Rightarrow> address_family \<Rightarrow> string list" where
  "family_providers c family = providers (case family of Ipv4 \<Rightarrow> ipv4 c | Ipv6 \<Rightarrow> ipv6 c)"

text \<open>Every family that a configured record needs has good providers.\<close>

definition reachable_home :: "'w env \<Rightarrow> updater \<Rightarrow> (address_family \<Rightarrow> ip_addr) \<Rightarrow> bool" where
  "reachable_home env up home \<longleftrightarrow> (\<forall>r \<in> set (records (up_config up)).
     let family = record_family (record_type r); ps = family_providers (up_config up) family
     in good_providers env family (home family) (pc_timeout (up_public_ip up) div length ps) ps)"

lemma lane_good:
  assumes env: "punctual env" "monotonic env" "faithful_timers env" "undisturbed env"
    and "needed \<Longrightarrow> good_providers env family home (pc_timeout client div length ps) ps" and "length ps < 2 ^ 32"
    and "\<And>d. d \<in> set (timers s) \<Longrightarrow> now env s + pc_timeout client < d"
  obtains s' where "discover_lane env client needed family ps s = (Done (if needed then Some (Inr home) else None), s')"
    "now env s' \<le> now env s + pc_timeout client" "stop_requested (control s') = stop_requested (control s)"
proof (cases needed)
  case True
  then show ?thesis
    using discover_good [OF env(1) [unfolded punctual_late] env(2-4), of family home client ps s] assms(5) [OF True] assms(6,7) that
    by (auto simp: discover_lane_def bind_io_def ret_def map_err_def)
next
  case False
  then show ?thesis using that by (simp add: discover_lane_def ret_def)
qed

lemma discovery_good:
  assumes env: "punctual env" "monotonic env" "faithful_timers env" "undisturbed env"
    and "reachable_home env up home" and "valid_config parse (up_config up)"
    and "\<And>d. d \<in> set (timers s) \<Longrightarrow> now env s + pc_timeout (up_public_ip up) < d"
  obtains addresses s' where "discover_required_addresses env up s = (Done addresses, s')"
    "\<And>r. r \<in> set (records (up_config up)) \<Longrightarrow> address_for_record addresses r = Inr (home (record_family (record_type r)))"
    "discovery_failures addresses = []" "now env s' \<le> now env s + pc_timeout (up_public_ip up)"
    "stop_requested (control s') = stop_requested (control s)"
proof -
  let ?c = "up_config up" and ?T = "pc_timeout (up_public_ip up)"
  let ?need = "\<lambda>t. list_ex (\<lambda>r. record_type r = t) (records ?c)"
  have len: "length (providers (ipv4 ?c)) < 2 ^ 32" "length (providers (ipv6 ?c)) < 2 ^ 32"
    using assms(6) by (auto simp: valid_config_def valid_discovery_def MAX_PROVIDERS_PER_FAMILY_def)
  have good: "?need A \<Longrightarrow> good_providers env Ipv4 (home Ipv4) (?T div length (providers (ipv4 ?c))) (providers (ipv4 ?c))"
    "?need Aaaa \<Longrightarrow> good_providers env Ipv6 (home Ipv6) (?T div length (providers (ipv6 ?c))) (providers (ipv6 ?c))"
    using assms(5) by (fastforce simp: reachable_home_def list_ex_iff family_providers_def Let_def)+
  obtain s1 where s1: "discover_lane env (up_public_ip up) (?need A) Ipv4 (providers (ipv4 ?c)) s =
      (Done (if ?need A then Some (Inr (home Ipv4)) else None), s1)"
    "now env s1 \<le> now env s + ?T" "stop_requested (control s1) = stop_requested (control s)"
    by (rule lane_good [OF env good(1) len(1) assms(7)])
  obtain s2 where s2: "discover_lane env (up_public_ip up) (?need Aaaa) Ipv6 (providers (ipv6 ?c)) s =
      (Done (if ?need Aaaa then Some (Inr (home Ipv6)) else None), s2)"
    "now env s2 \<le> now env s + ?T" "stop_requested (control s2) = stop_requested (control s)"
    by (rule lane_good [OF env good(2) len(2) assms(7)])
  let ?a = "\<lparr>da_ipv4 = if ?need A then Some (Inr (home Ipv4)) else None,
      da_ipv6 = if ?need Aaaa then Some (Inr (home Ipv6)) else None\<rparr>"
  have "discover_required_addresses env up s = (Done ?a, merge_sys env s s1 s2)"
    using s1(1) s2(1) by (simp add: discover_required_addresses_def Let_def join2_def bind_io_def ret_def)
  moreover have "address_for_record ?a r = Inr (home (record_family (record_type r)))" if "r \<in> set (records ?c)" for r
    using that by (cases "record_type r") (auto simp: address_for_record_def list_ex_iff)
  moreover have "discovery_failures ?a = []" by (simp add: discovery_failures_def)
  moreover have "now env (merge_sys env s s1 s2) \<le> now env s + ?T"
    using s1(2) s2(2) env(2) by (simp add: merge_sys_def now_def monotonic_def)
  moreover have "stop_requested (control (merge_sys env s s1 s2)) = stop_requested (control s)"
    using s1(3) s2(3) by (simp add: merge_sys_def)
  ultimately show ?thesis by (rule that)
qed

text \<open>The same under a deadline, as cycle and check run it, with what it leaves of the state.\<close>

lemma discovery_in_time:
  assumes "dns_service env zn db" and "served env zn db client rs L" and "punctual env" and "monotonic env"
    and "reachable_home env up home" and "valid_config parse (up_config up)"
    and "sees db zn rs D s" and "timers s = []" and "now env s + pc_timeout (up_public_ip up) < deadline"
  obtains addresses s' where "timeout_at deadline (discover_required_addresses env up) s = (Done (Some addresses), s')"
    "\<And>r. r \<in> set (records (up_config up)) \<Longrightarrow> address_for_record addresses r = Inr (home (record_family (record_type r)))"
    "\<And>r. r \<in> set (records (up_config up)) \<Longrightarrow> \<exists>a. address_for_record addresses r = Inr a \<and> may_publish r a"
    "discovery_failures addresses = []" "sees db zn rs D s'" "timers s' = []"
    "now env s' \<le> now env s + pc_timeout (up_public_ip up)" "stop_requested (control s') = stop_requested (control s)"
proof -
  let ?s = "s\<lparr>timers := [deadline]\<rparr>" and ?rs = "records (up_config up)"
  obtain addresses t where t: "discover_required_addresses env up ?s = (Done addresses, t)"
    "\<And>r. r \<in> set ?rs \<Longrightarrow> address_for_record addresses r = Inr (home (record_family (record_type r)))"
    "discovery_failures addresses = []" "now env t \<le> now env ?s + pc_timeout (up_public_ip up)"
    "stop_requested (control t) = stop_requested (control ?s)"
    by (rule discovery_good [OF assms(3,4) servedD(5,6) [OF assms(2)] assms(5,6), of ?s]) (use assms(9) in \<open>auto simp: now_def\<close>)
  have disc: "timeout_at deadline (discover_required_addresses env up) s = (Done (Some addresses), t\<lparr>timers := []\<rparr>)"
    using t(1) assms(8) by (simp add: timeout_at_def)
  have "sees db zn rs D (t\<lparr>timers := []\<rparr>)"
    using yieldsD [OF yields_timeout [OF yields_discover_required [OF serviceD(1) [OF assms(1)]]] disc assms(7)] by simp
  moreover have "\<exists>a. address_for_record addresses r = Inr a \<and> may_publish r a" if "r \<in> set ?rs" for r
    using t(2) [OF that] address_for_record_public [OF discover_required_ok [OF t(1)] t(2) [OF that]] by (simp add: may_publish_def)
  ultimately show ?thesis
    using t(3-5) by (intro that [OF disc t(2)]) (simp_all add: now_def)
qed

lemma run_cycle_until_publishes:
  assumes "dns_service env zn db" and v: "valid_config parse (up_config up)"
    and "served env zn db (up_cloudflare up) (records (up_config up)) L" and "punctual env" and "monotonic env"
    and "reachable_home env up home" and "tidy zn (records (up_config up)) (db (world s))"
    and "timers s = []" and "zones_true zn (records (up_config up)) (zone_cache s)" and "\<not> stop_requested (control s)"
    and "now env s + pc_timeout (up_public_ip up) + length (records (up_config up)) * (4 * L) < deadline"
  obtains report s' where "run_cycle_until env up deadline s = (Done report, s')" "cycle_success report"
    "published zn (records (up_config up)) home (db (world s'))"
proof -
  let ?rs = "records (up_config up)" and ?T = "pc_timeout (up_public_ip up)" and ?D = "db (world s)"
  have see: "sees db zn ?rs ?D s" using assms(9) by (simp add: sees_def)
  have "now env s + ?T < deadline" using assms(11) by linarith
  then obtain addresses t where t: "timeout_at deadline (discover_required_addresses env up) s = (Done (Some addresses), t)"
    "\<And>r. r \<in> set ?rs \<Longrightarrow> address_for_record addresses r = Inr (home (record_family (record_type r)))"
    "\<And>r. r \<in> set ?rs \<Longrightarrow> \<exists>a. address_for_record addresses r = Inr a \<and> may_publish r a"
    "discovery_failures addresses = []" "sees db zn ?rs ?D t" "timers t = []" "now env t \<le> now env s + ?T"
    "stop_requested (control t) = stop_requested (control s)"
    using discovery_in_time [OF assms(1,3-6) v see assms(8)] by metis
  define u where "u = move_cursor (length ?rs) t"
  let ?qs = "rotated_from (start_index (length ?rs) t) ?rs"
  have time: "now env u + length ?qs * (4 * L) < deadline"
    using t(7) assms(11) by (simp add: u_def now_def rotated_from_eq_rotate)
  obtain report s' where run: "cycle_records env (up_cloudflare up) deadline addresses ?qs (started_report up addresses) u = (Done report, s')"
    "cycle_success report"
    using cycle_records_deliver [OF assms(1,3) valid_config_ids [OF v] t(3),
        where qs = ?qs and D = ?D and s = u and deadline = deadline and report = "started_report up addresses"]
      t(4-6,8) serviceD(5) [OF assms(1)] assms(7,10) time
    by (auto simp: u_def cycle_success_def empty_report_def)
  have cycle: "run_cycle_until env up deadline s = (Done report, s')"
    using t(1) run(1) by (simp add: run_cycle_until_def Let_def bind_io_def next_start_step u_def)
  obtain addresses' t' where "timeout_at deadline (discover_required_addresses env up) s = (Done (Some addresses'), t')"
    "converged zn ?rs addresses' (db (world s'))"
    using run_cycle_until_refines(3) [OF assms(1) v assms(8,9) cycle refl run(2)] by blast
  then have "published zn ?rs home (db (world s'))"
    using t(1,2) by (auto simp: converged_def published_def)
  then show ?thesis using that cycle run(2) by blast
qed

section \<open>The daemon\<close>

lemma locked_cycle_publishes:
  assumes "dns_service env zn db" and "valid_config parse (up_config up)"
    and "served env zn db (up_cloudflare up) (records (up_config up)) L" and "punctual env" and "monotonic env"
    and "reachable_home env up home"
    and "pc_timeout (up_public_ip up) + length (records (up_config up)) * (4 * L) < interval (up_config up)"
    and "cache_inv zn up s" and "tidy zn (records (up_config up)) (db (world s))"
  obtains report s' where "run_cycle_locked env up (begin_cycle s) = (Done report, s')" "cycle_success report"
    "cache_inv zn up s'" "tidy zn (records (up_config up)) (db (world s'))"
    "published zn (records (up_config up)) home (db (world s'))"
proof -
  have s: "timers (begin_cycle s) = []" "zones_true zn (records (up_config up)) (zone_cache (begin_cycle s))"
    "\<not> stop_requested (control (begin_cycle s))" "tidy zn (records (up_config up)) (db (world (begin_cycle s)))"
    using assms(8,9) by (simp_all add: cache_inv_def at_rest_def begin_cycle_def)
  have time: "now env (begin_cycle s) + pc_timeout (up_public_ip up) + length (records (up_config up)) * (4 * L) <
      now env (begin_cycle s) + interval (up_config up)"
    using assms(7) by simp
  obtain report s' where r: "run_cycle_until env up (now env (begin_cycle s) + interval (up_config up)) (begin_cycle s) = (Done report, s')"
    "cycle_success report"
    "published zn (records (up_config up)) home (db (world s'))"
    by (rule run_cycle_until_publishes [OF assms(1-6) s(4,1,2,3) time])
  have run: "run_cycle_locked env up (begin_cycle s) = (Done report, s')"
    using r(1) by (simp add: run_cycle_locked_def get_sys_apply)
  show ?thesis
    using that [OF run r(2) _ _ r(3)] locked_cycle_refines(1,2) [OF assms(1,2,8) run] spec_steps_tidy assms(9) by blast
qed

text \<open>One round of the loop: wait, then a cycle that publishes everything.\<close>

lemma round_publishes:
  assumes "quiet_host h" and "dns_service (ho_env h) zn db" and "valid_config parse (up_config up)"
    and "served (ho_env h) zn db (up_cloudflare up) (records (up_config up)) L" and "punctual (ho_env h)" and "monotonic (ho_env h)"
    and "reachable_home (ho_env h) up home"
    and "pc_timeout (up_public_ip up) + length (records (up_config up)) * (4 * L) < interval (up_config up)"
    and sleep: "\<forall>d w. tidy zn (records (up_config up)) (db w) \<longrightarrow> tidy zn (records (up_config up)) (db (snd (ho_sleep h d w)))"
    and "cache_inv zn up s" and "tidy zn (records (up_config up)) (db (world s))"
  obtains st' s' where "\<And>n. run_loop h up (Suc (Suc n)) (Waiting st, s) = run_loop h up n (Waiting st', s')"
    "ds_failures st' = 0" "ds_next_delay st' = interval (up_config up)"
    "cache_inv zn up s'" "tidy zn (records (up_config up)) (db (world s'))"
    "published zn (records (up_config up)) home (db (world s'))"
proof -
  obtain w where w: "daemon_next h up (Waiting st, s) = Some (Cycling st, s\<lparr>world := w\<rparr>)"
    "w = world s \<or> (\<exists>d. w = snd (ho_sleep h d (world s)))"
    by (rule quiet_wait [OF assms(1)])
  have c: "cache_inv zn up (s\<lparr>world := w\<rparr>)" "tidy zn (records (up_config up)) (db (world (s\<lparr>world := w\<rparr>)))"
    using assms(10,11) w(2) sleep by (auto simp: cache_inv_def at_rest_def)
  obtain report s' where r: "run_cycle_locked (ho_env h) up (begin_cycle (s\<lparr>world := w\<rparr>)) = (Done report, s')" "cycle_success report"
    "cache_inv zn up s'" "tidy zn (records (up_config up)) (db (world s'))"
    "published zn (records (up_config up)) home (db (world s'))"
    by (rule locked_cycle_publishes [OF assms(2-8) c])
  have "shutdown s' = None"
    using quiet_cycle [OF assms(1), of "s\<lparr>world := w\<rparr>" up] c(1) r(1) by (auto simp: cache_inv_def)
  moreover have "ho_ready h w = None" using assms(1) by (simp add: quiet_host_def)
  ultimately have "run_loop h up (Suc (Suc n)) (Waiting st, s) =
      run_loop h up n (Waiting (after_cycle h (world s') (interval (up_config up)) report st), s')" for n
    using w(1) r(1) by simp
  then show ?thesis
    using that r(2-5) by (simp add: after_cycle_def)
qed

section \<open>Properties\<close>

text \<open>
  C34: one good provider is enough. Suppose no provider of the list is ever read as another
  address than the one of the host, and one of them always answers in less than an equal share of the
  total timeout, reduced by one delay \<open>\<delta>\<close> of the timers for each provider. Then discovery finds the address of
  the host, at most \<open>\<delta>\<close> after its timeout, wherever that provider stands in the list and whether the
  ones before it fail, answer nonsense or hang.
\<close>

theorem one_good_provider_suffices:
  assumes "late_by env \<delta>" and "monotonic env" and "faithful_timers env" and "undisturbed env"
    and "good_providers env family home (pc_timeout client div length ps - length ps * \<delta>) ps" and "length ps < 2 ^ 32"
    and "\<forall>d \<in> set (timers s). now env s + pc_timeout client + \<delta> < d"
  shows "\<exists>s'. discover env client family ps s = (Done (Inr home), s') \<and> now env s' \<le> now env s + pc_timeout client + \<delta>"
  using discover_good [OF assms(1-6)] assms(7) by blast

text \<open>
  C2: a cycle does its work when its surroundings do theirs. If the service answers within \<open>L\<close>
  what it is asked about the configured records, each needed family has good providers, DNS has no
  duplicates of a configured record and one that is missing may be created, and the deadline leaves
  time for the discovery and four requests per record, then the cycle returns a report of success
  and every configured record is published with the address of the host.
\<close>

theorem healthy_cycle_publishes:
  assumes "dns_service env zn db" and "validate parse (up_config up) = Inr ()"
    and "responsive env zn db (url_origin (cc_api_base (up_cloudflare up))) (base_path (up_cloudflare up)) (records (up_config up)) L"
    and "punctual env" and "monotonic env" and "reachable_home env up home"
    and "tidy zn (records (up_config up)) (db (world s))"
    and "timers s = []" and "zones_true zn (records (up_config up)) (zone_cache s)" and "\<not> stop_requested (control s)"
    and "now env s + pc_timeout (up_public_ip up) + length (records (up_config up)) * (4 * L) < deadline"
  shows "\<exists>report s'. run_cycle_until env up deadline s = (Done report, s') \<and> cycle_success report \<and>
    (\<forall>r \<in> set (records (up_config up)). in_sync zn r (home (record_family (record_type r))) (db (world s')))"
proof -
  have v: "valid_config parse (up_config up)" using assms(2) by (simp add: validate_iff_valid)
  obtain report s' where "run_cycle_until env up deadline s = (Done report, s')" "cycle_success report"
    "published zn (records (up_config up)) home (db (world s'))"
    by (rule run_cycle_until_publishes [OF assms(1) v assms(3-11)])
  then show ?thesis unfolding published_def by blast
qed

text \<open>
  C5: the daemon keeps DNS up to date. On a host without a shutdown signal, with a responsive
  service, good providers and an interval that leaves time for a cycle, every round of the loop
  ends with no failure to its count, the next cycle due after the configured interval, and every
  configured record published with the address of the host, also when others change DNS while the daemon
  sleeps, as long as they leave it tidy.
\<close>

theorem daemon_keeps_published:
  assumes "quiet_host h" and "dns_service (ho_env h) zn db" and "validate parse (up_config up) = Inr ()"
    and "responsive (ho_env h) zn db (url_origin (cc_api_base (up_cloudflare up))) (base_path (up_cloudflare up)) (records (up_config up)) L"
    and "punctual (ho_env h)" and "monotonic (ho_env h)" and "reachable_home (ho_env h) up home"
    and "pc_timeout (up_public_ip up) + length (records (up_config up)) * (4 * L) < interval (up_config up)"
    and "\<forall>d w. tidy zn (records (up_config up)) (db w) \<longrightarrow> tidy zn (records (up_config up)) (db (snd (ho_sleep h d w)))"
    and "tidy zn (records (up_config up)) (db (world s))"
    and "timers s = []" and "\<not> mutation_in_flight (control s)" and "zone_cache s = Map.empty"
  shows "\<exists>st s'. run_loop h up (2 * Suc n) (Waiting start, s) = (Waiting st, s') \<and>
    ds_failures st = 0 \<and> ds_next_delay st = interval (up_config up) \<and>
    (\<forall>r \<in> set (records (up_config up)). in_sync zn r (home (record_family (record_type r))) (db (world s')))"
proof -
  have v: "valid_config parse (up_config up)" using assms(3) by (simp add: validate_iff_valid)
  note one = round_publishes [OF assms(1,2) v assms(4-9)]
  have "cache_inv zn up s" using assms(11-13) by (simp add: cache_inv_def at_rest_def zones_true_def)
  then show ?thesis
    using assms(10) unfolding published_def [symmetric]
  proof (induction n arbitrary: start s)
    case 0
    obtain st' s' where "\<And>n. run_loop h up (Suc (Suc n)) (Waiting start, s) = run_loop h up n (Waiting st', s')"
      "ds_failures st' = 0" "ds_next_delay st' = interval (up_config up)" "published zn (records (up_config up)) home (db (world s'))"
      using one [OF 0] by blast
    then show ?case using run_loop.simps(1) [of h up] by (simp only: numeral_2_eq_2 mult_1_right One_nat_def [symmetric]) auto
  next
    case (Suc n)
    obtain st' s' where "\<And>n. run_loop h up (Suc (Suc n)) (Waiting start, s) = run_loop h up n (Waiting st', s')"
      "cache_inv zn up s'" "tidy zn (records (up_config up)) (db (world s'))"
      using one [OF Suc.prems] by blast
    then show ?case using Suc.IH [of s' st'] by simp
  qed
qed

text \<open>
  C7: the \<open>once\<close> command does its work when its surroundings do theirs: if logging starts, the
  updater can be built and the lock is granted, then under the same conditions the process exits
  with code 0 and every configured record is published with the address of the host.
\<close>

theorem once_publishes:
  assumes "dns_service (ma_env m) zn db" and "build_updater m (cli_config args) = (Inr up, ls)"
    and "responsive (ma_env m) zn db (url_origin (cc_api_base (up_cloudflare up))) (base_path (up_cloudflare up)) (records (up_config up)) L"
    and "punctual (ma_env m)" and "monotonic (ma_env m)" and "reachable_home (ma_env m) up home"
    and "tidy zn (records (up_config up)) (db w)"
    and "request_timeout (up_config up) + length (records (up_config up)) * (4 * L) < interval (up_config up)"
    and "init_logging m (cli_verbose args) (cli_quiet args) = Inr ()" and "cli_command args = CmdOnce"
    and "acquire (ma_locker m) (ma_lock_os m) (up_runtime_lock up) l = (Inr guard, k)"
  shows "\<exists>pr. main fuel m args w l = (Some 0, pr) \<and>
    (\<forall>r \<in> set (records (up_config up)). in_sync zn r (home (record_family (record_type r))) (db (world (pr_sys pr))))"
proof -
  let ?s = "idle_sys w\<lparr>control := \<lparr>stop_requested = False, mutation_in_flight = False\<rparr>\<rparr>"
  have v: "valid_config (ev_parse_url (ma_env m)) (up_config up)"
    using build_updater_Inr(6) [OF assms(2)] by (simp add: validate_iff_valid)
  have s: "tidy zn (records (up_config up)) (db (world ?s))" "timers ?s = []"
    "zones_true zn (records (up_config up)) (zone_cache ?s)" "\<not> stop_requested (control ?s)"
    using assms(7) by (simp_all add: zones_true_def)
  have time: "now (ma_env m) ?s + pc_timeout (up_public_ip up) + length (records (up_config up)) * (4 * L) <
      now (ma_env m) ?s + interval (up_config up)"
    using assms(8) build_updater_Inr(5) [OF assms(2)] by simp
  obtain report s' where "run_cycle_until (ma_env m) up (now (ma_env m) ?s + interval (up_config up)) ?s = (Done report, s')"
    "cycle_success report" "published zn (records (up_config up)) home (db (world s'))"
    by (rule run_cycle_until_publishes [OF assms(1) v assms(3-6) s time])
  then have r: "run_cycle (ma_env m) (Inr guard) up (idle_sys w) = (Done report, s')" "cycle_success report"
    "published zn (records (up_config up)) home (db (world s'))"
    by (simp_all add: run_cycle_def run_cycle_locked_def fresh_control_def modify_sys_apply get_sys_apply)
  then show ?thesis
    using assms(2,9-11) by (simp add: main_def Let_def execute_def execute_once_def with_runtime_lock_def published_def)
qed

section \<open>A desk with one record\<close>

text \<open>
  A concrete service for the examples, whose world is the address in the one record and the clock:
  it stores every address it is given, each reply takes one nanosecond, a deadline that has been
  reached expires at once. One provider refuses the connection, the other knows the address.
\<close>

type_synonym desk = "ip_addr \<times> nat"

definition desk_record :: "ip_addr \<Rightarrow> dns_record" where
  "desk_record a = desired sample_record a ''r1''"

definition desk_db :: "desk \<Rightarrow> dns_db" where
  "desk_db w zk = (if zk = ''z1'' then [desk_record (fst w)] else [])"

text \<open>The zone identifier in the path of a request.\<close>

definition path_zone :: "cloudflare_client \<Rightarrow> http_request \<Rightarrow> string" where
  "path_zone client r = (case rq_url r of ProviderUrl _ \<Rightarrow> []
     | ApiUrl _ segs \<Rightarrow> (case drop (length (base_path client)) segs of _ # zid # _ \<Rightarrow> zid | _ \<Rightarrow> []))"

definition stored_address :: "http_request \<Rightarrow> ip_addr option" where
  "stored_address r = (case rq_body r of PayloadBody p \<Rightarrow> parse_ip (rp_content p) | _ \<Rightarrow> None)"

definition desk_reply :: "cloudflare_client \<Rightarrow> http_request \<Rightarrow> ip_addr \<Rightarrow> (http_response, string) result \<times> ip_addr" where
  "desk_reply client r a =
     (case rq_url r of
        ProviderUrl p \<Rightarrow>
          (if p = ''https://api.ipify.org'' then Inr (ok_response (show_ip home_address)) else Inl ''connection refused'', a)
      | ApiUrl _ _ \<Rightarrow>
          if r = get_request (verify_endpoint client) [] then (Inr (ok_response ''token''), a)
          else if r = zone_page_request client ''example.com'' 1 then (Inr (ok_response ''zones''), a)
          else if lower (path_zone client r) = ''z1'' \<and> r = record_page_request client (path_zone client r) ''A'' ''home.example.com'' 1
          then (Inr (ok_response (show_ip a)), a)
          else if lower (path_zone client r) = ''z1'' \<and> r = probe_request client (path_zone client r) (desk_record a)
          then (Inr (ok_response (show_ip a)), a)
          else (case stored_address r of
              None \<Rightarrow> (Inl ''connection refused'', a)
            | Some b \<Rightarrow>
                if lower (path_zone client r) = ''z1'' \<and> r = update_request client (path_zone client r) ''r1'' (payload_for sample_record b)
                then (Inr (ok_response (show_ip b)), b)
                else (Inl ''connection refused'', a)))"

definition desk_decode :: "(ip_addr \<Rightarrow> 'a) \<Rightarrow> 'a decoder" where
  "desk_decode f body = (case parse_ip body of None \<Rightarrow> Inl [] | Some a \<Rightarrow> Inr (ok_envelope (f a)))"

definition desk_service :: "cloudflare_client \<Rightarrow> desk env" where
  "desk_service client = \<lparr>
     ev_respond = (\<lambda>r w. (fst (desk_reply client r (fst w)), (snd (desk_reply client r (fst w)), Suc (snd w)))),
     ev_expires = (\<lambda>ts r w. if list_ex (\<lambda>d. d \<le> snd w) ts
        then Some (length (takeWhile (\<lambda>d. snd w < d) ts), w) else None),
     ev_signalled = (\<lambda>_ _. None), ev_clock = snd, ev_join = (\<lambda>v w. (fst w, max (snd v) (snd w))), ev_parse_url = sample_url_parser,
     ev_json_token = (\<lambda>_. Inr (ok_envelope \<lparr>tv_status = ''active''\<rparr>)), ev_json_zone = (\<lambda>_. Inl []),
     ev_json_zones = (\<lambda>_. Inr (ok_envelope [\<lparr>zi_id = ''z1'', zi_name = ''example.com'', zi_status = ''active''\<rparr>])),
     ev_json_record = desk_decode desk_record,
     ev_json_records = desk_decode (\<lambda>a. [desk_record a])\<rparr>"

lemma desk_simps [simp]:
  "ev_respond (desk_service client) r w = (fst (desk_reply client r (fst w)), (snd (desk_reply client r (fst w)), Suc (snd w)))"
  "ev_signalled (desk_service client) r w = None" "ev_clock (desk_service client) = snd"
  "ev_join (desk_service client) v w = (fst w, max (snd v) (snd w))"
  "ev_json_record (desk_service client) = desk_decode desk_record"
  "ev_json_records (desk_service client) = desk_decode (\<lambda>a. [desk_record a])"
  "ev_json_zones (desk_service client) = (\<lambda>_. Inr (ok_envelope [\<lparr>zi_id = ''z1'', zi_name = ''example.com'', zi_status = ''active''\<rparr>]))"
  "ev_json_zone (desk_service client) = (\<lambda>_. Inl [])"
  "ev_json_token (desk_service client) = (\<lambda>_. Inr (ok_envelope \<lparr>tv_status = ''active''\<rparr>))"
  "ev_parse_url (desk_service client) = sample_url_parser"
  by (simp_all add: desk_service_def)

lemma desk_expires [simp]:
  "ev_expires (desk_service client) ts r w = (if list_ex (\<lambda>d. d \<le> snd w) ts
     then Some (length (takeWhile (\<lambda>d. snd w < d) ts), w) else None)"
  by (simp add: desk_service_def)

lemma desk_key [simp]: "has_key ''A'' ''home.example.com'' (desk_record a)" "dr_id (desk_record a) = ''r1''"
  by (simp_all add: desk_record_def desired_def sample_record_def has_key_def)

lemma desk_stored: "stored_record ''r1'' (payload_for sample_record a) = desk_record a"
  by (simp add: desk_record_def desired_stored)

lemma path_zone_endpoint [simp]:
  "path_zone client (get_request (endpoint client (x # zid # ys)) q) = zid"
  "path_zone client (json_request m (endpoint client (x # zid # ys)) b) = zid"
  by (simp_all add: path_zone_def get_request_def json_request_def endpoint_path)

lemma desk_get: "snd (desk_reply client (get_request u q) a) = a"
  by (auto simp: desk_reply_def stored_address_def get_request_def split: http_url.split)

lemma desk_zones:
  "fst (desk_reply client (get_request (endpoint client [''zones''])
     [(''name'', ''example.com''), (''page'', show_nat 1), (''per_page'', show_nat 50)]) a) = Inr (ok_response ''zones'')"
  by (simp add: desk_reply_def zone_page_request_def ZONE_PAGE_SIZE_def get_request_def)

lemma desk_lookup:
  "lower zid = ''z1'' \<Longrightarrow> fst (desk_reply client (record_page_request client zid ''A'' ''home.example.com'' 1) a) = Inr (ok_response (show_ip a))"
  by (simp add: desk_reply_def record_page_request_def zone_page_request_def get_request_def
      path_zone_endpoint(1) [unfolded get_request_def])

lemma desk_update:
  "lower zid = ''z1'' \<Longrightarrow> desk_reply client (update_request client zid ''r1'' (payload_for sample_record b)) a = (Inr (ok_response (show_ip b)), b)"
  by (simp add: desk_reply_def stored_address_def update_request_def zone_page_request_def record_page_request_def probe_request_def
      get_request_def json_request_def payload_for_def path_zone_endpoint(2) [unfolded json_request_def])

lemma ok_response_simps:
  "st_code (rs_status (ok_response body)) = 200" "rs_content_length (ok_response body) = None"
  "rs_chunks (ok_response body) = [body]"
  by (simp_all add: ok_response_def)

lemma accepted_desk: "accepted (desk_decode f) (Inr (ok_response (show_ip a))) x info \<longleftrightarrow>
    x = f a \<and> info = Some \<lparr>ri_total_pages = Some 1\<rparr>"
  by (auto simp: accepted_ok desk_decode_def ok_envelope_def)

text \<open>A reply of the desk that reports success is one of the three it knows.\<close>

lemma desk_listing:
  assumes "accepted (desk_decode f) (fst (desk_reply client (get_request (ApiUrl host (ps @ [''zones'', zid, ''dns_records'']))
      [(''name.exact'', rname), (''type'', rtype), (''match'', ''all''), (''page'', show_nat p), (''per_page'', show_nat n)]) a)) x info"
  shows "lower zid = ''z1'' \<and> rname = ''home.example.com'' \<and> rtype = ''A'' \<and> p = 1 \<and> n = RECORD_PAGE_SIZE \<and>
    x = f a \<and> info = Some \<lparr>ri_total_pages = Some 1\<rparr>"
  using assms
  by (auto simp: desk_reply_def stored_address_def get_request_def zone_page_request_def record_page_request_def
      probe_request_def json_request_def verify_endpoint_def
      endpoint_path accepted_refused accepted_desk show_nat_inject split: if_splits verification_target.splits)

lemma desk_lists: "lists_records (desk_service client) desk_db"
  unfolding lists_records_def
  by (auto dest!: desk_listing simp: desk_db_def RECORD_PAGE_SIZE_def Let_def)

lemma desk_names: "names_zones (desk_service client) shelf_zone"
  unfolding names_zones_def
  by (auto simp: desk_reply_def stored_address_def get_request_def zone_page_request_def
      probe_request_def json_request_def verify_endpoint_def
      record_page_request_def endpoint_path accepted_ok accepted_refused
      ok_envelope_def shelf_zone_def accepted_def split: if_splits)

lemma desk_patch:
  assumes "desk_reply client (json_request PATCH (ApiUrl host (ps @ [''zones'', zid, ''dns_records'', rid])) (PayloadBody p)) a = (outcome, b)"
  shows "lower zid = ''z1'' \<and> rid = ''r1'' \<and> p = payload_for sample_record b \<or> b = a \<and> (\<exists>e. outcome = Inl e)"
  using assms
  by (auto simp: desk_reply_def stored_address_def json_request_def get_request_def zone_page_request_def probe_request_def
      record_page_request_def update_request_def endpoint_path split: if_splits option.splits)

lemma desk_post:
  assumes "desk_reply client (json_request POST (ApiUrl host segs) (PayloadBody p)) a = (outcome, b)"
  shows "b = a" and "\<not> accepted (desk_decode desk_record) outcome x info"
  using assms by (auto simp: desk_reply_def stored_address_def json_request_def get_request_def zone_page_request_def probe_request_def
      record_page_request_def update_request_def accepted_refused split: if_splits option.splits http_url.splits)

lemma desk_applies: "applies_writes (desk_service client) desk_db"
  unfolding applies_writes_def
proof (intro conjI allI impI)
  fix host ps zid rid p w outcome w'
  assume "ev_respond (desk_service client)
      (json_request PATCH (ApiUrl host (ps @ [''zones'', zid, ''dns_records'', rid])) (PayloadBody p)) w = (outcome, w')"
  then have "desk_reply client (json_request PATCH (ApiUrl host (ps @ [''zones'', zid, ''dns_records'', rid])) (PayloadBody p)) (fst w)
      = (outcome, fst w')"
    by auto
  from desk_patch [OF this] show "desk_db w' = replace_record (lower zid) rid p (desk_db w) \<or>
      desk_db w' = desk_db w \<and> (\<forall>x info. \<not> accepted (ev_json_record (desk_service client)) outcome x info)"
    by (auto simp: desk_db_def replace_record_def fun_eq_iff desk_stored accepted_refused)
next
  fix host ps zid p w outcome w'
  assume "ev_respond (desk_service client)
      (json_request POST (ApiUrl host (ps @ [''zones'', zid, ''dns_records''])) (PayloadBody p)) w = (outcome, w')"
  then have "desk_reply client (json_request POST (ApiUrl host (ps @ [''zones'', zid, ''dns_records''])) (PayloadBody p)) (fst w)
      = (outcome, fst w')"
    by auto
  from desk_post [OF this] show "adds_record (lower zid) p (desk_db w) (desk_db w') \<or>
      desk_db w' = desk_db w \<and> (\<forall>x info. \<not> accepted (ev_json_record (desk_service client)) outcome x info)"
    by (auto simp: desk_db_def fun_eq_iff)
qed

lemma desk_contract: "dns_service (desk_service client) shelf_zone desk_db"
  unfolding dns_service_def
proof (intro conjI allI)
  show "distinct_ids (desk_db w)" for w by (simp add: distinct_ids_def desk_db_def)
  show "only_writer (desk_service client) desk_db"
    by (auto simp: only_writer_def desk_get desk_db_def fun_eq_iff split: if_splits)
qed (rule desk_lists desk_names desk_applies)+

lemma desk_clock: "monotonic (desk_service client)" "punctual (desk_service client)"
  "faithful_timers (desk_service client)" "undisturbed (desk_service client)"
proof -
  show "monotonic (desk_service client)" by (auto simp: monotonic_def end_world_def)
  show "punctual (desk_service client)"
    using takeWhile_hit by (auto simp: punctual_def end_world_def list_ex_iff not_le)
  have "ts ! length (takeWhile (\<lambda>d. t < d) ts) \<le> t" if "length (takeWhile (\<lambda>d. t < d) ts) < length ts" for t and ts :: "nat list"
    using nth_length_takeWhile [OF that] by simp
  then show "faithful_timers (desk_service client)"
    by (auto simp: faithful_timers_def le_SucI split: if_splits)
  show "undisturbed (desk_service client)" by (simp add: undisturbed_def)
qed

lemma desk_zone_of: "zone_of shelf_zone sample_record zk \<longleftrightarrow> zk = ''z1''"
  by (simp add: zone_of_def shelf_zone_def sample_record_def)

lemma desk_matching: "matching sample_record (desk_db w) ''z1'' = [desk_record (fst w)]"
  using is_for_desired [of sample_record "fst w" "''r1''"] by (simp add: matching_def desk_db_def desk_record_def)

lemma answers_desk: "answers (desk_decode f) (Inr (ok_response (show_ip a))) (f a) (Some \<lparr>ri_total_pages = Some 1\<rparr>)"
  using show_ip_length [of a] by (simp add: answers_def accepted_desk ok_response_simps CF_MAX_RESPONSE_BYTES_def)

lemma desk_responsive:
  "responsive (desk_service client) shelf_zone desk_db (url_origin (cc_api_base client)) (base_path client) [sample_record] 1"
  unfolding responsive_def
proof (intro conjI desk_clock)
  have single: "single_page (Some \<lparr>ri_total_pages = Some 1\<rparr>)" by (simp add: single_page_def)
  show "prompt (desk_service client) 1" by (simp add: prompt_def)
  have "answers (\<lambda>_. Inr (ok_envelope z)) (Inr (ok_response ''zones'')) z (Some \<lparr>ri_total_pages = Some 1\<rparr>)" for z :: "zone_info list"
    by (simp add: answers_def accepted_ok ok_envelope_def ok_response_simps CF_MAX_RESPONSE_BYTES_def)
  then show "answers_zones (desk_service client) (url_origin (cc_api_base client)) (base_path client) [sample_record]"
    using desk_zones [of client, unfolded endpoint_path]
    by (auto simp: answers_zones_def sample_record_def single [simplified]
      intro!: exI [of _ "[\<lparr>zi_id = ''z1'', zi_name = ''example.com'', zi_status = ''active''\<rparr>]"] exI [of _ "Some \<lparr>ri_total_pages = Some 1\<rparr>"])
  show "answers_lookups (desk_service client) shelf_zone desk_db (url_origin (cc_api_base client)) (base_path client) [sample_record]"
    unfolding answers_lookups_def
  proof (intro ballI allI impI)
    fix r zid and w :: desk
    assume r: "r \<in> set [sample_record]" "zone_of shelf_zone r (lower zid)"
    then have zid: "lower zid = ''z1''" "r = sample_record" by (simp_all add: desk_zone_of)
    show "\<exists>xs info. answers (ev_json_records (desk_service client)) (fst (ev_respond (desk_service client)
        (get_request (ApiUrl (url_origin (cc_api_base client)) (base_path client @ [''zones'', zid, ''dns_records'']))
          [(''name.exact'', name r), (''type'', record_type_str (record_type r)), (''match'', ''all''),
           (''page'', show_nat 1), (''per_page'', show_nat 100)]) w)) xs info \<and> single_page info"
      using desk_lookup [OF zid(1), of client "fst w"] answers_desk [of "\<lambda>a. [desk_record a]" "fst w"] single zid(2)
      by (auto simp: record_page_request_def RECORD_PAGE_SIZE_def endpoint_path sample_record_def)
  qed
  show "answers_writes (desk_service client) shelf_zone desk_db (url_origin (cc_api_base client)) (base_path client) [sample_record]"
    unfolding answers_writes_def
  proof (intro ballI allI impI conjI)
    fix r a zid w x
    assume r: "r \<in> set [sample_record]" "zone_of shelf_zone r (lower zid)" "matching r (desk_db w) (lower zid) = [x]"
    then have zid: "lower zid = ''z1''" "r = sample_record" "dr_id x = ''r1''"
      using desk_matching [of w] by (auto simp: desk_zone_of)
    show "\<exists>y info. answers (ev_json_record (desk_service client)) (fst (ev_respond (desk_service client)
        (json_request PATCH (ApiUrl (url_origin (cc_api_base client)) (base_path client @ [''zones'', zid, ''dns_records'', dr_id x]))
          (PayloadBody (payload_for r a))) w)) y info"
      using desk_update [OF zid(1), of client a "fst w"] answers_desk [of desk_record a] zid(2,3)
      by (auto simp: update_request_def endpoint_path)
  qed (simp add: desk_zone_of desk_matching)
qed

lemma desk_reads: "reads (desk_service client) Ipv4 p w =
    (if p = ''https://api.ipify.org'' then Inr home_address else Inl (Request ''connection refused''))"
proof -
  have "length (show_ip home_address) \<le> MAX_RESPONSE_BYTES"
    using show_ip_length [of home_address] unfolding MAX_RESPONSE_BYTES_def by (rule order_trans) simp
  then show ?thesis
    using provider_answer [of home_address Ipv4]
    by (simp add: reads_def desk_reply_def get_request_def del: show_ip.simps)
qed

lemma desk_good:
  assumes "1 < limit"
  shows "good_providers (desk_service client) Ipv4 home_address limit [''https://api.cloudflare.com/cdn-cgi/trace'', ''https://api.ipify.org'']"
  using assms by (simp add: good_providers_def desk_reads)

lemma desk_home:
  assumes "up_config up = sample_config" and "from_secs 1 \<le> pc_timeout (up_public_ip up)"
  shows "reachable_home (desk_service client) up (\<lambda>_. home_address)"
proof -
  have "from_secs 1 div 2 \<le> pc_timeout (up_public_ip up) div 2" using assms(2) by (rule div_le_mono)
  then have "1 < pc_timeout (up_public_ip up) div 2" by (simp add: from_secs_def nanos_per_sec_def)
  then show ?thesis
    using desk_good assms(1)
    by (simp add: reachable_home_def sample_config_def sample_record_def family_providers_def default_config_def numeral_2_eq_2)
qed

lemma desk_tidy: "tidy shelf_zone [sample_record] (desk_db w)"
  by (simp add: tidy_def desk_zone_of desk_matching)

theorem one_good_provider_suffices_witness:
  "\<exists>s'. discover (desk_service sample_client) \<lparr>pc_timeout = 100\<rparr> Ipv4
      [''https://api.cloudflare.com/cdn-cgi/trace'', ''https://api.ipify.org''] (idle_sys (home_address, 7)) =
     (Done (Inr home_address), s') \<and> now (desk_service sample_client) s' \<le> 107"
  using one_good_provider_suffices [OF desk_clock(2) [unfolded punctual_late] desk_clock(1,3,4), of sample_client Ipv4 home_address "\<lparr>pc_timeout = 100\<rparr>"
      "[''https://api.cloudflare.com/cdn-cgi/trace'', ''https://api.ipify.org'']" "idle_sys (home_address, 7)"] desk_good [of 50 sample_client]
  by (simp add: now_def numeral_2_eq_2 [symmetric])

theorem healthy_cycle_publishes_witness:
  "\<exists>report s'. run_cycle_until (desk_service sample_client) shelf_updater (from_secs 60) (idle_sys (V4 (Ipv4Addr 8 8 8 8), 0)) =
     (Done report, s') \<and> cycle_success report \<and> in_sync shelf_zone sample_record home_address (desk_db (world s'))"
proof -
  have up: "up_cloudflare shelf_updater = sample_client" "up_config shelf_updater = sample_config"
    "pc_timeout (up_public_ip shelf_updater) = from_secs 15" "records sample_config = [sample_record]"
    by (simp_all add: shelf_updater_def home_updater_def sample_config_def)
  have time: "from_secs 15 + 4 < from_secs 60" by (simp add: from_secs_def nanos_per_sec_def)
  have "from_secs 1 \<le> from_secs 15" by (simp add: from_secs_def)
  then show ?thesis
    using healthy_cycle_publishes [OF desk_contract [of sample_client] shelf_valid, where L = 1 and home = "\<lambda>_. home_address"
        and s = "idle_sys (V4 (Ipv4Addr 8 8 8 8), 0)" and deadline = "from_secs 60"]
      desk_responsive [of sample_client] desk_clock [of sample_client] desk_home [of shelf_updater sample_client] desk_tidy time
    by (simp add: up now_def zones_true_def)
qed

definition desk_host :: "cloudflare_client \<Rightarrow> desk host" where
  "desk_host client = \<lparr>ho_env = desk_service client, ho_sleep = (\<lambda>d w. (None, (V4 (Ipv4Addr 8 8 8 8), snd w + d))),
     ho_ready = (\<lambda>_. None), ho_time = (\<lambda>_. None), ho_pid = 1\<rparr>"

text \<open>The daemon repairs the record in every round, although someone changes it back in every sleep.\<close>

theorem daemon_keeps_published_witness:
  "\<exists>st s'. run_loop (desk_host sample_client) shelf_updater (2 * Suc 3) (Waiting (first_state 0), idle_sys (V4 (Ipv4Addr 8 8 8 8), 0)) =
     (Waiting st, s') \<and> ds_failures st = 0 \<and> ds_next_delay st = from_secs 300 \<and>
     in_sync shelf_zone sample_record home_address (desk_db (world s'))"
proof -
  have up: "up_cloudflare shelf_updater = sample_client" "up_config shelf_updater = sample_config"
    "pc_timeout (up_public_ip shelf_updater) = from_secs 15" "records sample_config = [sample_record]"
    "interval sample_config = from_secs 300"
    by (simp_all add: shelf_updater_def home_updater_def sample_config_def interval_def default_config_def DEFAULT_INTERVAL_SECONDS_def)
  have h: "quiet_host (desk_host sample_client)" "ho_env (desk_host sample_client) = desk_service sample_client"
    by (simp_all add: quiet_host_def desk_host_def)
  have time: "from_secs 15 + 4 < from_secs 300" "from_secs 1 \<le> from_secs 15" by (simp_all add: from_secs_def nanos_per_sec_def)
  show ?thesis
    using daemon_keeps_published [OF h(1) _ shelf_valid, where zn = shelf_zone and db = desk_db and L = 1 and n = 3 and start = "first_state 0"
        and home = "\<lambda>_. home_address" and s = "idle_sys (V4 (Ipv4Addr 8 8 8 8), 0)"]
      desk_contract [of sample_client] desk_responsive [of sample_client] desk_clock [of sample_client]
      desk_home [of shelf_updater sample_client] desk_tidy time
    by (simp add: up h(2) idle_sys_def)
qed

theorem once_publishes_witness:
  "\<exists>pr. main 0 (sample_machine (desk_host built_client)) (home_args CmdOnce) (V4 (Ipv4Addr 8 8 8 8), 0) {} = (Some 0, pr) \<and>
     in_sync shelf_zone sample_record home_address (desk_db (world (pr_sys pr)))"
proof -
  let ?m = "sample_machine (desk_host built_client)"
  have "ev_parse_url (ho_env (desk_host built_client)) = sample_url_parser" by (simp add: desk_host_def)
  then obtain up ls where b: "build_updater ?m DEFAULT_CONFIG_PATH = (Inr up, ls)" "up_config up = sample_config"
      "up_cloudflare up = built_client"
    using sample_builds by blast
  have env: "ma_env ?m = desk_service built_client" by (simp add: ma_env_def sample_machine_def desk_host_def)
  have "up_runtime_lock up = sample_lock"
    using build_updater_Inr(7) [OF b(1)] b(2) by (simp add: sample_machine_def)
  then obtain path where a: "acquire (ma_locker ?m) (ma_lock_os ?m) (up_runtime_lock up) {} = (Inr (Some [path]), {path})"
    using sample_lock_acquired by (auto simp: sample_machine_def)
  have time: "request_timeout sample_config + 4 < interval sample_config" "from_secs 1 \<le> request_timeout sample_config"
    by (simp_all add: from_secs_def nanos_per_sec_def interval_def request_timeout_def sample_config_def
        default_config_def DEFAULT_INTERVAL_SECONDS_def DEFAULT_REQUEST_TIMEOUT_SECONDS_def)
  have home: "reachable_home (desk_service built_client) up (\<lambda>_. home_address)"
    using desk_home [OF b(2)] build_updater_Inr(5) [OF b(1)] b(2) time(2) by simp
  have rs: "records sample_config = [sample_record]" by (simp add: sample_config_def)
  show ?thesis
    using once_publishes [of ?m shelf_zone desk_db "home_args CmdOnce" up ls 1 "\<lambda>_. home_address" "(V4 (Ipv4Addr 8 8 8 8), 0)" "{}" "Some [path]" "{path}" 0]
      b a env home time(1) desk_contract desk_responsive [of built_client] desk_clock desk_tidy rs
    by (simp add: init_logging_def sample_machine_def)
qed

end
