(* ===== verification/Check_Live.thy ===== *)
theory Check_Live
  imports Dns_Check Dns_Live
begin

text \<open>
  Total correctness of the check: when token, edit probes and lookups are answered and there is time for the
  requests, the check verifies everything it is meant to verify and reports success, and the
  command exits with 0.
\<close>

section \<open>A service that answers a check\<close>

text \<open>The token is active, and an edit probe that repeats a configured record is accepted.\<close>

definition answers_token :: "'w env \<Rightarrow> cloudflare_client \<Rightarrow> bool" where
  "answers_token env client \<longleftrightarrow> (\<forall>w. \<exists>v info. answers (ev_json_token env)
     (fst (ev_respond env (get_request (verify_endpoint client) []) w)) v info \<and> lower (tv_status v) = ''active'')"

definition answers_probes :: "'w env \<Rightarrow> (string \<Rightarrow> string) \<Rightarrow> ('w \<Rightarrow> dns_db) \<Rightarrow> string \<Rightarrow> string list
    \<Rightarrow> record_config list \<Rightarrow> bool" where
  "answers_probes env zn db host base rs \<longleftrightarrow> (\<forall>r \<in> set rs. \<forall>zid w x.
     zone_of zn r (lower zid) \<longrightarrow> matching r (db w) (lower zid) = [x] \<longrightarrow>
     (\<exists>y info. answers (ev_json_record env) (fst (ev_respond env
        (json_request PATCH (ApiUrl host (base @ [''zones'', zid, ''dns_records'', dr_id x]))
          (ProbeBody \<lparr>ep_record_type = dr_record_type x, ep_name = dr_name x, ep_ttl = dr_ttl x\<rparr>)) w)) y info))"

text \<open>DNS as a check wants it: tidy, and nothing missing unless the check may create it.\<close>

definition checkable :: "bool \<Rightarrow> (string \<Rightarrow> string) \<Rightarrow> record_config list \<Rightarrow> dns_db \<Rightarrow> bool" where
  "checkable allow_create zn rs D \<longleftrightarrow> tidy zn rs D \<and>
     (allow_create \<or> (\<forall>r \<in> set rs. \<forall>zk. zone_of zn r zk \<longrightarrow> matching r D zk \<noteq> []))"

lemma checkable_kept:
  assumes "(check_rel allow_create zn rs)\<^sup>*\<^sup>* D D'" and "checkable allow_create zn rs D"
  shows "checkable allow_create zn rs D'"
  using creations_add [OF assms(1)] assms(2) spec_steps_tidy [of zn rs D D' rs]
  by (auto simp: checkable_def)

text \<open>The time a check needs before a write.\<close>

abbreviation write_time :: "cloudflare_client \<Rightarrow> duration" where
  "write_time client \<equiv> saturating_add (cc_request_timeout client) MUTATION_START_MARGIN"

lemma gate_open: "now env s + write_time client \<le> deadline \<Longrightarrow> mutation_can_finish_before env client deadline s"
  by (simp add: mutation_can_finish_before_def)

section \<open>The steps\<close>

lemma delivers_verify_token:
  assumes "dns_service env zn db" and "served env zn db client rs L" and "answers_token env client"
  shows "delivers env L (sees db zn rs D) 1 (verify_token env client) (\<lambda>x. x = Inr ())"
proof -
  obtain host segs where u: "verify_endpoint client = ApiUrl host segs"
    by (cases "cc_verification_target client") (auto simp: verify_endpoint_def endpoint_path)
  have "delivers env L (sees db zn rs D) 1
      (send env client (ev_json_token env) (get_request (ApiUrl host segs) []) ''verifying the API token'')
      (\<lambda>x. \<exists>response. x = Inr response \<and> lower (tv_status (ar_result response)) = ''active'')"
    using assms(3) by (intro delivers_send [OF assms(1,2)]) (simp add: answers_token_def u)
  then show ?thesis
    unfolding verify_token_def u
    by (rule delivers_then) (auto simp: eq_ignore_ascii_case_def intro: delivers_ret)
qed

lemma lookup_before_delivers:
  assumes "delivers env L (sees db zn rs D) n m (\<lambda>x. \<exists>a. x = Inr a \<and> Q a)" and "sees db zn rs D s"
    and "timers s = []" and "now env s + n * L < d"
  obtains a s' where "lookup_before d stage m s = (Done (Inr a), s')" "Q a" "sees db zn rs D s'" "timers s' = []"
    "now env s' \<le> now env s + n * L"
proof -
  obtain x s' where x: "timeout_at d m s = (Done (Some x), s')" "\<exists>a. x = Inr a \<and> Q a" "sees db zn rs D s'" "timers s' = []"
    "now env s' \<le> now env s + n * L"
    by (rule delivers_timeout [OF assms])
  then obtain a where "x = Inr a" "Q a" by blast
  then show ?thesis
    using x that [of a s'] by (simp add: lookup_before_def bind_io_def ret_def map_err_def)
qed

lemma inspect_delivers:
  assumes "dns_service env zn db" and "served env zn db client rs L" and "ids_ok rs" and "r \<in> set rs" and "tidy zn rs D"
    and "sees db zn rs D s" and "timers s = []" and "now env s + 2 * L < d"
  obtains zid e s' where "inspect_check_record env client r d p s = (Done (mark_resolved r zid p, Inr (zid, e)), s')"
    "zone_of zn r (lower zid)" "found_in r D zid e" "sees db zn rs D s'" "timers s' = []" "now env s' \<le> now env s + 2 * L"
proof -
  obtain zid t where t: "lookup_before d FsZoneLookup (resolve_zone_id env client (zone r) (zone_id r)) s = (Done (Inr zid), t)"
    "zone_of zn r (lower zid)" "sees db zn rs D t" "timers t = []" "now env t \<le> now env s + 1 * L"
    by (rule lookup_before_delivers [OF delivers_resolve [OF assms(1-4)] assms(6,7), of d]) (use assms(8) in simp)
  have one: "length (matching r D (lower zid)) \<le> 1" using assms(4,5) t(2) by (auto simp: tidy_def)
  obtain e s' where e: "lookup_before d FsRecordLookup (find_record env client zid (record_type_str (record_type r)) (name r)) t = (Done (Inr e), s')"
    "matching r D (lower zid) = (case e of None \<Rightarrow> [] | Some d \<Rightarrow> [d])" "sees db zn rs D s'" "timers s' = []"
    "now env s' \<le> now env t + 1 * L"
    by (rule lookup_before_delivers [OF delivers_find_record [OF assms(1,2,4) t(2) one] t(3,4), of d]) (use t(5) assms(8) in simp)
  then show ?thesis
    using that [of zid e s'] t by (simp add: inspect_check_record_def bind_io_def ret_def found_in_def)
qed

lemma mark_proven_again: "\<not> needs_proof p zid \<Longrightarrow> mark_proven zid p = p"
  by (simp add: needs_proof_def mark_proven_def)

lemma probe_request_url: "rq_url (probe_request client zid x) =
    ApiUrl (url_origin (cc_api_base client)) (base_path client @ [''zones'', zid, ''dns_records'', dr_id x])"
  by (simp add: probe_request_def json_request_def endpoint_path)

lemma existing_delivers:
  assumes "served env zn db client rs L" and "answers_probes env zn db (url_origin (cc_api_base client)) (base_path client) rs"
    and "r \<in> set rs" and "zone_of zn r (lower zid)" and "matching r D (lower zid) = [e]"
    and "sees db zn rs D s" and "timers s = []" and "now env s + write_time client \<le> co_deadline options"
    and "co_allow_edit_probe options"
  obtains s' where "handle_existing_check_record env client options r zid e p report s =
      (Done (False, mark_proven zid p, report\<lparr>ck_existing := ck_existing report + 1\<rparr>), s')"
    "timers s' = []" "now env s' \<le> now env s + L"
proof (cases "needs_proof p zid")
  case False
  then show ?thesis
    using that [of s] assms(7) by (simp add: handle_existing_check_record_def Let_def ret_def mark_proven_again)
next
  case True
  obtain y info where "answers (ev_json_record env) (fst (ev_respond env (probe_request client zid e) (world s))) y info"
    using assms(2-6) by (fastforce simp: answers_probes_def sees_def probe_request_def endpoint_path)
  then obtain s' where "guarded (send_record env client (probe_request client zid e) ''probing DNS edit permission'' zid) s = (Done (Inr y), s')"
    "timers s' = []" "now env s' \<le> now env s + L"
    using guarded_write_delivers [OF assms(1,7) probe_request_url] by blast
  then show ?thesis
    using that [of s'] True assms(9) gate_open [OF assms(8)]
    by (simp add: handle_existing_check_record_def Let_def get_sys_def probe_edit_permission_def probe_record_edit_def
        bind_ok_def bind_io_def ret_def)
qed

lemma missing_delivers:
  assumes "dns_service env zn db" and "served env zn db client rs L"
    and "r \<in> set rs" and "zone_of zn r (lower zid)" and "matching r D (lower zid) = []"
    and "sees db zn rs D s" and "timers s = []" and "now env s + L + write_time client \<le> co_deadline options"
    and "0 < write_time client" and "co_allow_create options" and "create_if_missing r"
    and "address_for_record addresses r = Inr a" and "may_publish r a"
  obtains s' where "handle_missing_check_record env client addresses options r zid p report s =
      (Done (False, mark_proven zid p, report\<lparr>ck_created := ck_created report + 1\<rparr>), s')"
    "timers s' = []" "now env s' \<le> now env s + 2 * L"
proof -
  let ?find = "find_record env client zid (record_type_str (record_type r)) (name r)"
  have time: "now env s + 1 * L < co_deadline options" using assms(8,9) by simp
  obtain x t where t: "timeout_at (co_deadline options) ?find s = (Done (Some x), t)"
    "\<exists>e. x = Inr e \<and> matching r D (lower zid) = (case e of None \<Rightarrow> [] | Some d \<Rightarrow> [d])"
    "sees db zn rs D t" "timers t = []" "now env t \<le> now env s + 1 * L"
    by (rule delivers_timeout [OF delivers_find_record [OF assms(1-4)] assms(6,7) time]) (use assms(5) in simp_all)
  then have x: "x = Inr None" using assms(5) by (auto split: option.splits)
  obtain y info where "answers (ev_json_record env) (fst (ev_respond env (create_request client zid (payload_for r a)) (world t))) y info"
    using servedD(4) [OF assms(2)] assms(3-5,11,13) t(3)
    by (fastforce simp: answers_writes_def sees_def create_request_def endpoint_path)
  then obtain s' where "guarded (send_record env client (create_request client zid (payload_for r a)) ''creating a DNS record'' zid) t = (Done (Inr y), s')"
    "timers s' = []" "now env s' \<le> now env t + L"
    using guarded_write_delivers [OF assms(2) t(4) create_request_url] by blast
  moreover have "mutation_can_finish_before env client (co_deadline options) s" "mutation_can_finish_before env client (co_deadline options) t"
    using assms(8) t(5) by (auto intro!: gate_open)
  ultimately show ?thesis
    using that [of s'] t(1,5) x assms(10-12)
    by (simp add: handle_missing_check_record_def get_sys_def create_record_def payload_for_def bind_io_def ret_def)
qed

text \<open>One record: its zone is resolved and proved, and the record exists or was created.\<close>

lemma check_record_delivers:
  assumes "dns_service env zn db" and "served env zn db client rs L" and "ids_ok rs" and "r \<in> set rs"
    and "answers_probes env zn db (url_origin (cc_api_base client)) (base_path client) rs"
    and "checkable (co_allow_create options) zn rs D" and "co_allow_edit_probe options"
    and "sees db zn rs D s" and "timers s = []"
    and "now env s + 4 * L + write_time client \<le> co_deadline options" and "0 < write_time client"
    and "address_for_record addresses r = Inr a" and "may_publish r a"
  obtains zid report' s' where "check_record env client addresses options r p report s =
      (Done (False, mark_proven zid (mark_resolved r zid p), report'), s')"
    "report' = report\<lparr>ck_existing := ck_existing report + 1\<rparr> \<or> report' = report\<lparr>ck_created := ck_created report + 1\<rparr>"
    "timers s' = []" "now env s' \<le> now env s + 4 * L"
proof -
  have t: "tidy zn rs D" using assms(6) by (simp add: checkable_def)
  obtain zid e t where i: "inspect_check_record env client r (co_deadline options) p s = (Done (mark_resolved r zid p, Inr (zid, e)), t)"
    "zone_of zn r (lower zid)" "found_in r D zid e" "sees db zn rs D t" "timers t = []" "now env t \<le> now env s + 2 * L"
    by (rule inspect_delivers [OF assms(1-4) t assms(8,9), of "co_deadline options" p]) (use assms(10,11) in simp)
  show ?thesis
  proof (cases e)
    case (Some d)
    obtain s' where "handle_existing_check_record env client options r zid d (mark_resolved r zid p) report t =
        (Done (False, mark_proven zid (mark_resolved r zid p), report\<lparr>ck_existing := ck_existing report + 1\<rparr>), s')"
      "timers s' = []" "now env s' \<le> now env t + L"
      using existing_delivers [OF assms(2,5,4) i(2) _ i(4,5) _ assms(7), where e = d and p = "mark_resolved r zid p" and report = report] i(3,6) Some assms(10)
      by (auto simp: found_in_def)
    then show ?thesis
      using that [of zid _ s'] i(1,6) Some by (simp add: check_record_def bind_io_def)
  next
    case None
    then have m: "matching r D (lower zid) = []" using i(3) by (simp add: found_in_def)
    then have "co_allow_create options" "create_if_missing r"
      using assms(4,6) i(2) by (auto simp: checkable_def tidy_def)
    then obtain s' where "handle_missing_check_record env client addresses options r zid (mark_resolved r zid p) report t =
        (Done (False, mark_proven zid (mark_resolved r zid p), report\<lparr>ck_created := ck_created report + 1\<rparr>), s')"
      "timers s' = []" "now env s' \<le> now env t + 2 * L"
      using missing_delivers [OF assms(1,2,4) i(2) m i(4,5) _ assms(11) _ _ assms(12,13), where p = "mark_resolved r zid p" and report = report and options = options] i(6) assms(10)
      by auto
    then show ?thesis
      using that [of zid _ s'] i(1,6) None by (simp add: check_record_def bind_io_def)
  qed
qed

lemma zone_proved_step:
  "z = zone_for_record r \<or> zone_proved p z \<Longrightarrow> zone_proved (mark_proven zid (mark_resolved r zid p)) z"
  by (auto simp: zone_proved_def mark_proven_def mark_resolved_def AList.update_conv' split: option.splits)

lemma check_loop_delivers:
  assumes "dns_service env zn db" and "applies_probes env db" and "served env zn db client rs L" and "ids_ok rs"
    and "answers_probes env zn db (url_origin (cc_api_base client)) (base_path client) rs"
    and "co_allow_edit_probe options" and "0 < write_time client"
    and public: "\<And>r. r \<in> set rs \<Longrightarrow> \<exists>a. address_for_record addresses r = Inr a \<and> may_publish r a"
  shows "set qs \<subseteq> set rs \<Longrightarrow> sees db zn rs D s \<Longrightarrow> checkable (co_allow_create options) zn rs D \<Longrightarrow> timers s = [] \<Longrightarrow>
    now env s + length qs * (4 * L) + write_time client \<le> co_deadline options \<Longrightarrow>
    \<exists>p' report' s'. check_loop env client addresses options qs p report s = (Done (p', report'), s') \<and>
      (\<forall>z. zone_proved p z \<or> z \<in> zone_for_record ` set qs \<longrightarrow> zone_proved p' z) \<and>
      ck_failures report' = ck_failures report \<and> ck_authenticated report' = ck_authenticated report \<and>
      ck_existing report' + ck_created report' = ck_existing report + ck_created report + length qs"
proof (induction qs arbitrary: p report s D)
  case Nil
  then show ?case by (simp add: ret_def)
next
  case (Cons r qs)
  have r: "r \<in> set rs" using Cons.prems(1) by simp
  obtain a where a: "address_for_record addresses r = Inr a" "may_publish r a" using public [OF r] by blast
  have time: "now env s + 4 * L + write_time client \<le> co_deadline options" using Cons.prems(5) by simp
  obtain zid report1 t where t: "check_record env client addresses options r p report s =
      (Done (False, mark_proven zid (mark_resolved r zid p), report1), t)"
    "report1 = report\<lparr>ck_existing := ck_existing report + 1\<rparr> \<or> report1 = report\<lparr>ck_created := ck_created report + 1\<rparr>"
    "timers t = []" "now env t \<le> now env s + 4 * L"
    by (rule check_record_delivers [OF assms(1,3,4) r assms(5) Cons.prems(3) assms(6) Cons.prems(2,4) time assms(7) a])
  have "may_publish r b" if "address_for_record addresses r = Inr b" for b using that a by simp
  from movesD [OF moves_check_record [OF assms(1,2,4) r this] t(1) Cons.prems(4,2)]
  obtain D' where D': "(check_rel (co_allow_create options) zn rs)\<^sup>*\<^sup>* D D'" "sees db zn rs D' t" by blast
  have later: "now env t + length qs * (4 * L) + write_time client \<le> co_deadline options"
    using Cons.prems(5) t(4) by simp
  obtain p' report' s' where run: "check_loop env client addresses options qs (mark_proven zid (mark_resolved r zid p)) report1 t =
      (Done (p', report'), s')"
    "\<forall>z. zone_proved (mark_proven zid (mark_resolved r zid p)) z \<or> z \<in> zone_for_record ` set qs \<longrightarrow> zone_proved p' z"
    "ck_failures report' = ck_failures report1" "ck_authenticated report' = ck_authenticated report1"
    "ck_existing report' + ck_created report' = ck_existing report1 + ck_created report1 + length qs"
    using Cons.IH [OF _ D'(2) checkable_kept [OF D'(1) Cons.prems(3)] t(3) later] Cons.prems(1) by fastforce
  have "zone_proved p' z" if "zone_proved p z \<or> z \<in> zone_for_record ` set (r # qs)" for z
    using that run(2) zone_proved_step [of z r p zid] by auto
  then show ?case
    using t(1,2) run(1,3-5) by (auto simp: bind_io_def)
qed

text \<open>When every configured zone is proved and nothing failed, the final report is one of success.\<close>

lemma finalize_success:
  assumes "extends_proofs env client (records c) s (proofs_for_config c) s' p" and "\<And>zs. set (order zs) = set zs"
    and "\<And>z. z \<in> zone_for_record ` set (records c) \<Longrightarrow> zone_proved p z"
    and "ck_failures report = []" and "ck_authenticated report"
  shows "check_success (finalize_check_report order probe p report)"
    and "ck_existing (finalize_check_report order probe p report) = ck_existing report"
    and "ck_created (finalize_check_report order probe p report) = ck_created report"
proof -
  have p: "proofs_ok p" "zp_expected p = zp_expected (proofs_for_config c)"
    using assms(1) proofs_ok_start [of c] by (auto simp: extends_proofs_def proofs_for_config_def)
  then have "proofs_complete p" "unverified_targets order p = []"
    using proofs_complete_iff [OF p(1)] unverified_targets_decide [OF p(1), of order] assms(2,3)
    by (auto simp: proofs_for_config_def)
  then show "check_success (finalize_check_report order probe p report)"
    "ck_existing (finalize_check_report order probe p report) = ck_existing report"
    "ck_created (finalize_check_report order probe p report) = ck_created report"
    using assms(4,5) by (simp_all add: finalize_check_report_def summarize_check_proofs_def check_success_def)
qed

lemma check_until_delivers:
  assumes "dns_service env zn db" and "applies_probes env db" and v: "valid_config parse (up_config up)"
    and "served env zn db (up_cloudflare up) (records (up_config up)) L" and "punctual env" and "monotonic env"
    and "reachable_home env up home" and "answers_token env (up_cloudflare up)"
    and "answers_probes env zn db (url_origin (cc_api_base (up_cloudflare up))) (base_path (up_cloudflare up)) (records (up_config up))"
    and "\<And>zs. set (order zs) = set zs"
    and "checkable allow_create zn (records (up_config up)) (db (world s))"
    and "timers s = []" and "zones_true zn (records (up_config up)) (zone_cache s)"
    and "now env s + L + pc_timeout (up_public_ip up) + length (records (up_config up)) * (4 * L) +
      write_time (up_cloudflare up) \<le> deadline"
  obtains report s' where "check_until env order up allow_create True deadline s = (Done report, s')" "check_success report"
    "ck_existing report + ck_created report = length (records (up_config up))"
proof -
  let ?rs = "records (up_config up)" and ?T = "pc_timeout (up_public_ip up)" and ?D = "db (world s)" and ?c = "up_cloudflare up"
  let ?options = "\<lparr>co_allow_create = allow_create, co_allow_edit_probe = True, co_deadline = deadline\<rparr>"
  let ?p = "proofs_for_config (up_config up)" and ?r = "empty_check_report (length ?rs)\<lparr>ck_authenticated := True\<rparr>"
  have margin: "0 < write_time ?c"
    by (simp add: saturating_add_def MUTATION_START_MARGIN_def MAX_DURATION_def from_secs_def nanos_per_sec_def)
  have see: "sees db zn ?rs ?D s" using assms(13) by (simp add: sees_def)
  have time: "now env s + 1 * L < deadline" unfolding mult_1 using assms(14) margin by linarith
  obtain x t where t: "timeout_at deadline (verify_token env ?c) s = (Done (Some x), t)" "x = Inr ()" "sees db zn ?rs ?D t"
    "timers t = []" "now env t \<le> now env s + 1 * L"
    by (rule delivers_timeout [OF delivers_verify_token [OF assms(1,4,8)] see assms(12) time])
  have "now env t + ?T < deadline" using t(5) assms(14) margin by linarith
  then obtain addresses u where u: "timeout_at deadline (discover_required_addresses env up) t = (Done (Some addresses), u)"
    "\<And>r. r \<in> set ?rs \<Longrightarrow> \<exists>a. address_for_record addresses r = Inr a \<and> may_publish r a"
    "discovery_failures addresses = []" "sees db zn ?rs ?D u" "timers u = []" "now env u \<le> now env t + ?T"
    using discovery_in_time [OF assms(1,4-7) v t(3,4)] by metis
  let ?v = "u\<lparr>control := \<lparr>stop_requested = False, mutation_in_flight = False\<rparr>\<rparr>"
  have v': "sees db zn ?rs ?D ?v" "timers ?v = []" "now env ?v + length ?rs * (4 * L) + write_time ?c \<le> deadline"
    using u(4-6) t(5) assms(14) by (simp_all add: sees_def now_def)
  obtain p report s' where run: "check_loop env ?c addresses ?options ?rs ?p ?r ?v = (Done (p, report), s')"
    "\<forall>z. zone_proved ?p z \<or> z \<in> zone_for_record ` set ?rs \<longrightarrow> zone_proved p z" "ck_failures report = []"
    "ck_authenticated report" "ck_existing report + ck_created report = length ?rs"
    using check_loop_delivers [OF assms(1,2,4) valid_config_ids [OF v] assms(9) _ margin u(2),
        where options = ?options and qs = ?rs and D = ?D and s = ?v and p = ?p and report = ?r]
      v' assms(11) by (auto simp: empty_check_report_def)
  have "extends_proofs env ?c ?rs ?v ?p s' p" by (rule check_loop_extends [OF run(1) v'(2) order_refl])
  note final = finalize_success [OF this, of order, OF assms(10) _ run(3,4)]
  have "check_until env order up allow_create True deadline s = (Done (finalize_check_report order True p report), s')"
    using t(1,2) u(1,3) run(1)
    by (simp add: check_until_def Let_def bind_io_def check_records_def fresh_control_def modify_sys_def ret_def empty_check_report_def)
  moreover have "check_success (finalize_check_report order True p report)"
    "ck_existing (finalize_check_report order True p report) + ck_created (finalize_check_report order True p report) = length ?rs"
    using final run(2,5) by auto
  ultimately show ?thesis by (rule that)
qed

section \<open>Properties\<close>

text \<open>
  C21: the \<open>check\<close> command with edit probes does its work when its surroundings do theirs. If the lock
  is granted, the token is active, the service answers lookups and accepts probes of the configured
  records within \<open>L\<close>, each needed family has good providers, no configured record exists twice,
  every one exists or the check may create it, and the five minutes of a check leave time for
  the requests, then the process exits with code 0: the edit permission was verified for every zone.
\<close>

theorem check_command_succeeds:
  assumes "dns_service (ma_env m) zn db" and "applies_probes (ma_env m) db"
    and "build_updater m (cli_config args) = (Inr up, ls)"
    and "responsive (ma_env m) zn db (url_origin (cc_api_base (up_cloudflare up))) (base_path (up_cloudflare up)) (records (up_config up)) L"
    and "punctual (ma_env m)" and "monotonic (ma_env m)" and "reachable_home (ma_env m) up home"
    and "answers_token (ma_env m) (up_cloudflare up)"
    and "answers_probes (ma_env m) zn db (url_origin (cc_api_base (up_cloudflare up))) (base_path (up_cloudflare up)) (records (up_config up))"
    and "\<forall>zs. set (ma_zone_order m zs) = set zs"
    and "checkable allow_create zn (records (up_config up)) (db w)"
    and "L + request_timeout (up_config up) + length (records (up_config up)) * (4 * L) +
      saturating_add (cc_request_timeout (up_cloudflare up)) MUTATION_START_MARGIN \<le> CHECK_TIMEOUT"
    and "init_logging m (cli_verbose args) (cli_quiet args) = Inr ()" and "cli_command args = CmdCheck allow_create True"
    and "acquire (ma_locker m) (ma_lock_os m) (up_runtime_lock up) l = (Inr guard, k)"
  shows "\<exists>pr. main fuel m args w l = (Some 0, pr)"
proof -
  let ?s = "idle_sys w"
  have v: "valid_config (ev_parse_url (ma_env m)) (up_config up)"
    using build_updater_Inr(6) [OF assms(3)] by (simp add: validate_iff_valid)
  have s: "checkable allow_create zn (records (up_config up)) (db (world ?s))" "timers ?s = []"
    "zones_true zn (records (up_config up)) (zone_cache ?s)"
    using assms(11) by (simp_all add: zones_true_def)
  have time: "now (ma_env m) ?s + L + pc_timeout (up_public_ip up) + length (records (up_config up)) * (4 * L) +
      write_time (up_cloudflare up) \<le> now (ma_env m) ?s + CHECK_TIMEOUT"
    using assms(12) build_updater_Inr(5) [OF assms(3)] by simp
  obtain report s' where
    "check_until (ma_env m) (ma_zone_order m) up allow_create True (now (ma_env m) ?s + CHECK_TIMEOUT) ?s = (Done report, s')"
    "check_success report"
    by (rule check_until_delivers [OF assms(1,2) v assms(4-9) assms(10) [rule_format] s time])
  then have "check (ma_env m) (ma_zone_order m) (Inr guard) up allow_create True ?s = (Done report, s')" "check_success report"
    by (simp_all add: check_def get_sys_apply)
  then show ?thesis
    using assms(3,13-15) by (simp add: main_def Let_def execute_def execute_check_def with_runtime_lock_def)
qed

lemma desk_token: "answers_token (desk_service client) client"
proof -
  obtain host segs where "verify_endpoint client = ApiUrl host segs"
    by (cases "cc_verification_target client") (auto simp: verify_endpoint_def endpoint_path)
  then show ?thesis
    by (simp add: answers_token_def desk_reply_def answers_def accepted_ok ok_envelope_def ok_response_simps
        CF_MAX_RESPONSE_BYTES_def get_request_def)
qed

lemma desk_probe:
  "lower zid = ''z1'' \<Longrightarrow> fst (desk_reply client (probe_request client zid (desk_record a)) a) = Inr (ok_response (show_ip a))"
  by (simp add: desk_reply_def probe_request_def json_request_def zone_page_request_def record_page_request_def
      get_request_def path_zone_endpoint(2) [unfolded json_request_def])

lemma desk_probes:
  "answers_probes (desk_service client) shelf_zone desk_db (url_origin (cc_api_base client)) (base_path client) [sample_record]"
  unfolding answers_probes_def
proof (intro ballI allI impI)
  fix r zid and w :: desk and x
  assume r: "r \<in> set [sample_record]" "zone_of shelf_zone r (lower zid)" "matching r (desk_db w) (lower zid) = [x]"
  then have zid: "lower zid = ''z1''" "x = desk_record (fst w)"
    using desk_matching [of w] by (auto simp: desk_zone_of)
  show "\<exists>y info. answers (ev_json_record (desk_service client)) (fst (ev_respond (desk_service client)
      (json_request PATCH (ApiUrl (url_origin (cc_api_base client)) (base_path client @ [''zones'', zid, ''dns_records'', dr_id x]))
        (ProbeBody \<lparr>ep_record_type = dr_record_type x, ep_name = dr_name x, ep_ttl = dr_ttl x\<rparr>)) w)) y info"
    using desk_probe [OF zid(1), of client "fst w"] answers_desk [of desk_record "fst w"] zid(2)
    by (auto simp: probe_request_def endpoint_path)
qed

lemma desk_applies_probes: "applies_probes (desk_service client) desk_db"
  unfolding applies_probes_def
  by (auto simp: desk_reply_def stored_address_def json_request_def get_request_def zone_page_request_def
      record_page_request_def update_request_def endpoint_path desk_db_def fun_eq_iff split: if_splits)

lemma built_client_timeout: "cc_request_timeout built_client \<le> from_secs 15"
  by (auto simp: built_client_def cf_new_def with_api_base_def bind_res_def sample_client_def request_timeout_def sample_config_def
      default_config_def DEFAULT_REQUEST_TIMEOUT_SECONDS_def split: sum.splits)

theorem check_command_succeeds_witness:
  "\<exists>pr. main 0 (sample_machine (desk_host built_client)) (home_args (CmdCheck False True)) (V4 (Ipv4Addr 8 8 8 8), 0) {} = (Some 0, pr)"
proof -
  let ?m = "sample_machine (desk_host built_client)"
  have "ev_parse_url (ho_env (desk_host built_client)) = sample_url_parser" by (simp add: desk_host_def)
  then obtain up ls where b: "build_updater ?m DEFAULT_CONFIG_PATH = (Inr up, ls)" "up_config up = sample_config"
      "up_cloudflare up = built_client"
    using sample_builds by blast
  have env: "ma_env ?m = desk_service built_client" by (simp add: ma_env_def sample_machine_def desk_host_def)
  have "up_runtime_lock up = sample_lock"
    using build_updater_Inr(7) [OF b(1)] b(2) by (simp add: sample_machine_def)
  then obtain path where a: "acquire (ma_locker ?m) (ma_lock_os ?m) (up_runtime_lock up) {} = (Inr (Some [path]), {path})"
    using sample_lock_acquired by (auto simp: sample_machine_def)
  have rs: "records sample_config = [sample_record]" by (simp add: sample_config_def)
  have time: "from_secs 1 \<le> request_timeout sample_config"
    "1 + request_timeout sample_config + 4 + saturating_add (cc_request_timeout built_client) MUTATION_START_MARGIN \<le> CHECK_TIMEOUT"
    using built_client_timeout
    by (simp_all add: request_timeout_def sample_config_def default_config_def DEFAULT_REQUEST_TIMEOUT_SECONDS_def
        saturating_add_def MUTATION_START_MARGIN_def CHECK_TIMEOUT_def from_secs_def nanos_per_sec_def min.coboundedI2)
  have home: "reachable_home (desk_service built_client) up (\<lambda>_. home_address)"
    using desk_home [OF b(2)] build_updater_Inr(5) [OF b(1)] b(2) time(1) by simp
  have c: "checkable False shelf_zone [sample_record] (desk_db w)" for w
    using desk_tidy by (simp add: checkable_def desk_zone_of desk_matching)
  show ?thesis
    using check_command_succeeds [of ?m shelf_zone desk_db "home_args (CmdCheck False True)" up ls 1 "\<lambda>_. home_address" False
        "(V4 (Ipv4Addr 8 8 8 8), 0)" "{}" "Some [path]" "{path}" 0]
      b a env home time(2) desk_contract desk_applies_probes desk_responsive [of built_client] desk_clock desk_token desk_probes c rs
    by (simp add: init_logging_def sample_machine_def)
qed

end
