(* ===== verification/Spec2Isabelle.thy ===== *)
theory Spec2Isabelle
  imports Check Daemon Cli Request_Count Dns_Check Dns_Live Check_Live
begin

text \<open>
  \<^bold>\<open>cirrusync\<close>, a dynamic DNS client for Cloudflare: it discovers the public IP addresses of a host
  at HTTPS providers and keeps configured A and AAAA records equal to them. This development models
  the Rust sources under \<open>src/src/\<close> (Unix build) as executable functions and proves what makes them
  correct.

  \<^bold>\<open>Parts of the program and their theories.\<close>

  \<^item> \<open>Prelude\<close>: widths of machine integers, durations in nanoseconds, \<open>Result\<close> as a sum with its
    binding, loops with an early return, rotation of a list.
  \<^item> \<open>Rust_Str\<close>, \<open>Ip_Addr\<close>: the parts of Rust's \<open>str\<close> and \<open>std::net\<close> that the program calls. A
    string is its UTF-8 byte sequence. Addresses are parsed by the recursive-descent parser of the
    standard library and printed in canonical form; reading back a printed address is proved.
  \<^item> \<open>Wire\<close>: HTTP requests and responses, bounded bodies, and the JSON values of \<open>cloudflare.rs\<close>.
  \<^item> \<open>Async\<close>: the runtime. A future run to its end is a function on the process state. Its one
    suspension point \<open>await\<close> ends with a reply, with the expiry of a deadline of an enclosing
    \<open>timeout_at\<close>, or with the shutdown signal; the trace records each request and what became of it.
    The locales \<open>read_frame\<close> and \<open>write_frame\<close> state what a relation between the states before and
    after must satisfy so that every read-only operation, and every operation whose mutations run
    guarded and outside of timeouts, respects it; their interpretations give the frames that the
    properties use (timers, clock, cursor, reads only, mutations replied, no interruption).
  \<^item> \<open>Public_Ip\<close>: \<open>public_ip.rs\<close>, the filter of public addresses, the parser of provider answers and
    the provider loop with its total timeout.
  \<^item> \<open>Config\<close>, \<open>Secure_Files\<close>: \<open>config.rs\<close>, data model, defaults, canonical form, validation, parse
    errors; opening and checking the configuration file and the token file. The locale
    \<open>pinned_file\<close> is the contract of the three kinds of file that are opened under suspicion.
  \<^item> \<open>Cf_Error\<close>, \<open>Cloudflare\<close>: \<open>cloudflare.rs\<close>, errors with redaction and sanitising of remote text,
    token kinds, request building, classification of answers, zones with their cache, paged record
    lookup, record changes.
  \<^item> \<open>Runtime_Lock\<close>: the lock of \<open>updater.rs\<close>, from the identity of the managed records over the
    checks of lock directory and lock files to acquisition and release.
  \<^item> \<open>Updater\<close>: reports, planning and execution for a record, and the cycle with its deadline,
    rotation, abort rules and shutdown control.
  \<^item> \<open>Check\<close>: the \<open>check\<close> workflow of \<open>updater.rs\<close> with its proofs of the edit permission per zone.
  \<^item> \<open>Daemon\<close>: \<open>daemon.rs\<close>, retry policy and jitter on machine words, and the loop, both as an inductive
    step relation and as an executable function with a number of steps.
  \<^item> \<open>Cli\<close>: \<open>main.rs\<close> and \<open>error.rs\<close>, the construction of the updater, the commands with lock, reports
    and exit code, the choice of the log filter, the example configuration.
  \<^item> \<open>Request_Count\<close>: how many requests a command sends at most, added up over its computations (\<open>sends\<close>).
  \<^item> \<open>Dns_Spec\<close>: the abstract specification. Its state is the contents of the DNS zones; its only steps
    (\<open>spec_sync\<close>) give a configured record its desired state or add one that is missing and may be
    created; \<open>in_sync\<close> is the goal. It knows nothing of clients, pages, caches, deadlines or signals.
  \<^item> \<open>Dns_Service\<close>: the contract \<open>dns_service\<close> of the DNS service, which is not part of the repository, as
    a predicate over the environment, and the triples \<open>yields\<close>: under the contract, what the reading
    operations of client and updater return is true of the database.
  \<^item> \<open>Dns_Refine\<close>, \<open>Dns_Check\<close>: the simulation. Plans, cycles, the daemon, the \<open>once\<close> command and the
    check implement the specification; a successful cycle has reached the goal of every record, and
    a successful check has had a change accepted in every configured zone.
  \<^item> \<open>Dns_Live\<close>, \<open>Check_Live\<close>: the other half of correctness, that success happens. The triples \<open>delivers\<close> count the
    requests of an operation: from any state with that much time left it returns, within that time and
    without an error, what it should.

  \<^bold>\<open>How they interact.\<close> \<open>main\<close> builds the updater (\<open>config_load\<close>, \<open>load_api_token\<close>, the two
  clients), takes the runtime lock and runs a cycle, a check or the daemon. A cycle discovers the
  addresses of the needed families in parallel (\<open>join2\<close>), then plans each record under the deadline and
  executes the plan outside of it, under the guard that marks a mutation in flight. The daemon polls the
  signal beside the cycle; it drops a cycle only while no mutation is in flight.

  \<^bold>\<open>State.\<close> The record \<open>sys\<close> holds what the Rust objects share: the zone cache of the client, the
  record cursor of the updater, the control block of the cycle, the stack of deadlines, the state of
  the signal, and the trace. \<open>process\<close> adds locks, log and output. Everything outside of \<open>src/\<close>
  is a parameter: HTTP, clock, timers, signal, JSON and TOML codecs, the URL parser (record \<open>env\<close>), the
  sleep and the system time (\<open>host\<close>), answers of the file system (\<open>file_view\<close>, \<open>lock_os\<close>),
  advisory locks (\<open>locker\<close>), and the rest of the surroundings (\<open>machine\<close>). Theorems hold for all
  of them; where one needs documented behaviour it is a named hypothesis (\<open>exclusive\<close>, \<open>monotonic\<close>,
  \<open>late_by\<close>, \<open>punctual\<close>, \<open>serves_records\<close>, \<open>quiet_host\<close>, \<open>dns_service\<close>, \<open>applies_probes\<close>), instantiated by a
  concrete service in the witness. \<open>dns_service\<close> reads the database \<open>db\<close> off the world and asks: record
  identifiers are unique in a zone (\<open>distinct_ids\<close>); while the program waits, only its own changing
  requests change DNS (\<open>only_writer\<close>; the daemon may be disturbed while it sleeps); accepted listings show
  the matching records, page by page (\<open>lists_records\<close>); zone documents name the zone of their identifier
  (\<open>names_zones\<close>); an accepted change was applied, and one that is not seen to be accepted was applied or
  not (\<open>applies_writes\<close>). Every request may fail at any time. The API has no conditional write, and the
  program cannot exclude that somebody else changes DNS during a cycle or a check: \<open>README.md\<close> warns of these
  races, and the theorems of \<open>Dns_Refine\<close>, \<open>Dns_Check\<close> and \<open>Dns_Live\<close> about the database hold where there is no such writer. The theorems of \<open>Dns_Live\<close> add the
  surroundings in which success can be asked for: timers do not fire early (\<open>faithful_timers\<close>), no
  signal arrives (\<open>undisturbed\<close>), the service accepts each well-formed request for the configured records
  within a latency \<open>L\<close> (\<open>responsive\<close>), each family has a provider that answers in its share of the
  discovery timeout (\<open>good_providers\<close>, \<open>reachable_home\<close>; the others may fail, answer nonsense or hang, but are
  never read as another address), and no record
  exists twice or is missing where it may not be created (\<open>tidy\<close>, \<open>checkable\<close>); for the check also that the
  token is active and probes are accepted (\<open>answers_token\<close>, \<open>answers_probes\<close>). How late the runtime resumes a task
  after a deadline is the parameter \<open>\<delta>\<close> of \<open>late_by\<close> in the theorems about discovery; \<open>punctual\<close>, with
  no lateness, is an idealisation that the theorems on the success of whole cycles, checks and the daemon use.

  \<^bold>\<open>What is proved.\<close> Functional correctness of synchronisation: however a cycle, the daemon, \<open>once\<close> or a
  check ends, DNS has changed only by steps of the specification, so that unmanaged records are
  untouched and no duplicates arise; a reported success means that every configured record is published
  with the discovered address; a cycle with nothing to do writes nothing; the zone cache stays truthful.
  Total correctness: in responsive surroundings, with time for the discovery and four requests per record
  before the deadline, a cycle and \<open>once\<close> do succeed and publish every record, the daemon does so in each
  round and so keeps the records published, and one good provider among failing ones is enough; a check
  with edit probes then verifies every zone and exits with 0.
  A successful check had a change accepted in the zone of each record. Safety of writes: nothing is written without the lock, with anything but a public
  address of the right family, for a record that is not configured, after the deadline, or without
  waiting for the reply, in every command, every check and every reachable state of the daemon.
  Exclusion of processes that share a record and a lock directory (the installed one, else one per user), and
  no leaked lock. Reports that add up, exit codes that
  mean what they say. A bound on the requests of each command that ends by itself, progress and survival of the daemon, bounded delays.
  Validation against a declarative predicate; trusted files; redaction of the token; address filters
  against the special-purpose registries; lookups over all pages with a bounded number of requests;
  round trips of addresses, payloads and the example configuration; a rotation that is fair to every record.

  \<^bold>\<open>Bounds and fuel.\<close> Page loops count down from \<open>MAX_PAGES\<close>, as the code's ranges do. The daemon's
  loop does not end by itself: \<open>run_loop\<close> takes a number of steps, and \<open>run_loop_adequate\<close> shows that
  it visits exactly the states of \<open>daemon_step\<close> and that more steps never change a returned result;
  \<open>daemon_progress\<close> and \<open>daemon_runs_for_ever\<close> are about every number of steps. A cycle needs no
  fuel. That a single request ends outside of the deadlines is the work of the HTTP client's own timeout: \<open>await\<close>
  has an outcome always, and its expiry there is one of the transport errors. Durations are unbounded naturals in nanoseconds: the program's are below \<open>2 ^ 64\<close> seconds, and
  the saturating operations are written out. Counters of reports are naturals bounded by 50 records.

  \<^bold>\<open>Not modelled.\<close> The dropping of \<open>.\<close> and \<open>..\<close> segments by the URL library (see \<open>endpoint\<close>); the derived \<open>Debug\<close> and \<open>serde\<close> implementations and the codecs; the
  \<open>cfg(windows)\<close> branches; parsing of the command line and the log library; the log lines inside the
  cycle and the loop (those of the commands are); \<open>lib.rs\<close>, which lists modules; \<open>Error::source\<close> of the
  discovery errors, which nothing calls; \<open>shutdown_signal\<close>, whose resolution is a parameter; the unit tests,
  which are about half of the lines of the source files, and their constructors; the installer, service unit and
  release scripts, which are not Rust. Interleaving is modelled at the suspension points: the two
  discovery lanes run from the same state and their traces are joined.
\<close>

end
